(* ===== verification/Prelude.thy ===== *)
theory Prelude
  imports Main "HOL-Library.Word" "HOL-Library.List_Lexorder" "HOL-Library.Multiset"
begin

text \<open>
  Shared vocabulary of the development: machine integers and byte strings, the result of a
  Rust function (a value, an \<open>Err\<close> or a panic), state passing with such results, the
  standard-library loops the components use (\<open>chunks\<close>, \<open>?\<close> inside a loop), and the
  generic lemmas and \<open>named_theorems\<close> collections the component theories share.
\<close>

type_synonym u8 = "8 word"
type_synonym u32 = "32 word"
type_synonym u64 = "64 word"
type_synonym bytes = "u8 list"
type_synonym block_hash = "256 word"

named_theorems outcome_simps \<open>evaluation of results and of the state-passing combinators\<close>

subsection \<open>Results: value, error, panic\<close>

text \<open>
  The panics of the source, one constructor per kind of place that panics.
\<close>

datatype panic =
    AssertFailed
  | UnwrapFailed
  | IndexOutOfBounds
  | MissingBlockhash
  | NotPartOfChain
  | Unreachable
  | Incompatible

datatype ('e, 'a) outcome = Ok 'a | Err 'e | Panic panic

fun and_then :: "('e, 'a) outcome \<Rightarrow> ('a \<Rightarrow> ('e, 'b) outcome) \<Rightarrow> ('e, 'b) outcome" where
  "and_then (Ok a) k = k a"
| "and_then (Err e) k = Err e"
| "and_then (Panic p) k = Panic p"

fun map_err :: "('e \<Rightarrow> 'f) \<Rightarrow> ('e, 'a) outcome \<Rightarrow> ('f, 'a) outcome" where
  "map_err f (Ok a) = Ok a"
| "map_err f (Err e) = Err (f e)"
| "map_err f (Panic p) = Panic p"

text \<open>\<open>Option::ok_or\<close>, \<open>Option::unwrap\<close> and \<open>Result::unwrap\<close>.\<close>

fun ok_or :: "'e \<Rightarrow> 'a option \<Rightarrow> ('e, 'a) outcome" where
  "ok_or e None = Err e"
| "ok_or e (Some a) = Ok a"

fun unwrap_opt :: "'a option \<Rightarrow> ('e, 'a) outcome" where
  "unwrap_opt None = Panic UnwrapFailed"
| "unwrap_opt (Some a) = Ok a"

fun unwrap_res :: "'f + 'a \<Rightarrow> ('e, 'a) outcome" where
  "unwrap_res (Inl _) = Panic UnwrapFailed"
| "unwrap_res (Inr a) = Ok a"

fun of_sum :: "'e + 'a \<Rightarrow> ('e, 'a) outcome" where
  "of_sum (Inl e) = Err e"
| "of_sum (Inr a) = Ok a"

fun is_ok :: "('e, 'a) outcome \<Rightarrow> bool" where
  "is_ok (Ok _) = True"
| "is_ok _ = False"

text \<open>
  A function of the source that returns no \<open>Result\<close> can only return a value or panic; its
  error type is \<open>unit\<close> and \<open>embed\<close> lets it run inside a function that has errors.
\<close>

type_synonym 'a panicky = "(unit, 'a) outcome"

fun embed :: "'a panicky \<Rightarrow> ('e, 'a) outcome" where
  "embed (Ok a) = Ok a"
| "embed (Err _) = Panic Unreachable"
| "embed (Panic p) = Panic p"

lemma embed_Ok_iff [outcome_simps]: "embed m = Ok a \<longleftrightarrow> m = Ok a"
  by (cases m) auto

lemma embed_not_Err [simp]: "embed m \<noteq> Err e"
  by (cases m) auto

lemma and_then_Ok_iff [outcome_simps]:
  "and_then m k = Ok b \<longleftrightarrow> (\<exists>a. m = Ok a \<and> k a = Ok b)"
  by (cases m) auto

lemma and_then_Err_iff [outcome_simps]:
  "and_then m k = Err e \<longleftrightarrow> m = Err e \<or> (\<exists>a. m = Ok a \<and> k a = Err e)"
  by (cases m) auto

lemma and_then_Panic_iff [outcome_simps]:
  "and_then m k = Panic p \<longleftrightarrow> m = Panic p \<or> (\<exists>a. m = Ok a \<and> k a = Panic p)"
  by (cases m) auto

lemma map_err_Ok_iff [outcome_simps]: "map_err f m = Ok a \<longleftrightarrow> m = Ok a"
  by (cases m) auto

lemma ok_or_Ok_iff [outcome_simps]: "ok_or e x = Ok a \<longleftrightarrow> x = Some a"
  by (cases x) auto

lemma unwrap_opt_Ok_iff [outcome_simps]: "unwrap_opt x = Ok a \<longleftrightarrow> x = Some a"
  by (cases x) auto

lemma unwrap_res_Ok_iff [outcome_simps]: "unwrap_res x = Ok a \<longleftrightarrow> x = Inr a"
  by (cases x) auto

lemma of_sum_Ok_iff [outcome_simps]: "of_sum x = Ok a \<longleftrightarrow> x = Inr a"
  by (cases x) auto

lemma is_ok_iff: "is_ok m \<longleftrightarrow> (\<exists>a. m = Ok a)"
  by (cases m) auto

subsection \<open>State passing with results\<close>

text \<open>
  A method that reads and writes shared state \<open>'s\<close> and returns a result: the state is
  returned also when the result is an error or a panic, since what was written before stays
  written.
\<close>

type_synonym ('s, 'e, 'a) action = "'s \<Rightarrow> ('e, 'a) outcome \<times> 's"

definition ret :: "'a \<Rightarrow> ('s, 'e, 'a) action" where
  "ret a s = (Ok a, s)"

definition lift :: "('e, 'a) outcome \<Rightarrow> ('s, 'e, 'a) action" where
  "lift r s = (r, s)"

definition seq :: "('s, 'e, 'a) action \<Rightarrow> ('a \<Rightarrow> ('s, 'e, 'b) action) \<Rightarrow> ('s, 'e, 'b) action" where
  "seq m k s =
     (case m s of
        (Ok a, s') \<Rightarrow> k a s'
      | (Err e, s') \<Rightarrow> (Err e, s')
      | (Panic p, s') \<Rightarrow> (Panic p, s'))"

text \<open>An action without errors inside one that has them.\<close>

definition embed_act :: "('s, unit, 'a) action \<Rightarrow> ('s, 'e, 'a) action" where
  "embed_act m s = (let (r, s') = m s in (embed r, s'))"

lemma embed_act_eq [simp]: "m s = (r, s') \<Longrightarrow> embed_act m s = (embed r, s')"
  by (simp add: embed_act_def)

lemma ret_apply [simp]: "ret a s = (Ok a, s)"
  by (simp add: ret_def)

lemma lift_apply [simp]: "lift r s = (r, s)"
  by (simp add: lift_def)

lemma seq_Ok [simp]: "m s = (Ok a, s') \<Longrightarrow> seq m k s = k a s'"
  by (simp add: seq_def)

lemma seq_Err [simp]: "m s = (Err e, s') \<Longrightarrow> seq m k s = (Err e, s')"
  by (simp add: seq_def)

lemma seq_Panic [simp]: "m s = (Panic p, s') \<Longrightarrow> seq m k s = (Panic p, s')"
  by (simp add: seq_def)

lemma seq_Ok_iff [outcome_simps]:
  "seq m k s = (Ok b, t) \<longleftrightarrow> (\<exists>a s'. m s = (Ok a, s') \<and> k a s' = (Ok b, t))"
  by (auto simp: seq_def split: prod.splits outcome.splits)

lemma lift_Ok_iff [outcome_simps]: "lift r s = (Ok a, t) \<longleftrightarrow> r = Ok a \<and> t = s"
  by auto

text \<open>Parts of a computation that do not touch the state.\<close>

lemma seq_lift_state: "seq (lift r) k s = (q, t) \<Longrightarrow> t = s \<or> (\<exists>a. r = Ok a \<and> k a s = (q, t))"
  by (cases r) (auto simp: seq_def)

lemma seq_only_lifts:
  assumes "seq m k s = (q, t)" and "\<And>a s1 q t. k a s1 = (q, t) \<Longrightarrow> t = s1"
  shows "\<exists>r. m s = (r, t)"
proof -
  obtain r s1 where m: "m s = (r, s1)" by (cases "m s")
  with assms show ?thesis by (cases r) auto
qed

subsection \<open>Lists\<close>

text \<open>\<open>slice::chunks(n)\<close> for a constant \<open>n > 0\<close>.\<close>

function chunks :: "nat \<Rightarrow> 'a list \<Rightarrow> 'a list list" where
  "chunks n xs = (if n = 0 \<or> xs = [] then [] else take n xs # chunks n (drop n xs))"
  by pat_completeness auto
termination
  by (relation "measure (\<lambda>(n, xs). length xs)") auto

declare chunks.simps [simp del]

lemma chunks_Nil [simp]: "chunks n [] = []"
  by (simp add: chunks.simps)

lemma concat_chunks: "n > 0 \<Longrightarrow> concat (chunks n xs) = xs"
proof (induction n xs rule: chunks.induct)
  case (1 n xs)
  then show ?case
    by (cases "xs = []") (simp_all add: chunks.simps[of n xs])
qed

lemma chunks_small: "n > 0 \<Longrightarrow> xs \<noteq> [] \<Longrightarrow> length xs \<le> n \<Longrightarrow> chunks n xs = [xs]"
  by (simp add: chunks.simps)

lemma length_in_chunks: "c \<in> set (chunks n xs) \<Longrightarrow> 0 < length c \<and> length c \<le> n"
proof (induction n xs rule: chunks.induct)
  case (1 n xs)
  show ?case
  proof (cases "n = 0 \<or> xs = []")
    case False
    with "1.prems" have "c = take n xs \<or> c \<in> set (chunks n (drop n xs))"
      by (simp add: chunks.simps[of n xs])
    with "1.IH" False show ?thesis by auto
  qed (use "1.prems" in \<open>simp add: chunks.simps\<close>)
qed

text \<open>The position of a value in a sorted list bounds the numbers of smaller and larger values.\<close>

lemma sorted_filter_less:
  fixes xs :: "'a::linorder list"
  assumes "sorted xs" and "k < length xs"
  shows "length (filter (\<lambda>x. x < xs ! k) xs) \<le> k"
proof -
  have "filter (\<lambda>x. x < xs ! k) (drop k xs) = []"
    using assms by (auto simp: filter_empty_conv in_set_conv_nth sorted_iff_nth_mono
        intro!: leD[rotated])
  then have "length (filter (\<lambda>x. x < xs ! k) xs) = length (filter (\<lambda>x. x < xs ! k) (take k xs))"
    by (metis append_take_drop_id append_Nil2 filter_append)
  also have "\<dots> \<le> k"
    by (metis length_filter_le length_take min.bounded_iff)
  finally show ?thesis .
qed

lemma sorted_filter_greater:
  fixes xs :: "'a::linorder list"
  assumes "sorted xs" and "k < length xs"
  shows "length (filter (\<lambda>x. xs ! k < x) xs) \<le> length xs - Suc k"
proof -
  have "filter (\<lambda>x. xs ! k < x) (take (Suc k) xs) = []"
    using assms by (auto simp: filter_empty_conv in_set_conv_nth sorted_iff_nth_mono
        intro!: leD[rotated])
  then have "length (filter (\<lambda>x. xs ! k < x) xs) =
      length (filter (\<lambda>x. xs ! k < x) (drop (Suc k) xs))"
    by (metis append_take_drop_id append_Nil filter_append)
  also have "\<dots> \<le> length xs - Suc k"
    by (metis length_filter_le length_drop)
  finally show ?thesis .
qed

subsection \<open>Loops that stop at the first error\<close>

fun try_map :: "('a \<Rightarrow> ('e, 'b) outcome) \<Rightarrow> 'a list \<Rightarrow> ('e, 'b list) outcome" where
  "try_map f [] = Ok []"
| "try_map f (x # xs) = and_then (f x) (\<lambda>y. and_then (try_map f xs) (\<lambda>ys. Ok (y # ys)))"

lemma try_map_Ok_iff:
  "try_map f xs = Ok ys \<longleftrightarrow> list_all2 (\<lambda>x y. f x = Ok y) xs ys"
  by (induction xs arbitrary: ys) (auto simp: outcome_simps list_all2_Cons1)

lemma try_map_Ok:
  assumes "\<forall>x \<in> set xs. f x = Ok (g x)"
  shows "try_map f xs = Ok (map g xs)"
  using assms by (induction xs) auto

text \<open>A filter whose predicate, once true, stays true keeps a suffix.\<close>

lemma filter_upward_closed:
  assumes "\<And>i j. i \<le> j \<Longrightarrow> j < length xs \<Longrightarrow> P (xs ! i) \<Longrightarrow> P (xs ! j)"
  shows "\<exists>m \<le> length xs. filter P xs = drop m xs \<and> (\<forall>i < m. \<not> P (xs ! i))"
  using assms
proof (induction xs)
  case (Cons x xs)
  show ?case
  proof (cases "P x")
    case True
    then have "\<forall>y \<in> set (x # xs). P y"
      using Cons.prems[of 0 "Suc _"] by (auto simp: in_set_conv_nth)
    then have "filter P (x # xs) = x # xs" by simp
    then show ?thesis by (intro exI[of _ 0]) simp
  next
    case False
    have "\<exists>m \<le> length xs. filter P xs = drop m xs \<and> (\<forall>i < m. \<not> P (xs ! i))"
      by (rule Cons.IH) (use Cons.prems[of "Suc _" "Suc _"] in auto)
    then obtain m where "m \<le> length xs" "filter P xs = drop m xs" "\<forall>i < m. \<not> P (xs ! i)" by blast
    with False show ?thesis
      by (intro exI[of _ "Suc m"]) (auto simp: less_Suc_eq_0_disj)
  qed
qed simp

end
