(* ===== verification/Simple_Cache.thy ===== *)
theory Simple_Cache
  imports Prelude
begin

text \<open>
  \<open>SimpleCache\<close> of \<open>src/src/utils.rs\<close>: a bounded response cache over a \<open>BTreeMap\<close>, shared by
  every handler. The map is modelled by its entries in key order; each operation holds the
  map's lock for its whole body, so an operation is one step. The interface the handlers rely
  on is the locale \<open>response_cache\<close>, interpreted on the operations at the end.
\<close>

subsection \<open>Ordered maps\<close>

fun bt_insert :: "'k::linorder \<Rightarrow> 'v \<Rightarrow> ('k \<times> 'v) list \<Rightarrow> ('k \<times> 'v) list" where
  "bt_insert k v [] = [(k, v)]"
| "bt_insert k v ((k', v') # m) =
     (if k < k' then (k, v) # (k', v') # m
      else if k = k' then (k, v) # m
      else (k', v') # bt_insert k v m)"

definition bt_remove :: "'k \<Rightarrow> ('k \<times> 'v) list \<Rightarrow> ('k \<times> 'v) list" where
  "bt_remove k m = filter (\<lambda>kv. fst kv \<noteq> k) m"

definition bt_update :: "'k \<Rightarrow> 'v \<Rightarrow> ('k \<times> 'v) list \<Rightarrow> ('k \<times> 'v) list" where
  "bt_update k v m = map (\<lambda>kv. if fst kv = k then (k, v) else kv) m"

abbreviation bt_ok :: "('k::linorder \<times> 'v) list \<Rightarrow> bool" where
  "bt_ok m \<equiv> sorted_wrt (<) (map fst m)"

lemma set_bt_insert: "fst ` set (bt_insert k v m) = insert k (fst ` set m)"
  by (induction k v m rule: bt_insert.induct) auto

lemma bt_ok_insert: "bt_ok m \<Longrightarrow> bt_ok (bt_insert k v m)"
proof (induction k v m rule: bt_insert.induct)
  case (2 k v k' v' m)
  then show ?case
    using set_bt_insert[of k v m] by (auto simp: image_iff)
qed simp

lemma map_of_bt_insert: "bt_ok m \<Longrightarrow> map_of (bt_insert k v m) = (map_of m)(k \<mapsto> v)"
  by (induction k v m rule: bt_insert.induct) (auto simp: fun_eq_iff)

lemma length_bt_insert:
  "length (bt_insert k v m) \<le> Suc (length m)"
  by (induction k v m rule: bt_insert.induct) auto

lemma map_of_bt_remove: "map_of (bt_remove k m) = (map_of m)(k := None)"
  by (induction m) (auto simp: bt_remove_def fun_eq_iff)

lemma bt_ok_remove: "bt_ok m \<Longrightarrow> bt_ok (bt_remove k m)"
  by (induction m) (auto simp: bt_remove_def)

lemma length_bt_remove: "length (bt_remove k m) \<le> length m"
  by (simp add: bt_remove_def)

lemma length_bt_remove_first: "length (bt_remove k ((k, v) # m)) \<le> length m"
  by (simp add: bt_remove_def)

lemma map_fst_bt_update [simp]: "map fst (bt_update k v m) = map fst m"
  by (induction m) (auto simp: bt_update_def)

lemma map_of_bt_update:
  "map_of (bt_update k v m) = (if map_of m k = None then map_of m else (map_of m)(k \<mapsto> v))"
  by (induction m) (auto simp: bt_update_def fun_eq_iff)

lemma length_bt_update [simp]: "length (bt_update k v m) = length m"
  by (simp add: bt_update_def)

subsection \<open>The cache\<close>

record ('k, 'v) simple_cache =
  cache_map :: "('k \<times> 'v) list"
  cache_size :: nat

definition cache_new :: "nat \<Rightarrow> ('k, 'v) simple_cache" where
  "cache_new n = \<lparr>cache_map = [], cache_size = n\<rparr>"

definition cache_insert ::
    "('k::linorder) \<Rightarrow> 'v \<Rightarrow> ('k, 'v) simple_cache \<Rightarrow> ('k, 'v) simple_cache" where
  "cache_insert key value c =
     (let m = cache_map c;
          m' = (if length m \<ge> cache_size c
                then (case m of [] \<Rightarrow> m | (oldest_key, _) # _ \<Rightarrow> bt_remove oldest_key m)
                else m)
      in c\<lparr>cache_map := bt_insert key value m'\<rparr>)"

definition cache_get :: "('k, 'v) simple_cache \<Rightarrow> 'k \<Rightarrow> 'v option" where
  "cache_get c key = map_of (cache_map c) key"

definition cache_write :: "'k \<Rightarrow> 'v \<Rightarrow> ('k, 'v) simple_cache \<Rightarrow> ('k, 'v) simple_cache" where
  "cache_write key new_value c =
     (case map_of (cache_map c) key of
        None \<Rightarrow> c
      | Some _ \<Rightarrow> c\<lparr>cache_map := bt_update key new_value (cache_map c)\<rparr>)"

definition cache_remove :: "'k \<Rightarrow> ('k, 'v) simple_cache \<Rightarrow> ('k, 'v) simple_cache" where
  "cache_remove key c = c\<lparr>cache_map := bt_remove key (cache_map c)\<rparr>"

text \<open>
  The invariant: the entries are those of an ordered map, and there are at most as many as the
  configured size, or one where the size is zero.
\<close>

definition cache_inv :: "('k::linorder, 'v) simple_cache \<Rightarrow> bool" where
  "cache_inv c \<longleftrightarrow> bt_ok (cache_map c) \<and> length (cache_map c) \<le> max 1 (cache_size c)"

lemma cache_inv_new: "cache_inv (cache_new n)"
  by (simp add: cache_inv_def cache_new_def)

lemma cache_insert_cases:
  obtains (room) "length (cache_map c) < cache_size c \<or> cache_map c = []"
      "cache_insert k v c = c\<lparr>cache_map := bt_insert k v (cache_map c)\<rparr>"
  | (full) old w rest where "cache_map c = (old, w) # rest" "cache_size c \<le> length (cache_map c)"
      "cache_insert k v c = c\<lparr>cache_map := bt_insert k v (bt_remove old (cache_map c))\<rparr>"
  by (cases "length (cache_map c) < cache_size c"; cases "cache_map c")
    (auto simp: cache_insert_def Let_def)

lemma cache_inv_insert: "cache_inv c \<Longrightarrow> cache_inv (cache_insert k v c)"
proof (cases rule: cache_insert_cases[of c k v])
  case room
  assume "cache_inv c"
  with room length_bt_insert[of k v "cache_map c"] show ?thesis
    by (auto simp: cache_inv_def bt_ok_insert)
next
  case (full old w rest)
  assume "cache_inv c"
  moreover have "length (bt_insert k v (bt_remove old (cache_map c))) \<le> length (cache_map c)"
    using full(1) length_bt_insert[of k v "bt_remove old (cache_map c)"]
      length_bt_remove_first[of old w rest] by simp
  ultimately show ?thesis using full(3)
    by (auto simp: cache_inv_def bt_ok_insert bt_ok_remove)
qed

lemma cache_inv_write: "cache_inv c \<Longrightarrow> cache_inv (cache_write k v c)"
  by (auto simp: cache_inv_def cache_write_def split: option.splits)

lemma cache_inv_remove: "cache_inv c \<Longrightarrow> cache_inv (cache_remove k c)"
  using length_bt_remove[of k "cache_map c"]
  by (auto simp: cache_inv_def cache_remove_def bt_ok_remove)

lemma cache_get_insert:
  "cache_inv c \<Longrightarrow> cache_get (cache_insert k v c) k' =
     (if k' = k then Some v
      else if cache_size c \<le> length (cache_map c) \<and> cache_map c \<noteq> [] \<and> k' = fst (hd (cache_map c))
      then None else cache_get c k')"
  by (cases rule: cache_insert_cases[of c k v])
    (auto simp: cache_inv_def cache_get_def map_of_bt_insert map_of_bt_remove bt_ok_remove
      simp del: map_of.simps)

subsection \<open>The interface of the handlers\<close>

text \<open>
  A handler looks a key up, and on a miss fetches the value and inserts it. What makes that
  sound: an insert is read back, an insert of another key never changes a value (it may evict
  one), a removed key is gone.
\<close>

definition coherent :: "('c \<Rightarrow> 'k \<Rightarrow> 'v option) \<Rightarrow> ('k \<Rightarrow> 'v \<Rightarrow> bool) \<Rightarrow> 'c \<Rightarrow> bool" where
  "coherent lookup P c \<longleftrightarrow> (\<forall>k v. lookup c k = Some v \<longrightarrow> P k v)"

locale response_cache =
  fixes lookup :: "'c \<Rightarrow> 'k \<Rightarrow> 'v option"
    and store :: "'k \<Rightarrow> 'v \<Rightarrow> 'c \<Rightarrow> 'c"
    and discard :: "'k \<Rightarrow> 'c \<Rightarrow> 'c"
    and good :: "'c \<Rightarrow> bool"
  assumes lookup_store_same: "good c \<Longrightarrow> lookup (store k v c) k = Some v"
    and lookup_store_other: "good c \<Longrightarrow> k' \<noteq> k \<Longrightarrow> lookup (store k v c) k' = Some w \<Longrightarrow> lookup c k' = Some w"
    and lookup_discard: "good c \<Longrightarrow> lookup (discard k c) k' = (if k' = k then None else lookup c k')"
    and good_store: "good c \<Longrightarrow> good (store k v c)"
    and good_discard: "good c \<Longrightarrow> good (discard k c)"
begin

lemma coherent_store:
  assumes "good c" and "coherent lookup P c" and "P k v"
  shows "coherent lookup P (store k v c)"
  unfolding coherent_def
proof (intro allI impI)
  fix k' w assume w: "lookup (store k v c) k' = Some w"
  show "P k' w"
  proof (cases "k' = k")
    case True
    with w assms lookup_store_same show ?thesis by auto
  next
    case False
    with w assms lookup_store_other show ?thesis by (auto simp: coherent_def)
  qed
qed

lemma coherent_discard: "good c \<Longrightarrow> coherent lookup P c \<Longrightarrow> coherent lookup P (discard k c)"
  by (auto simp: coherent_def lookup_discard split: if_splits)

lemma coherent_hit: "coherent lookup P c \<Longrightarrow> lookup c k = Some v \<Longrightarrow> P k v"
  by (simp add: coherent_def)

text \<open>Against an unbounded map: a bounded cache forgets, but never invents.\<close>

lemma submap_store:
  assumes "good c" and "lookup c \<subseteq>\<^sub>m m"
  shows "lookup (store k v c) \<subseteq>\<^sub>m m(k \<mapsto> v)"
proof -
  have "coherent lookup (\<lambda>k' w. (m(k \<mapsto> v)) k' = Some w) (store k v c)"
    unfolding coherent_def
  proof (intro allI impI)
    fix k' w assume "lookup (store k v c) k' = Some w"
    with assms lookup_store_same lookup_store_other show "(m(k \<mapsto> v)) k' = Some w"
      by (cases "k' = k") (auto simp: map_le_def dom_def)
  qed
  then show ?thesis
    by (auto simp: coherent_def map_le_def dom_def simp del: fun_upd_apply)
qed

lemma submap_discard: "good c \<Longrightarrow> lookup c \<subseteq>\<^sub>m m \<Longrightarrow> lookup (discard k c) \<subseteq>\<^sub>m m(k := None)"
  by (auto simp: map_le_def dom_def lookup_discard split: if_splits)

end

interpretation sc: response_cache cache_get cache_insert cache_remove cache_inv
proof unfold_locales
  fix c :: "('k::linorder, 'v) simple_cache" and k k' :: 'k and v w :: 'v
  assume c: "cache_inv c"
  show "cache_get (cache_insert k v c) k = Some v"
    using c by (simp add: cache_get_insert)
  show "cache_inv (cache_insert k v c)" using c by (rule cache_inv_insert)
  show "cache_inv (cache_remove k c)" using c by (rule cache_inv_remove)
  show "cache_get (cache_remove k c) k' = (if k' = k then None else cache_get c k')"
    by (simp add: cache_get_def cache_remove_def map_of_bt_remove)
  assume "k' \<noteq> k" "cache_get (cache_insert k v c) k' = Some w"
  with c show "cache_get c k' = Some w"
    by (simp add: cache_get_insert split: if_splits)
qed

subsection \<open>Runs of operations\<close>

datatype ('k, 'v) cache_op = Insert 'k 'v | Write 'k 'v | Remove 'k

fun cache_step :: "('k::linorder, 'v) cache_op \<Rightarrow> ('k, 'v) simple_cache \<Rightarrow> ('k, 'v) simple_cache" where
  "cache_step (Insert k v) c = cache_insert k v c"
| "cache_step (Write k v) c = cache_write k v c"
| "cache_step (Remove k) c = cache_remove k c"

text \<open>The same operations on a map without a bound.\<close>

fun ideal_step :: "('k, 'v) cache_op \<Rightarrow> ('k \<Rightarrow> 'v option) \<Rightarrow> ('k \<Rightarrow> 'v option)" where
  "ideal_step (Insert k v) m = m(k \<mapsto> v)"
| "ideal_step (Write k v) m = (if m k = None then m else m(k \<mapsto> v))"
| "ideal_step (Remove k) m = m(k := None)"

lemma cache_step_inv: "cache_inv c \<Longrightarrow> cache_inv (cache_step op c)"
  by (cases op) (simp_all add: cache_inv_insert cache_inv_write cache_inv_remove)

lemma cache_step_size [simp]: "cache_size (cache_step op c) = cache_size c"
  by (cases op)
    (auto simp: cache_insert_def cache_write_def cache_remove_def Let_def split: option.splits)

lemma cache_step_refines:
  assumes "cache_inv c" and "cache_get c \<subseteq>\<^sub>m m"
  shows "cache_get (cache_step op c) \<subseteq>\<^sub>m ideal_step op m"
proof (cases op)
  case (Insert k v)
  with sc.submap_store[OF assms] show ?thesis by simp
next
  case (Write k v)
  with assms(2) show ?thesis
    by (auto simp: cache_write_def cache_get_def map_le_def dom_def map_of_bt_update
        split: option.splits if_splits)
next
  case (Remove k)
  with sc.submap_discard[OF assms] show ?thesis by simp
qed

subsection \<open>Properties\<close>

text \<open>
  C25: the cache refines an unbounded map. After any sequence of inserts, writes and removes
  from a fresh cache of size \<open>n\<close>, the cache holds at most \<open>max 1 n\<close> entries in key order, and
  whatever \<open>get\<close> returns is what the same sequence would have left in a map without a bound:
  eviction loses entries but a stale or foreign value is never returned for a key.
\<close>

theorem cache_run_refines_map:
  "cache_inv (fold cache_step ops (cache_new n)) \<and>
   length (cache_map (fold cache_step ops (cache_new n))) \<le> max 1 n \<and>
   cache_get (fold cache_step ops (cache_new n)) \<subseteq>\<^sub>m fold ideal_step ops Map.empty"
proof -
  have "cache_inv (fold cache_step ops c) \<and> cache_size (fold cache_step ops c) = cache_size c \<and>
      cache_get (fold cache_step ops c) \<subseteq>\<^sub>m fold ideal_step ops m"
    if "cache_inv c" "cache_get c \<subseteq>\<^sub>m m" for c :: "('a, 'b) simple_cache" and m
    using that
  proof (induction ops arbitrary: c m)
    case (Cons op ops)
    show ?case
      using Cons.IH[OF cache_step_inv[OF Cons.prems(1)] cache_step_refines[OF Cons.prems]]
      by simp
  qed simp
  moreover have "cache_get (cache_new n) \<subseteq>\<^sub>m Map.empty" and "cache_size (cache_new n) = n"
    by (simp_all add: cache_get_def cache_new_def map_le_def)
  ultimately show ?thesis
    using cache_inv_new[of n] by (metis cache_inv_def)
qed

text \<open>
  what an insert does to the other keys. The inserted value is read back; every other key
  keeps its value, except that a full cache drops its smallest key (the code calls it
  \<open>oldest_key\<close>), also when the inserted key was already there and no room was needed.
\<close>

theorem cache_insert_effect:
  assumes "cache_inv c"
  shows "cache_get (cache_insert k v c) k' =
     (if k' = k then Some v
      else if cache_size c \<le> length (cache_map c) \<and> cache_map c \<noteq> [] \<and>
              (\<forall>j \<in> fst ` set (cache_map c). k' \<le> j) \<and> k' \<in> fst ` set (cache_map c)
      then None else cache_get c k')"
proof -
  have "(k' = fst (hd (cache_map c))) =
      ((\<forall>j \<in> fst ` set (cache_map c). k' \<le> j) \<and> k' \<in> fst ` set (cache_map c))"
    if "cache_map c \<noteq> []"
    using that assms by (cases "cache_map c") (auto simp: cache_inv_def intro: antisym order.strict_implies_order)
  then show ?thesis
    by (auto simp: cache_get_insert[OF assms])
qed

text \<open>
  The witness also shows that the evicted key is not the oldest one: keys 1 and 2 are inserted
  in the order 2, 1; inserting 3 evicts 1, the newer of the two.
\<close>

theorem cache_insert_effect_witness:
  "cache_get (cache_insert (3::nat) ''c'' (cache_insert 1 ''a'' (cache_insert 2 ''b'' (cache_new 2)))) 1 = None \<and>
   cache_get (cache_insert (3::nat) ''c'' (cache_insert 1 ''a'' (cache_insert 2 ''b'' (cache_new 2)))) 2 = Some ''b''"
proof -
  let ?c = "cache_insert (1::nat) ''a'' (cache_insert 2 ''b'' (cache_new 2))"
  have inv: "cache_inv ?c" by (intro cache_inv_insert cache_inv_new)
  have c: "?c = \<lparr>cache_map = [(1, ''a''), (2, ''b'')], cache_size = 2\<rparr>"
    by (simp add: cache_insert_def cache_new_def Let_def)
  show ?thesis
    using cache_insert_effect[OF inv, of 3 "''c''" 1] cache_insert_effect[OF inv, of 3 "''c''" 2]
    unfolding c by (simp add: cache_get_def)
qed

end
