(* ===== verification/Header_Chain.thy ===== *)
theory Header_Chain
  imports Prelude
begin

text \<open>
  The in-memory header chain of \<open>src/src/header.rs\<close>: \<open>HeaderEntry\<close>,
  \<open>HeaderList\<close> and its operations (\<open>empty\<close>, \<open>new\<close>, \<open>order\<close>, \<open>apply\<close>, the lookups,
  \<open>tip\<close>, \<open>get_mtp\<close>). The block hash of a header is computed by the \<open>bitcoin\<close> crate and is
  an argument \<open>bh\<close> of every definition that uses it.
\<close>

subsection \<open>Data\<close>

text \<open>The public fields of \<open>bitcoin::block::Header\<close>.\<close>

record block_header =
  version :: u32
  prev_blockhash :: block_hash
  merkle_root :: block_hash
  time :: u32
  bits :: u32
  nonce :: u32

definition all_zeros :: block_hash where
  "all_zeros = 0"

definition MTP_SPAN :: nat where
  "MTP_SPAN = 11"

record header_entry =
  height :: nat
  hash :: block_hash
  header :: block_header

record header_list =
  headers :: "header_entry list"
  heights :: "block_hash \<Rightarrow> nat option"
  tip :: block_hash

subsection \<open>Operations\<close>

definition empty_list :: header_list where
  "empty_list = \<lparr>headers = [], heights = Map.empty, tip = all_zeros\<rparr>"

definition header_by_blockhash :: "header_list \<Rightarrow> block_hash \<Rightarrow> header_entry option" where
  "header_by_blockhash hl blockhash =
     (case heights hl blockhash of
        None \<Rightarrow> None
      | Some h \<Rightarrow>
          (if h < length (headers hl)
           then (let e = headers hl ! h in if blockhash = hash e then Some e else None)
           else None))"

definition header_by_height :: "header_list \<Rightarrow> nat \<Rightarrow> header_entry option panicky" where
  "header_by_height hl h =
     (if h < length (headers hl)
      then (if height (headers hl ! h) = h then Ok (Some (headers hl ! h)) else Panic AssertFailed)
      else Ok None)"

text \<open>\<open>(new_height..).zip(hashed_headers)\<close>: consecutive heights from \<open>new_height\<close> on.\<close>

fun number_from :: "nat \<Rightarrow> (block_hash \<times> block_header) list \<Rightarrow> header_entry list" where
  "number_from n [] = []"
| "number_from n ((bhash, h) # rest) =
     \<lparr>height = n, hash = bhash, header = h\<rparr> # number_from (Suc n) rest"

definition order ::
    "(block_header \<Rightarrow> block_hash) \<Rightarrow> header_list \<Rightarrow> block_header list
      \<Rightarrow> header_entry list panicky" where
  "order bh hl new_headers =
     (let hashed_headers = map (\<lambda>h. (bh h, h)) new_headers in
      if \<not> successively (\<lambda>a b. prev_blockhash (snd b) = fst a) hashed_headers
      then Panic AssertFailed
      else case hashed_headers of
        [] \<Rightarrow> Ok []
      | (_, first) # _ \<Rightarrow>
          (let prev = prev_blockhash first in
           and_then
             (if prev = all_zeros then Ok 0
              else case header_by_blockhash hl prev of
                None \<Rightarrow> Panic NotPartOfChain
              | Some e \<Rightarrow> Ok (height e + 1))
             (\<lambda>new_height. Ok (number_from new_height hashed_headers))))"

text \<open>The loop that pushes the new headers, with its assertion on the height.\<close>

fun push_headers :: "header_list \<Rightarrow> header_entry list \<Rightarrow> header_list panicky" where
  "push_headers hl [] = Ok hl"
| "push_headers hl (e # es) =
     (if height e \<noteq> length (headers hl) then Panic AssertFailed
      else push_headers
        \<lparr>headers = headers hl @ [e],
         heights = (heights hl)(hash e \<mapsto> height e),
         tip = hash e\<rparr> es)"

text \<open>
  \<open>apply\<close>: the two assertions on consecutive entries, the indexing of the parent (a panic
  when it is out of bounds), the silent return when the parent does not match, \<open>split_off\<close>
  and the pushes.
\<close>

definition apply_headers ::
    "header_list \<Rightarrow> header_entry list \<Rightarrow> header_list panicky" where
  "apply_headers hl new_headers =
     (if \<not> successively (\<lambda>a b. height a + 1 = height b \<and> hash a = prev_blockhash (header b))
            new_headers
      then Panic AssertFailed
      else case new_headers of
        [] \<Rightarrow> Ok hl
      | entry # _ \<Rightarrow>
          (let h = height entry in
           and_then
             (if h > 0
              then (if h - 1 < length (headers hl) then Ok (hash (headers hl ! (h - 1)))
                    else Panic IndexOutOfBounds)
              else Ok all_zeros)
             (\<lambda>expected_prev_blockhash.
                if prev_blockhash (header entry) \<noteq> expected_prev_blockhash then Ok hl
                else if h > length (headers hl) then Panic IndexOutOfBounds
                else push_headers (hl\<lparr>headers := take h (headers hl)\<rparr>) new_headers)))"

text \<open>
  \<open>new\<close>: walk back from the tip to the null hash, removing every header met from the map
  (a \<open>HashMap\<close>, an association list here), then order and apply the reversed walk.
\<close>

function walk_back ::
    "(block_hash \<times> block_header) list \<Rightarrow> block_hash \<Rightarrow> block_header list
      \<Rightarrow> block_header list panicky" where
  "walk_back m blockhash chain =
     (if blockhash = all_zeros then Ok chain
      else case map_of m blockhash of
        None \<Rightarrow> Panic MissingBlockhash
      | Some h \<Rightarrow>
          walk_back (filter (\<lambda>kv. fst kv \<noteq> blockhash) m) (prev_blockhash h) (chain @ [h]))"
  by pat_completeness auto
termination
proof (relation "measure (\<lambda>(m, _, _). length m)")
  fix m :: "(block_hash \<times> block_header) list" and blockhash chain h
  assume "map_of m blockhash = Some h"
  then have "(blockhash, h) \<in> set m"
    by (rule map_of_SomeD)
  then show "((filter (\<lambda>kv. fst kv \<noteq> blockhash) m, prev_blockhash h, chain @ [h]),
      (m, blockhash, chain)) \<in> measure (\<lambda>(m, _, _). length m)"
    by (auto intro!: length_filter_less)
qed simp

declare walk_back.simps [simp del]

definition new_list ::
    "(block_header \<Rightarrow> block_hash) \<Rightarrow> (block_hash \<times> block_header) list \<Rightarrow> block_hash
      \<Rightarrow> header_list panicky" where
  "new_list bh headers_map tip_hash =
     and_then (walk_back headers_map tip_hash [])
       (\<lambda>headers_chain.
          and_then (order bh empty_list (rev headers_chain)) (apply_headers empty_list))"

definition tip_of :: "header_list \<Rightarrow> block_hash panicky" where
  "tip_of hl =
     (if tip hl = (case headers hl of [] \<Rightarrow> all_zeros | _ \<Rightarrow> hash (last (headers hl)))
      then Ok (tip hl) else Panic AssertFailed)"

definition list_equals :: "header_list \<Rightarrow> header_list \<Rightarrow> bool" where
  "list_equals a b \<longleftrightarrow>
     (if headers a = [] then None else Some (last (headers a))) =
     (if headers b = [] then None else Some (last (headers b)))"

text \<open>
  The median time past. \<open>self.len() - 1\<close> underflows on an empty list; with
  \<open>height \<noteq> 0\<close> both the checked build (overflow) and the wrapping one (the \<open>unwrap\<close> of a
  missing header) panic.
\<close>

definition get_mtp :: "header_list \<Rightarrow> nat \<Rightarrow> u32 panicky" where
  "get_mtp hl h =
     (if h = 0 then (case headers hl of [] \<Rightarrow> Panic UnwrapFailed | e # _ \<Rightarrow> Ok (time (header e)))
      else if headers hl = [] then Panic UnwrapFailed
      else if h > length (headers hl) - 1 then Ok 0
      else (let timestamps =
                  sort (map (\<lambda>p. time (header (headers hl ! p))) [h - (MTP_SPAN - 1) ..< Suc h])
            in Ok (timestamps ! (length timestamps div 2))))"

subsection \<open>Invariant\<close>

text \<open>
  A well-formed chain: entry \<open>i\<close> has height \<open>i\<close>, carries the hash of its header and points to
  entry \<open>i - 1\<close> (to the null hash at the start). A well-formed list also has the tip of its last
  entry and the height of every hash on it; stale heights of dropped headers may remain.
\<close>

definition chain_tip :: "header_entry list \<Rightarrow> block_hash" where
  "chain_tip hs = (if hs = [] then all_zeros else hash (last hs))"

definition wf_headers :: "(block_header \<Rightarrow> block_hash) \<Rightarrow> header_entry list \<Rightarrow> bool" where
  "wf_headers bh hs \<longleftrightarrow>
     (\<forall>i < length hs. height (hs ! i) = i \<and> hash (hs ! i) = bh (header (hs ! i)) \<and>
        prev_blockhash (header (hs ! i)) = chain_tip (take i hs))"

definition wf_list :: "(block_header \<Rightarrow> block_hash) \<Rightarrow> header_list \<Rightarrow> bool" where
  "wf_list bh hl \<longleftrightarrow>
     wf_headers bh (headers hl) \<and> tip hl = chain_tip (headers hl) \<and>
     (\<forall>i < length (headers hl). heights hl (hash (headers hl ! i)) = Some i)"

text \<open>
  What the code relies on from the hash: no two of the headers at hand collide, and none of
  them hashes to the null hash.
\<close>

definition collision_free :: "(block_header \<Rightarrow> block_hash) \<Rightarrow> block_header set \<Rightarrow> bool" where
  "collision_free bh H \<longleftrightarrow> inj_on bh H \<and> all_zeros \<notin> bh ` H"

lemma collision_free_mono: "collision_free bh H \<Longrightarrow> K \<subseteq> H \<Longrightarrow> collision_free bh K"
  by (auto simp: collision_free_def intro: inj_on_subset)

lemma chain_tip_simps [simp]:
  "chain_tip [] = all_zeros"
  "hs \<noteq> [] \<Longrightarrow> chain_tip hs = hash (last hs)"
  "chain_tip (hs @ [e]) = hash e"
  by (simp_all add: chain_tip_def)

lemma chain_tip_take:
  "i \<le> length hs \<Longrightarrow> chain_tip (take i hs) = (if i = 0 then all_zeros else hash (hs ! (i - 1)))"
  by (cases i) (auto simp: chain_tip_def take_Suc_conv_app_nth)

lemma wf_headersD:
  assumes "wf_headers bh hs" and "i < length hs"
  shows "height (hs ! i) = i" and "hash (hs ! i) = bh (header (hs ! i))"
    and "prev_blockhash (header (hs ! i)) = (if i = 0 then all_zeros else hash (hs ! (i - 1)))"
  using assms chain_tip_take[of i hs] by (simp_all add: wf_headers_def)

lemma wf_headers_take: "wf_headers bh hs \<Longrightarrow> wf_headers bh (take n hs)"
  by (simp add: wf_headers_def min_absorb1)

lemma wf_headers_snoc:
  "wf_headers bh (hs @ [e]) \<longleftrightarrow>
     wf_headers bh hs \<and> height e = length hs \<and> hash e = bh (header e) \<and>
     prev_blockhash (header e) = chain_tip hs"
  by (auto simp: wf_headers_def nth_append less_Suc_eq)

lemma wf_headers_Nil [simp]: "wf_headers bh []"
  by (simp add: wf_headers_def)

text \<open>A chain from the null hash never repeats a hash, by collision freedom alone.\<close>

lemma chain_header_eq:
  assumes "wf_headers bh hs" and "collision_free bh (header ` set hs)"
    and "i < length hs" and "j < length hs" and "hash (hs ! i) = hash (hs ! j)"
  shows "header (hs ! i) = header (hs ! j)"
proof (rule inj_onD[of bh "header ` set hs"])
  show "inj_on bh (header ` set hs)" using assms(2) by (simp add: collision_free_def)
  show "bh (header (hs ! i)) = bh (header (hs ! j))"
    using assms by (simp add: wf_headersD(2)[symmetric])
qed (use assms in simp_all)

lemma chain_hash_nonnull:
  assumes "wf_headers bh hs" and "collision_free bh (header ` set hs)" and "i < length hs"
  shows "hash (hs ! i) \<noteq> all_zeros"
proof
  assume "hash (hs ! i) = all_zeros"
  then have "all_zeros = bh (header (hs ! i))"
    using wf_headersD(2)[OF assms(1,3)] by simp
  with assms(2,3) show False by (auto simp: collision_free_def)
qed

lemma chain_hash_neq:
  assumes wf: "wf_headers bh hs" and cf: "collision_free bh (header ` set hs)"
  shows "i < j \<Longrightarrow> j < length hs \<Longrightarrow> hash (hs ! i) \<noteq> hash (hs ! j)"
proof (induction i arbitrary: j)
  case 0
  show ?case
  proof
    assume "hash (hs ! 0) = hash (hs ! j)"
    then have "header (hs ! 0) = header (hs ! j)"
      using chain_header_eq[OF wf cf, of 0 j] 0 by force
    then have "hash (hs ! (j - 1)) = all_zeros"
      using wf_headersD(3)[OF wf, of 0] wf_headersD(3)[OF wf, of j] 0 by force
    then show False using chain_hash_nonnull[OF wf cf, of "j - 1"] 0 by force
  qed
next
  case (Suc i)
  show ?case
  proof
    assume "hash (hs ! Suc i) = hash (hs ! j)"
    then have "header (hs ! Suc i) = header (hs ! j)"
      using chain_header_eq[OF wf cf, of "Suc i" j] Suc.prems by simp
    then have "hash (hs ! i) = hash (hs ! (j - 1))"
      using wf_headersD(3)[OF wf, of "Suc i"] wf_headersD(3)[OF wf, of j] Suc.prems by simp
    moreover have "hash (hs ! i) \<noteq> hash (hs ! (j - 1))"
      by (rule Suc.IH) (use Suc.prems in simp_all)
    ultimately show False by simp
  qed
qed

lemma chain_distinct:
  assumes "wf_headers bh hs" and "collision_free bh (header ` set hs)"
  shows "distinct (map hash hs)"
  unfolding distinct_conv_nth
proof (intro allI impI)
  fix i j assume "i < length (map hash hs)" "j < length (map hash hs)" "i \<noteq> j"
  then show "map hash hs ! i \<noteq> map hash hs ! j"
    using chain_hash_neq[OF assms, of i j] chain_hash_neq[OF assms, of j i]
    by (cases "i < j") auto
qed

lemma wf_list_empty [simp]: "wf_list bh empty_list"
  by (simp add: wf_list_def empty_list_def)

lemma header_by_blockhash_iff:
  assumes "wf_list bh hl"
  shows "header_by_blockhash hl k = Some e \<longleftrightarrow> e \<in> set (headers hl) \<and> hash e = k"
proof
  assume "header_by_blockhash hl k = Some e"
  then show "e \<in> set (headers hl) \<and> hash e = k"
    by (auto simp: header_by_blockhash_def Let_def split: option.splits if_splits)
next
  assume "e \<in> set (headers hl) \<and> hash e = k"
  then obtain i where "i < length (headers hl)" "e = headers hl ! i" "hash e = k"
    by (auto simp: in_set_conv_nth)
  with assms show "header_by_blockhash hl k = Some e"
    by (auto simp: header_by_blockhash_def wf_list_def)
qed

lemma header_by_blockhash_nth:
  assumes "wf_list bh hl" and "header_by_blockhash hl k = Some e"
  shows "height e < length (headers hl)" and "headers hl ! height e = e" and "hash e = k"
proof -
  from assms obtain i where "i < length (headers hl)" "headers hl ! i = e" "hash e = k"
    by (auto simp: header_by_blockhash_iff[OF assms(1)] in_set_conv_nth)
  with assms(1) show "height e < length (headers hl)" "headers hl ! height e = e" "hash e = k"
    by (auto simp: wf_list_def dest: wf_headersD(1))
qed

subsection \<open>Order: what it accepts and what it returns\<close>

text \<open>
  The entries \<open>order\<close> hands to \<open>apply\<close>: consecutive, linked, hashed, attached to the null hash
  at height 0 or to a listed header at its height.
\<close>

definition linked_entries :: "header_entry list \<Rightarrow> bool" where
  "linked_entries es \<longleftrightarrow>
     successively (\<lambda>a b. height a + 1 = height b \<and> hash a = prev_blockhash (header b)) es"

definition hashed_entries :: "(block_header \<Rightarrow> block_hash) \<Rightarrow> header_entry list \<Rightarrow> bool" where
  "hashed_entries bh es \<longleftrightarrow> (\<forall>e \<in> set es. hash e = bh (header e))"

definition attaches :: "header_entry list \<Rightarrow> header_entry list \<Rightarrow> bool" where
  "attaches hs es \<longleftrightarrow>
     (case es of [] \<Rightarrow> True
      | e # _ \<Rightarrow> height e \<le> length hs \<and> prev_blockhash (header e) = chain_tip (take (height e) hs))"

lemma map_header_number_from [simp]: "map header (number_from n hhs) = map snd hhs"
  by (induction n hhs rule: number_from.induct) auto

lemma map_hash_number_from [simp]: "map hash (number_from n hhs) = map fst hhs"
  by (induction n hhs rule: number_from.induct) auto

lemma number_from_eq_Nil [simp]: "number_from n hhs = [] \<longleftrightarrow> hhs = []"
  by (cases hhs) auto

lemma hashed_number_from: "hashed_entries bh (number_from n (map (\<lambda>h. (bh h, h)) hs))"
  unfolding hashed_entries_def by (induction hs arbitrary: n) auto

lemma linked_number_from:
  "linked_entries (number_from n hhs) \<longleftrightarrow>
     successively (\<lambda>a b. prev_blockhash (snd b) = fst a) hhs"
proof (induction n hhs rule: number_from.induct)
  case (2 n bhash h rest)
  then show ?case
    by (cases rest) (auto simp: linked_entries_def)
qed (simp add: linked_entries_def)

lemma order_Ok:
  assumes "order bh hl hs = Ok es" and "wf_list bh hl"
  shows "map header es = hs" and "hashed_entries bh es" and "linked_entries es"
    and "attaches (headers hl) es"
proof -
  let ?hhs = "map (\<lambda>h. (bh h, h)) hs"
  have succ: "successively (\<lambda>a b. prev_blockhash (snd b) = fst a) ?hhs"
    using assms(1) by (auto simp: order_def Let_def split: if_splits)
  have "es = [] \<and> hs = [] \<or> (\<exists>n. es = number_from n ?hhs \<and> attaches (headers hl) es)"
  proof (cases hs)
    case Nil
    with assms(1) show ?thesis by (simp add: order_def)
  next
    case (Cons h rest)
    show ?thesis
    proof (cases "prev_blockhash h = all_zeros")
      case True
      with assms(1) Cons succ have "es = number_from 0 ?hhs"
        by (simp add: order_def Let_def)
      with Cons True show ?thesis by (auto simp: attaches_def)
    next
      case False
      with assms(1) Cons succ obtain e where e: "header_by_blockhash hl (prev_blockhash h) = Some e"
        and es: "es = number_from (height e + 1) ?hhs"
        by (auto simp: order_def Let_def split: option.splits)
      note nth = header_by_blockhash_nth[OF assms(2) e]
      then have "chain_tip (take (Suc (height e)) (headers hl)) = prev_blockhash h"
        by (simp add: chain_tip_take)
      with nth es Cons show ?thesis by (auto simp: attaches_def)
    qed
  qed
  then show "map header es = hs" "hashed_entries bh es" "linked_entries es"
    "attaches (headers hl) es"
    using succ by (auto simp: linked_number_from hashed_number_from comp_def)
       (auto simp: hashed_entries_def linked_entries_def attaches_def)
qed

subsection \<open>Apply\<close>

lemma push_headers_Ok:
  assumes "push_headers hl es = Ok hl'"
  shows "headers hl' = headers hl @ es"
    and "tip hl' = (if es = [] then tip hl else hash (last es))"
  using assms
  by (induction hl es rule: push_headers.induct) (auto split: if_splits)

lemma push_headers_total:
  assumes "linked_entries es" and "es \<noteq> [] \<Longrightarrow> height (hd es) = length (headers hl)"
  shows "is_ok (push_headers hl es)"
  using assms
proof (induction hl es rule: push_headers.induct)
  case (2 hl e es)
  then show ?case
    by (cases es) (auto simp: linked_entries_def)
qed simp

lemma wf_headers_append:
  assumes "wf_headers bh hs" and "linked_entries es" and "hashed_entries bh es"
    and "es \<noteq> [] \<Longrightarrow> height (hd es) = length hs \<and> prev_blockhash (header (hd es)) = chain_tip hs"
  shows "wf_headers bh (hs @ es)"
  using assms
proof (induction es arbitrary: hs)
  case (Cons e es)
  have "wf_headers bh ((hs @ [e]) @ es)"
  proof (rule Cons.IH)
    show "wf_headers bh (hs @ [e])"
      using Cons.prems by (simp add: wf_headers_snoc hashed_entries_def)
    show "linked_entries es" "hashed_entries bh es"
      using Cons.prems by (cases es; simp add: linked_entries_def hashed_entries_def)+
    show "es \<noteq> [] \<Longrightarrow> height (hd es) = length (hs @ [e]) \<and>
        prev_blockhash (header (hd es)) = chain_tip (hs @ [e])"
      using Cons.prems by (cases es) (auto simp: linked_entries_def)
  qed
  then show ?case by simp
qed simp

lemma push_headers_heights:
  assumes "push_headers hl es = Ok hl'"
    and "distinct (map hash (headers hl @ es))"
    and "\<forall>i < length (headers hl). heights hl (hash (headers hl ! i)) = Some i"
  shows "\<forall>i < length (headers hl'). heights hl' (hash (headers hl' ! i)) = Some i"
  using assms
proof (induction hl es rule: push_headers.induct)
  case (2 hl e es)
  let ?hl = "\<lparr>headers = headers hl @ [e], heights = (heights hl)(hash e \<mapsto> height e), tip = hash e\<rparr>"
  have push: "height e = length (headers hl)" "push_headers ?hl es = Ok hl'"
    using "2.prems"(1) by (auto split: if_splits)
  have "hash e \<notin> hash ` set (headers hl)"
    using "2.prems"(2) by auto
  then have "\<forall>i < length (headers hl). hash (headers hl ! i) \<noteq> hash e"
    by (metis image_eqI nth_mem)
  with "2.prems"(3) push(1)
  have "\<forall>i < length (headers ?hl). heights ?hl (hash (headers ?hl ! i)) = Some i"
    by (auto simp: nth_append less_Suc_eq)
  then show ?case
    using "2.IH" push "2.prems"(2) by simp
qed simp

lemma apply_headers_cases:
  assumes "apply_headers hl es = Ok hl'"
  obtains (unchanged) "hl' = hl"
  | (extended) "es \<noteq> []" "linked_entries es" "attaches (headers hl) es"
      "push_headers (hl\<lparr>headers := take (height (hd es)) (headers hl)\<rparr>) es =
         Ok hl'"
proof (cases es)
  case Nil
  with assms show ?thesis by (auto simp: apply_headers_def intro: unchanged)
next
  case (Cons e rest)
  show ?thesis
  proof (cases "hl' = hl")
    case False
    with assms Cons show ?thesis
      by (intro extended)
        (auto simp: apply_headers_def Let_def linked_entries_def attaches_def chain_tip_take
           and_then_Ok_iff split: if_splits)
  qed (rule unchanged)
qed

lemma apply_headers_attached:
  assumes "es \<noteq> []" and "linked_entries es" and "attaches (headers hl) es"
  shows "\<exists>hl'. apply_headers hl es = Ok hl' \<and>
      headers hl' = take (height (hd es)) (headers hl) @ es \<and> tip hl' = hash (last es)"
proof -
  let ?kept = "hl\<lparr>headers := take (height (hd es)) (headers hl)\<rparr>"
  obtain e rest where es: "es = e # rest" using assms(1) by (cases es) auto
  have "is_ok (push_headers ?kept es)"
    by (rule push_headers_total) (use assms es in \<open>auto simp: attaches_def\<close>)
  then obtain hl' where hl': "push_headers ?kept es = Ok hl'"
    by (auto simp: is_ok_iff)
  have "apply_headers hl es = (push_headers ?kept es)"
    using assms es
    by (auto simp: apply_headers_def Let_def linked_entries_def attaches_def chain_tip_take)
  with hl' push_headers_Ok[OF hl'] assms(1) show ?thesis by auto
qed

lemma wf_list_apply:
  assumes wf: "wf_list bh hl" and hashed: "hashed_entries bh es"
    and cf: "collision_free bh (header ` set (headers hl @ es))"
    and ok: "apply_headers hl es = Ok hl'"
  shows "wf_list bh hl'"
proof (rule apply_headers_cases[OF ok])
  assume "hl' = hl"
  with wf show ?thesis by simp
next
  assume extended: "es \<noteq> []" "linked_entries es" "attaches (headers hl) es"
    "push_headers (hl\<lparr>headers := take (height (hd es)) (headers hl)\<rparr>) es = Ok hl'"
  let ?h = "height (hd es)"
  let ?kept = "hl\<lparr>headers := take ?h (headers hl)\<rparr>"
  note out = push_headers_Ok[OF extended(4)]
  have len: "?h = length (headers ?kept)"
    and prev: "prev_blockhash (header (hd es)) = chain_tip (headers ?kept)"
    using extended(1,3) by (cases es; simp add: attaches_def)+
  have chain: "wf_headers bh (headers ?kept @ es)"
    by (rule wf_headers_append)
      (use wf hashed extended(2) len prev in \<open>auto simp: wf_list_def wf_headers_take\<close>)
  have "collision_free bh (header ` set (headers ?kept @ es))"
    by (rule collision_free_mono[OF cf]) (auto dest: in_set_takeD)
  with chain have "distinct (map hash (headers ?kept @ es))"
    by (rule chain_distinct)
  moreover have "\<forall>i < length (headers ?kept). heights ?kept (hash (headers ?kept ! i)) = Some i"
    using wf by (simp add: wf_list_def)
  ultimately have "\<forall>i < length (headers hl'). heights hl' (hash (headers hl' ! i)) = Some i"
    by (rule push_headers_heights[OF extended(4)])
  with chain out extended(1) show ?thesis by (simp add: wf_list_def)
qed

subsection \<open>Rebuilding the list from a map\<close>

text \<open>The map holds every header of the chain under its hash.\<close>

definition map_covers :: "(block_hash \<times> block_header) list \<Rightarrow> header_entry list \<Rightarrow> bool" where
  "map_covers m hs \<longleftrightarrow> (\<forall>e \<in> set hs. map_of m (hash e) = Some (header e))"

lemma map_of_filter_neq:
  "k \<noteq> b \<Longrightarrow> map_of (filter (\<lambda>kv. fst kv \<noteq> b) m) k = map_of m k"
  by (induction m) auto

lemma walk_back_chain:
  assumes "wf_headers bh hs" and "collision_free bh (header ` set hs)" and "map_covers m hs"
  shows "walk_back m (chain_tip hs) chain =
    (Ok (chain @ rev (map header hs)))"
  using assms
proof (induction hs arbitrary: m chain rule: rev_induct)
  case Nil
  then show ?case by (simp add: walk_back.simps)
next
  case (snoc e hs)
  note dist = chain_distinct[OF snoc.prems(1,2)]
  have e: "hash e \<noteq> all_zeros" "prev_blockhash (header e) = chain_tip hs"
    using chain_hash_nonnull[OF snoc.prems(1,2), of "length hs"] snoc.prems(1)
    by (simp_all add: wf_headers_snoc)
  have "walk_back (filter (\<lambda>kv. fst kv \<noteq> hash e) m) (chain_tip hs) (chain @ [header e]) =
      (Ok ((chain @ [header e]) @ rev (map header hs)))"
  proof (rule snoc.IH)
    show "wf_headers bh hs" using snoc.prems(1) by (simp add: wf_headers_snoc)
    show "collision_free bh (header ` set hs)"
      by (rule collision_free_mono[OF snoc.prems(2)]) auto
    show "map_covers (filter (\<lambda>kv. fst kv \<noteq> hash e) m) hs"
      unfolding map_covers_def
    proof
      fix x assume x: "x \<in> set hs"
      with dist have "hash x \<noteq> hash e" by (metis distinct_append disjoint_iff list.set_intros(1)
            image_eqI list.set_map map_append list.simps(9))
      with x snoc.prems(3)
      show "map_of (filter (\<lambda>kv. fst kv \<noteq> hash e) m) (hash x) = Some (header x)"
        by (simp add: map_of_filter_neq map_covers_def)
    qed
  qed
  with e snoc.prems(3) show ?case
    by (subst walk_back.simps) (simp add: map_covers_def)
qed

lemma number_from_id:
  assumes "\<forall>i < length xs. height (xs ! i) = n + i"
  shows "number_from n (map (\<lambda>e. (hash e, header e)) xs) = xs"
  using assms
proof (induction xs arbitrary: n)
  case (Cons x xs)
  have "number_from (Suc n) (map (\<lambda>e. (hash e, header e)) xs) = xs"
    by (rule Cons.IH) (use Cons.prems in \<open>force\<close>)
  with Cons.prems show ?case by force
qed simp

text \<open>\<open>order\<close> accepts every suffix of a chain whose prefix is listed, and returns its entries.\<close>

lemma order_suffix:
  assumes gs: "wf_list bh hl" and hs: "wf_headers bh hs" and k: "k \<le> length (headers hl)"
    and common: "take k hs = take k (headers hl)" and nn: "k > 0 \<Longrightarrow> hash (hs ! (k - 1)) \<noteq> all_zeros"
  shows "order bh hl (map header (drop k hs)) = Ok (drop k hs)"
proof (cases "k < length hs")
  case True
  let ?es = "drop k hs"
  have hh: "map (\<lambda>h. (bh h, h)) (map header ?es) = map (\<lambda>e. (hash e, header e)) ?es"
    using hs by (auto simp: wf_headers_def in_set_conv_nth)
  have succ: "successively (\<lambda>a b. prev_blockhash (snd b) = fst a) (map (\<lambda>e. (hash e, header e)) ?es)"
    unfolding successively_map successively_conv_nth
    using hs by (auto simp: wf_headersD(3))
  have num: "number_from k (map (\<lambda>e. (hash e, header e)) ?es) = ?es"
    by (rule number_from_id) (use hs in \<open>simp add: wf_headers_def\<close>)
  have ne: "?es = hs ! k # drop (Suc k) hs"
    using True by (simp add: Cons_nth_drop_Suc)
  have prev: "prev_blockhash (header (hs ! k)) = (if k = 0 then all_zeros else hash (hs ! (k - 1)))"
    using wf_headersD(3)[OF hs True] .
  show ?thesis
  proof (cases "k = 0")
    case True
    with succ num ne prev \<open>k < length hs\<close> show ?thesis
      unfolding order_def hh Let_def by (cases hs) simp_all
  next
    case False
    have same: "headers hl ! (k - 1) = hs ! (k - 1)"
      using common False by (metis One_nat_def diff_less gr0I lessI nth_take zero_less_one)
    have "header_by_blockhash hl (hash (hs ! (k - 1))) = Some (hs ! (k - 1))"
      unfolding header_by_blockhash_iff[OF gs] same[symmetric]
      using False k by simp
    moreover have "height (hs ! (k - 1)) + 1 = k"
      using wf_headersD(1)[OF hs, of "k - 1"] True False by simp
    ultimately show ?thesis
      using False succ num ne prev nn unfolding order_def hh Let_def by simp
  qed
next
  case False
  then show ?thesis by (simp add: order_def)
qed

text \<open>Two chains that share a hash share everything below it.\<close>

lemma common_prefix:
  assumes hs: "wf_headers bh hs" and gs: "wf_headers bh gs"
    and cf: "collision_free bh (header ` (set hs \<union> set gs))"
  shows "i < length hs \<Longrightarrow> j < length gs \<Longrightarrow> hash (hs ! i) = hash (gs ! j) \<Longrightarrow>
     i = j \<and> take (Suc i) hs = take (Suc i) gs"
proof (induction i arbitrary: j)
  case 0
  have eq: "header (hs ! 0) = header (gs ! j)"
    using 0 hs gs cf by (auto simp: collision_free_def wf_headersD(2) intro: inj_onD)
  have "j = 0"
  proof (rule ccontr)
    assume "j \<noteq> 0"
    then have "hash (gs ! (j - 1)) = all_zeros"
      using eq 0 wf_headersD(3)[OF hs, of 0] wf_headersD(3)[OF gs, of j] by force
    moreover have "collision_free bh (header ` set gs)"
      by (rule collision_free_mono[OF cf]) auto
    ultimately show False
      using chain_hash_nonnull[OF gs _, of "j - 1"] 0 by (simp add: less_imp_diff_less)
  qed
  moreover have "hs ! 0 = gs ! 0"
    using eq 0 \<open>j = 0\<close> hs gs by (auto intro!: header_entry.equality simp: wf_headersD(1))
  ultimately show ?case using 0 by (auto simp: take_Suc_conv_app_nth)
next
  case (Suc i)
  have eq: "header (hs ! Suc i) = header (gs ! j)"
    using Suc.prems hs gs cf by (auto simp: collision_free_def wf_headersD(2) intro: inj_onD)
  have "j \<noteq> 0"
  proof
    assume "j = 0"
    then have "hash (hs ! i) = all_zeros"
      using eq Suc.prems wf_headersD(3)[OF hs, of "Suc i"] wf_headersD(3)[OF gs, of j] by force
    moreover have "collision_free bh (header ` set hs)"
      by (rule collision_free_mono[OF cf]) auto
    ultimately show False
      using chain_hash_nonnull[OF hs _, of i] Suc.prems by auto
  qed
  then have "hash (hs ! i) = hash (gs ! (j - 1))"
    using eq Suc.prems wf_headersD(3)[OF hs, of "Suc i"] wf_headersD(3)[OF gs, of j] by force
  moreover have "i < length hs" "j - 1 < length gs"
    using Suc.prems by simp_all
  ultimately have ij: "i = j - 1" "take (Suc i) hs = take (Suc i) gs"
    using Suc.IH[of "j - 1"] by blast+
  with \<open>j \<noteq> 0\<close> have "j = Suc i" by simp
  moreover have "hs ! Suc i = gs ! j"
    using eq Suc.prems \<open>j = Suc i\<close> hs gs
    by (auto intro!: header_entry.equality simp: wf_headersD(1))
  ultimately show ?case
    using ij Suc.prems by (auto simp: take_Suc_conv_app_nth)
qed

text \<open>The fork point of a chain and a list: the longest shared prefix.\<close>

definition fork_point :: "header_entry list \<Rightarrow> header_entry list \<Rightarrow> nat" where
  "fork_point hs gs = Max {k. k \<le> length hs \<and> k \<le> length gs \<and> take k hs = take k gs}"

lemma fork_point:
  shows "fork_point hs gs \<le> length hs" and "fork_point hs gs \<le> length gs"
    and "take (fork_point hs gs) hs = take (fork_point hs gs) gs"
    and "k \<le> length hs \<Longrightarrow> k \<le> length gs \<Longrightarrow> take k hs = take k gs \<Longrightarrow> k \<le> fork_point hs gs"
proof -
  let ?K = "{k. k \<le> length hs \<and> k \<le> length gs \<and> take k hs = take k gs}"
  have fin: "finite ?K" by (rule finite_subset[of _ "{..length hs}"]) auto
  moreover have "0 \<in> ?K" by simp
  ultimately have "fork_point hs gs \<in> ?K"
    unfolding fork_point_def by (intro Max_in) blast+
  then show "fork_point hs gs \<le> length hs" "fork_point hs gs \<le> length gs"
    "take (fork_point hs gs) hs = take (fork_point hs gs) gs" by auto
  show "k \<le> length hs \<Longrightarrow> k \<le> length gs \<Longrightarrow> take k hs = take k gs \<Longrightarrow> k \<le> fork_point hs gs"
    unfolding fork_point_def using fin by (intro Max_ge) auto
qed

lemma unknown_above_fork:
  assumes hs: "wf_headers bh hs" and gs: "wf_list bh hl"
    and cf: "collision_free bh (header ` (set hs \<union> set (headers hl)))"
    and i: "fork_point hs (headers hl) \<le> i" "i < length hs"
  shows "header_by_blockhash hl (hash (hs ! i)) = None"
proof (rule ccontr)
  assume "\<not> ?thesis"
  then obtain e where "header_by_blockhash hl (hash (hs ! i)) = Some e" by auto
  then obtain j where j: "j < length (headers hl)" "hash (hs ! i) = hash (headers hl ! j)"
    by (auto simp: header_by_blockhash_iff[OF gs] in_set_conv_nth)
  have "i = j \<and> take (Suc i) hs = take (Suc i) (headers hl)"
    by (rule common_prefix[OF hs _ cf i(2) j]) (use gs in \<open>simp add: wf_list_def\<close>)
  then have "Suc i \<le> fork_point hs (headers hl)"
    using i(2) j(1) by (intro fork_point(4)) auto
  with i(1) show False by simp
qed

lemma order_empty_chain:
  assumes "wf_headers bh hs"
  shows "order bh empty_list (map header hs) = Ok hs"
proof -
  have hh: "map (\<lambda>h. (bh h, h)) (map header hs) = map (\<lambda>e. (hash e, header e)) hs"
    using assms by (auto simp: wf_headers_def in_set_conv_nth)
  have num: "number_from n (map (\<lambda>e. (hash e, header e)) xs) = xs"
    if "\<forall>i < length xs. height (xs ! i) = n + i" for n and xs :: "header_entry list"
    using that
  proof (induction xs arbitrary: n)
    case (Cons x xs)
    have "number_from (Suc n) (map (\<lambda>e. (hash e, header e)) xs) = xs"
      by (rule Cons.IH) (use Cons.prems in \<open>force\<close>)
    with Cons.prems show ?case by force
  qed simp
  have succ: "successively (\<lambda>a b. prev_blockhash (snd b) = fst a) (map (\<lambda>e. (hash e, header e)) hs)"
    unfolding successively_map successively_conv_nth
    using assms by (auto simp: wf_headersD(3))
  have zero: "hs \<noteq> [] \<Longrightarrow> prev_blockhash (header (hs ! 0)) = all_zeros"
    using wf_headersD(3)[OF assms, of 0] by simp
  have "number_from 0 (map (\<lambda>e. (hash e, header e)) hs) = hs"
    by (rule num) (use assms in \<open>simp add: wf_headers_def\<close>)
  with succ zero show ?thesis
    unfolding order_def hh Let_def by (cases hs) auto
qed

lemma new_list_chain:
  assumes "wf_headers bh hs" and "collision_free bh (header ` set hs)" and "map_covers m hs"
  shows "\<exists>hl. new_list bh m (chain_tip hs) = Ok hl \<and> headers hl = hs \<and> wf_list bh hl"
proof (cases "hs = []")
  case True
  then show ?thesis
    by (auto simp: new_list_def walk_back.simps order_def apply_headers_def
        intro: exI[of _ empty_list]) (simp add: empty_list_def)
next
  case False
  have es: "linked_entries hs" "hashed_entries bh hs" "attaches (headers empty_list) hs"
    using order_Ok[OF order_empty_chain[OF assms(1)] wf_list_empty] by simp_all
  obtain hl where hl: "apply_headers empty_list hs = Ok hl" "headers hl = hs"
    using apply_headers_attached[OF False es(1,3)] by (auto simp: empty_list_def)
  have "wf_list bh hl"
    by (rule wf_list_apply[OF wf_list_empty es(2) _ hl(1)]) (use assms in \<open>simp add: empty_list_def\<close>)
  with hl show ?thesis
    by (auto simp: new_list_def walk_back_chain[OF assms] order_empty_chain[OF assms(1)] rev_map)
qed

lemma walk_back_Ok:
  assumes "walk_back m t chain = Ok c"
  shows "\<exists>seg. c = chain @ seg \<and> set seg \<subseteq> snd ` set m \<and>
      (if t = all_zeros then seg = [] else seg \<noteq> [] \<and> (t, hd seg) \<in> set m)"
  using assms
proof (induction m t chain rule: walk_back.induct)
  case (1 m t chain)
  show ?case
  proof (cases "t = all_zeros")
    case True
    with "1.prems" show ?thesis by (simp add: walk_back.simps[of m all_zeros])
  next
    case False
    then obtain h where h: "map_of m t = Some h"
      using "1.prems" by (auto simp: walk_back.simps[of m t] split: option.splits)
    let ?m = "filter (\<lambda>kv. fst kv \<noteq> t) m"
    have "walk_back ?m (prev_blockhash h) (chain @ [h]) = Ok c"
      using "1.prems" False h by (simp add: walk_back.simps[of m t])
    from "1.IH"[OF False h this] obtain seg where
      "c = (chain @ [h]) @ seg" "set seg \<subseteq> snd ` set ?m" by metis
    moreover have "(t, h) \<in> set m" using h by (rule map_of_SomeD)
    ultimately show ?thesis
      using False by (intro exI[of _ "h # seg"]) (auto intro: rev_image_eqI)
  qed
qed

subsection \<open>Concrete headers\<close>

text \<open>
  A hash that reads the nonce, and headers built from their parent's hash and their own:
  concrete inputs for the theorems that are conditional on collision freedom.
\<close>

definition sample_bh :: "block_header \<Rightarrow> block_hash" where
  "sample_bh h = ucast (nonce h)"

definition sample_header :: "block_hash \<Rightarrow> u32 \<Rightarrow> u32 \<Rightarrow> block_header" where
  "sample_header prev n t =
     \<lparr>version = 1, prev_blockhash = prev, merkle_root = 7, time = t, bits = 0, nonce = n\<rparr>"

definition sample_entry :: "nat \<Rightarrow> block_hash \<Rightarrow> u32 \<Rightarrow> u32 \<Rightarrow> header_entry" where
  "sample_entry i prev n t =
     \<lparr>height = i, hash = sample_bh (sample_header prev n t), header = sample_header prev n t\<rparr>"

text \<open>A main chain of three headers.\<close>

definition sample_list :: header_list where
  "sample_list =
     \<lparr>headers = [sample_entry 0 0 1 10, sample_entry 1 1 2 30, sample_entry 2 2 3 20],
      heights = [1 \<mapsto> 0, 2 \<mapsto> 1, 3 \<mapsto> 2], tip = 3\<rparr>"

lemmas sample_defs = sample_bh_def sample_header_def sample_entry_def sample_list_def all_zeros_def

lemma wf_sample_list: "wf_list sample_bh sample_list"
proof -
  have all3: "(\<forall>i < Suc (Suc (Suc 0)). P i) \<longleftrightarrow> P 0 \<and> P (Suc 0) \<and> P (Suc (Suc 0))" for P
    by (auto simp: less_Suc_eq)
  show ?thesis
    by (simp add: wf_list_def wf_headers_def sample_defs all3)
qed

subsection \<open>Properties\<close>

text \<open>
  C6: \<open>order\<close> and \<open>apply\<close> fit together. When \<open>order\<close> accepts a non-empty run of new headers
  (one that attaches to a listed header, or starts at the null hash), \<open>apply\<close> on its entries
  neither panics nor ignores them: the list becomes the old headers below the attachment point
  followed by the new ones, its tip is the hash of the last new header, and the list is
  well formed again. This is the reorganisation step of the sync.
\<close>

theorem order_then_apply:
  assumes "wf_list bh hl" and "order bh hl new = Ok es" and "new \<noteq> []"
    and "collision_free bh (header ` set (headers hl) \<union> set new)"
  shows "\<exists>hl' k. apply_headers hl es = Ok hl' \<and> wf_list bh hl' \<and>
      k \<le> length (headers hl) \<and> map header (headers hl') = take k (map header (headers hl)) @ new \<and>
      tip hl' = bh (last new)"
proof -
  note es = order_Ok[OF assms(2,1)]
  have ne: "es \<noteq> []" using es(1) assms(3) by auto
  obtain hl' where hl': "apply_headers hl es = Ok hl'"
      "headers hl' = take (height (hd es)) (headers hl) @ es" "tip hl' = hash (last es)"
    using apply_headers_attached[OF ne es(3,4)] by blast
  have "wf_list bh hl'"
    by (rule wf_list_apply[OF assms(1) es(2) _ hl'(1)])
      (use assms(4) es(1) in \<open>auto simp: image_Un simp flip: set_map\<close>)
  moreover have "height (hd es) \<le> length (headers hl)"
    using es(4) ne by (cases es) (auto simp: attaches_def)
  moreover have "hash (last es) = bh (last new)"
    using es(1,2) ne by (auto simp: hashed_entries_def last_map simp flip: es(1))
  ultimately show ?thesis
    using hl' es(1) by (intro exI[of _ hl'] exI[of _ "height (hd es)"]) (simp add: take_map)
qed

theorem order_then_apply_witness:
  "\<exists>es hl' k. order sample_bh sample_list [sample_header 1 5 40, sample_header 5 6 50] = Ok es \<and>
     apply_headers sample_list es = Ok hl' \<and> wf_list sample_bh hl' \<and>
     k \<le> length (headers sample_list) \<and>
     map header (headers hl') = take k (map header (headers sample_list)) @
       [sample_header 1 5 40, sample_header 5 6 50] \<and>
     tip hl' = sample_bh (sample_header 5 6 50)"
proof -
  let ?new = "[sample_header 1 5 40, sample_header 5 6 50]"
  have ord: "order sample_bh sample_list ?new =
      Ok [sample_entry 1 1 5 40, sample_entry 2 5 6 50]"
    by (simp add: order_def sample_defs header_by_blockhash_def Let_def)
  have cf: "collision_free sample_bh (header ` set (headers sample_list) \<union> set ?new)"
    by (auto simp: collision_free_def inj_on_def sample_defs)
  show ?thesis
    using order_then_apply[OF wf_sample_list ord _ cf] ord by auto
qed

text \<open>
  C22: \<open>apply\<close> keeps the list well formed whatever entries it is given (consecutive or not,
  attached or not), as long as they carry the hash of their header and no hash collides: it
  panics, or leaves the list as it is, or replaces the headers from the attachment point on.
\<close>

theorem apply_preserves_wf:
  assumes "wf_list bh hl" and "hashed_entries bh es"
    and "collision_free bh (header ` set (headers hl @ es))"
  shows "case apply_headers hl es of
      Ok hl' \<Rightarrow> wf_list bh hl' \<and>
        (hl' = hl \<or> (\<exists>k \<le> length (headers hl). headers hl' = take k (headers hl) @ es))
    | Err _ \<Rightarrow> False
    | Panic p \<Rightarrow> p \<in> {AssertFailed, IndexOutOfBounds}"
proof (cases "apply_headers hl es :: header_list panicky")
  case (Ok hl')
  have "hl' = hl \<or> (\<exists>k \<le> length (headers hl). headers hl' = take k (headers hl) @ es)"
  proof (rule apply_headers_cases[OF Ok])
    assume x: "es \<noteq> []" "attaches (headers hl) es"
      "push_headers (hl\<lparr>headers := take (height (hd es)) (headers hl)\<rparr>) es =
         (Ok hl' :: header_list panicky)"
    then have "height (hd es) \<le> length (headers hl)"
      by (cases es) (auto simp: attaches_def)
    then show ?thesis using push_headers_Ok(1)[OF x(3)] by auto
  qed simp
  with Ok wf_list_apply[OF assms Ok] show ?thesis by simp
next
  case (Err e)
  have "push_headers l xs \<noteq> Err e" for l xs
    by (induction l xs rule: push_headers.induct) auto
  with Err show ?thesis
    by (auto simp: apply_headers_def Let_def outcome_simps split: if_splits list.splits)
next
  case (Panic p)
  have "push_headers l xs = Panic q \<Longrightarrow> q = AssertFailed"
    for q l xs
    by (induction l xs rule: push_headers.induct) (auto split: if_splits)
  with Panic show ?thesis
    by (auto simp: apply_headers_def Let_def outcome_simps split: if_splits list.splits)
qed

theorem apply_preserves_wf_witness:
  "case apply_headers sample_list [sample_entry 3 3 4 40] of
      Ok hl' \<Rightarrow> wf_list sample_bh hl' \<and>
        (hl' = sample_list \<or>
          (\<exists>k \<le> length (headers sample_list).
             headers hl' = take k (headers sample_list) @ [sample_entry 3 3 4 40]))
    | Err _ \<Rightarrow> False
    | Panic p \<Rightarrow> p \<in> {AssertFailed, IndexOutOfBounds}"
proof (rule apply_preserves_wf[OF wf_sample_list])
  show "hashed_entries sample_bh [sample_entry 3 3 4 40]"
    by (simp add: hashed_entries_def sample_defs)
  show "collision_free sample_bh (header ` set (headers sample_list @ [sample_entry 3 3 4 40]))"
    by (auto simp: collision_free_def inj_on_def sample_defs)
qed

text \<open>
  rebuilding from the database is faithful. From a map that holds the headers of a
  well-formed chain under their hashes (and any orphans besides), \<open>new\<close> called with the
  chain's tip returns a well-formed list with exactly that chain; it does not panic.
\<close>

theorem new_list_rebuilds_chain:
  assumes "wf_headers bh hs" and "collision_free bh (header ` set hs)" and "map_covers m hs"
  shows "\<exists>hl. new_list bh m (chain_tip hs) = Ok hl \<and> headers hl = hs \<and> wf_list bh hl"
  using assms by (rule new_list_chain)

theorem new_list_rebuilds_chain_witness:
  "\<exists>hl. new_list sample_bh
       [(5, sample_header 9 5 0), (3, sample_header 2 3 20), (1, sample_header 0 1 10),
        (2, sample_header 1 2 30)] (chain_tip (headers sample_list)) = Ok hl \<and>
     headers hl = headers sample_list \<and> wf_list sample_bh hl"
proof (rule new_list_rebuilds_chain)
  show "wf_headers sample_bh (headers sample_list)"
    using wf_sample_list by (simp add: wf_list_def)
  show "collision_free sample_bh (header ` set (headers sample_list))"
    by (auto simp: collision_free_def inj_on_def sample_defs)
  show "map_covers [(5, sample_header 9 5 0), (3, sample_header 2 3 20), (1, sample_header 0 1 10),
        (2, sample_header 1 2 30)] (headers sample_list)"
    by (simp add: map_covers_def sample_defs)
qed

text \<open>
  whatever \<open>new\<close> returns is sound. If every header of the map is stored under its own
  hash, a list that \<open>new\<close> returns is well formed and its tip is the tip it was asked for.
\<close>

theorem new_list_sound:
  assumes "\<forall>(k, h) \<in> set m. k = bh h" and "collision_free bh (snd ` set m)"
    and "new_list bh m t = Ok hl"
  shows "wf_list bh hl \<and> tip hl = t"
proof -
  obtain seg es where seg: "walk_back m t [] = Ok seg"
    and es: "order bh empty_list (rev seg) = Ok es" "apply_headers empty_list es = Ok hl"
    using assms(3) by (auto simp: new_list_def and_then_Ok_iff)
  show ?thesis
  proof (cases "t = all_zeros")
    case True
    with walk_back_Ok[OF seg] have "seg = []" by simp
    with es True show ?thesis
      using wf_list_empty by (auto simp: order_def apply_headers_def) (simp add: empty_list_def)
  next
    case False
    with walk_back_Ok[OF seg] have ne: "seg \<noteq> []" and "set seg \<subseteq> snd ` set m"
      and hd: "bh (hd seg) = t" using assms(1) by auto
    then have "collision_free bh (header ` set (headers empty_list) \<union> set (rev seg))"
      using assms(2) by (auto simp: empty_list_def intro: collision_free_mono)
    from order_then_apply[OF wf_list_empty es(1) _ this] es(2) ne hd show ?thesis
      by (auto simp: last_rev)
  qed
qed

theorem new_list_sound_witness:
  "\<exists>hl. new_list sample_bh [(2, sample_header 1 2 30), (1, sample_header 0 1 10)] 2 = Ok hl \<and>
     wf_list sample_bh hl \<and> tip hl = 2"
proof -
  let ?m = "[(2, sample_header 1 2 30), (1, sample_header 0 1 10)]"
  have "\<exists>hl. new_list sample_bh ?m 2 = Ok hl"
    by (simp add: new_list_def walk_back.simps order_def apply_headers_def sample_defs Let_def
        empty_list_def)
  then obtain hl where hl: "new_list sample_bh ?m 2 = Ok hl" by blast
  have "wf_list sample_bh hl \<and> tip hl = 2"
    by (rule new_list_sound[OF _ _ hl])
      (auto simp: collision_free_def inj_on_def sample_defs)
  with hl show ?thesis by blast
qed

text \<open>
  the lookup by hash is exact on a well-formed list, stale entries of the height index
  notwithstanding: it finds an entry if and only if the entry is on the current chain under
  that hash, at the position its height says.
\<close>

theorem header_by_blockhash_exact:
  assumes "wf_list bh hl"
  shows "(header_by_blockhash hl k = Some e) =
      (height e < length (headers hl) \<and> headers hl ! height e = e \<and> hash e = k)"
  using header_by_blockhash_nth[OF assms] header_by_blockhash_iff[OF assms]
  by (metis nth_mem)

theorem header_by_blockhash_exact_witness:
  "header_by_blockhash (sample_list\<lparr>heights := (heights sample_list)(9 \<mapsto> 1)\<rparr>) 2 =
     Some (sample_entry 1 1 2 30)"
proof -
  have "wf_list sample_bh (sample_list\<lparr>heights := (heights sample_list)(9 \<mapsto> 1)\<rparr>)"
    using wf_sample_list by (auto simp: wf_list_def sample_defs less_Suc_eq)
  from header_by_blockhash_exact[OF this, of 2 "sample_entry 1 1 2 30"] show ?thesis
    by (simp add: sample_defs)
qed

text \<open>
  \<open>get_mtp\<close> is the median of the times of the last eleven headers up to the given height
  (fewer near the start): a time of the window with at most half of the window below it and
  fewer than half above it.
\<close>

theorem get_mtp_median:
  assumes "h < length (headers hl)"
  shows "\<exists>t window. get_mtp hl h = Ok t \<and>
      window = map (\<lambda>e. time (header e)) (drop (h - 10) (take (Suc h) (headers hl))) \<and>
      length window = min 11 (Suc h) \<and> t \<in> set window \<and>
      length (filter (\<lambda>u. u < t) window) \<le> length window div 2 \<and>
      length (filter (\<lambda>u. t < u) window) \<le> (length window - 1) div 2"
proof -
  define ts where "ts = map (\<lambda>p. time (header (headers hl ! p))) [h - 10 ..< Suc h]"
  let ?w = "map (\<lambda>e. time (header e)) (drop (h - 10) (take (Suc h) (headers hl)))"
  let ?k = "length ts div 2"
  have w: "?w = ts"
  proof (rule nth_equalityI)
    show "length ?w = length ts" using assms by (simp add: ts_def min_absorb2 Suc_le_eq del: upt_Suc)
    fix i assume "i < length ?w"
    with assms have "h - 10 + i < Suc h" by simp
    moreover have "i < length (drop (h - 10) (take (Suc h) (headers hl)))"
      using \<open>i < length ?w\<close> by simp
    ultimately show "?w ! i = ts ! i"
      using assms by (simp add: ts_def nth_upt nth_drop del: upt_Suc)
  qed
  have len: "length ts = min 11 (Suc h)" by (auto simp: ts_def min_def)
  then have k: "?k < length (sort ts)" by auto
  have mset: "length (filter P (sort ts)) = length (filter P ts)" for P
    by (metis mset_filter mset_sort size_mset)
  have "get_mtp hl h = Ok (sort ts ! ?k)"
  proof (cases "h = 0")
    case True
    with assms have "ts = [time (header (headers hl ! 0))]" "headers hl \<noteq> []"
      by (auto simp: ts_def)
    with True show ?thesis by (cases "headers hl") (auto simp: get_mtp_def)
  next
    case False
    with assms show ?thesis
      by (auto simp: get_mtp_def ts_def MTP_SPAN_def Let_def simp del: upt_Suc)
  qed
  moreover have "sort ts ! ?k \<in> set ts"
    using nth_mem[OF k] by simp
  moreover have "length (filter (\<lambda>u. u < sort ts ! ?k) ts) \<le> ?k"
    using sorted_filter_less[OF sorted_sort k] by (simp add: mset)
  moreover have "length (filter (\<lambda>u. sort ts ! ?k < u) ts) \<le> (length ts - 1) div 2"
    using sorted_filter_greater[OF sorted_sort k] by (simp add: mset)
  ultimately show ?thesis using w len by auto
qed

theorem get_mtp_median_witness:
  "(2::nat) < length (headers sample_list) \<and> get_mtp sample_list 2 = Ok 20"
proof -
  have h: "2 < length (headers sample_list)" by (simp add: sample_defs)
  obtain t where t: "get_mtp sample_list 2 = Ok t" using get_mtp_median[OF h] by blast
  moreover have "get_mtp sample_list 2 = Ok 20"
    by (simp add: get_mtp_def MTP_SPAN_def sample_defs Let_def upt_rec)
  ultimately show ?thesis using h by simp
qed

end
