(* ===== verification/Externals.thy ===== *)
theory Externals
  imports Header_Chain
begin

text \<open>
  The crates the program calls and whose source is not in the repository, as records of
  functions that the model's definitions take as arguments: \<open>serde_json\<close> values, the
  \<open>bitcoin\<close> codec, \<open>hex\<close>, \<open>base64\<close> and the HTTP client. Nothing is assumed of them here; what
  a property needs is a named hypothesis of its theorem. The last section has concrete
  instances for the witnesses.
\<close>

subsection \<open>JSON values\<close>

text \<open>The \<open>serde_json::Value\<close> accessors and constructors the source uses.\<close>

record 'v serde =
  as_str :: "'v \<Rightarrow> string option"
  as_u64 :: "'v \<Rightarrow> u64 option"
  as_i64 :: "'v \<Rightarrow> int option"
  as_bool :: "'v \<Rightarrow> bool option"
  as_array :: "'v \<Rightarrow> 'v list option"
  is_object :: "'v \<Rightarrow> bool"
  is_null :: "'v \<Rightarrow> bool"
  get_field :: "'v \<Rightarrow> string \<Rightarrow> 'v option"
  set_field :: "'v \<Rightarrow> string \<Rightarrow> 'v \<Rightarrow> 'v"
  eq_u64 :: "'v \<Rightarrow> u64 \<Rightarrow> bool"
  of_str :: "string \<Rightarrow> 'v"
  of_u64 :: "u64 \<Rightarrow> 'v"
  of_bool :: "bool \<Rightarrow> 'v"
  of_array :: "'v list \<Rightarrow> 'v"
  of_object :: "(string \<times> 'v) list \<Rightarrow> 'v"
  to_text :: "'v \<Rightarrow> string"
  of_text :: "string \<Rightarrow> string + 'v"

subsection \<open>The bitcoin codec\<close>

text \<open>
  \<open>consensus_decode\<close> on a cursor returns the value and the bytes left; \<open>deserialize\<close> takes a
  whole byte string. A transaction is only ever skipped, so its decoder returns the rest alone.
\<close>

record 'pmt codec =
  block_hash_of :: "block_header \<Rightarrow> block_hash"
  hash_to_string :: "block_hash \<Rightarrow> string"
  hash_from_str :: "string \<Rightarrow> block_hash option"
  hex_decode :: "string \<Rightarrow> bytes option"
  deserialize_header :: "bytes \<Rightarrow> block_header option"
  deserialize_merkle_block :: "bytes \<Rightarrow> (block_header \<times> 'pmt) option"
  decode_header :: "bytes \<Rightarrow> string + block_header \<times> bytes"
  decode_transaction :: "bytes \<Rightarrow> string + bytes"
  decode_hash :: "bytes \<Rightarrow> string + block_hash \<times> bytes"
  decode_varint :: "bytes \<Rightarrow> string + u64 \<times> bytes"
  decode_i32 :: "bytes \<Rightarrow> string + u32 \<times> bytes"
  decode_pmt :: "bytes \<Rightarrow> string + 'pmt \<times> bytes"

subsection \<open>HTTP\<close>

record http =
  url_parses :: "string \<Rightarrow> bool"
  post :: "string \<Rightarrow> string \<Rightarrow> string \<Rightarrow> string + string"
  response_text :: "string \<Rightarrow> string + string"
  base64_encode :: "string \<Rightarrow> string"

subsection \<open>Concrete instances\<close>

datatype json =
    JNull
  | JBool bool
  | JNum int
  | JStr string
  | JArr "json list"
  | JObj "(string \<times> json) list"

fun json_get :: "json \<Rightarrow> string \<Rightarrow> json option" where
  "json_get (JObj kvs) k = map_of kvs k"
| "json_get _ k = None"

fun json_set :: "json \<Rightarrow> string \<Rightarrow> json \<Rightarrow> json" where
  "json_set (JObj kvs) k v = JObj ((k, v) # kvs)"
| "json_set j _ _ = j"

definition json_serde :: "json serde" where
  "json_serde = \<lparr>
     as_str = (\<lambda>j. case j of JStr s \<Rightarrow> Some s | _ \<Rightarrow> None),
     as_u64 = (\<lambda>j. case j of JNum i \<Rightarrow> if 0 \<le> i \<and> i < 2 ^ 64 then Some (word_of_int i) else None
                 | _ \<Rightarrow> None),
     as_i64 = (\<lambda>j. case j of JNum i \<Rightarrow> if - (2 ^ 63) \<le> i \<and> i < 2 ^ 63 then Some i else None
                 | _ \<Rightarrow> None),
     as_bool = (\<lambda>j. case j of JBool b \<Rightarrow> Some b | _ \<Rightarrow> None),
     as_array = (\<lambda>j. case j of JArr js \<Rightarrow> Some js | _ \<Rightarrow> None),
     is_object = (\<lambda>j. case j of JObj _ \<Rightarrow> True | _ \<Rightarrow> False),
     is_null = (\<lambda>j. j = JNull),
     get_field = json_get,
     set_field = json_set,
     eq_u64 = (\<lambda>j n. j = JNum (uint n)),
     of_str = JStr,
     of_u64 = (\<lambda>n. JNum (uint n)),
     of_bool = JBool,
     of_array = JArr,
     of_object = JObj,
     to_text = (\<lambda>j. case j of JStr s \<Rightarrow> s | _ \<Rightarrow> ''json''),
     of_text = (\<lambda>s. Inr (JStr s))\<rparr>"

text \<open>A codec whose headers, hashes and counts are single bytes.\<close>

definition byte_codec :: "nat codec" where
  "byte_codec = \<lparr>
     block_hash_of = sample_bh,
     hash_to_string = (\<lambda>h. [char_of (unat h)]),
     hash_from_str = (\<lambda>s. case s of [c] \<Rightarrow> Some (word_of_nat (of_char c)) | _ \<Rightarrow> None),
     hex_decode = (\<lambda>s. Some (map (\<lambda>c. word_of_nat (of_char c)) s)),
     deserialize_header = (\<lambda>bs. case bs of [p, n] \<Rightarrow> Some (sample_header (ucast p) (ucast n) 0)
                             | _ \<Rightarrow> None),
     deserialize_merkle_block = (\<lambda>bs. case bs of [p, n, t] \<Rightarrow>
         Some (sample_header (ucast p) (ucast n) 0, unat t) | _ \<Rightarrow> None),
     decode_header = (\<lambda>bs. case bs of v # p # n # rest \<Rightarrow>
         Inr ((sample_header (ucast p) (ucast n) 0)\<lparr>version := push_bit 8 (ucast v)\<rparr>, rest)
                             | _ \<Rightarrow> Inl ''eof''),
     decode_transaction = (\<lambda>bs. case bs of _ # rest \<Rightarrow> Inr rest | [] \<Rightarrow> Inl ''eof''),
     decode_hash = (\<lambda>bs. case bs of b # rest \<Rightarrow> Inr (ucast b, rest) | [] \<Rightarrow> Inl ''eof''),
     decode_varint = (\<lambda>bs. case bs of b # rest \<Rightarrow> Inr (ucast b, rest) | [] \<Rightarrow> Inl ''eof''),
     decode_i32 = (\<lambda>bs. case bs of b # rest \<Rightarrow> Inr (ucast b, rest) | [] \<Rightarrow> Inl ''eof''),
     decode_pmt = (\<lambda>bs. case bs of b # rest \<Rightarrow> Inr (unat b, rest) | [] \<Rightarrow> Inl ''eof'')\<rparr>"

text \<open>
  A node with a given chain, answering the batches of requests the daemon client sends, in
  the single-byte encoding of \<open>byte_codec\<close>.
\<close>

definition node_hash :: "block_header \<Rightarrow> string" where
  "node_hash h = [char_of (unat (sample_bh h))]"

definition node_header :: "block_header \<Rightarrow> string" where
  "node_header h = [char_of (unat (prev_blockhash h)), char_of (unat (nonce h))]"

fun node_result :: "block_header list \<Rightarrow> json list \<Rightarrow> json" where
  "node_result hs [] = JStr (node_hash (last hs))"
| "node_result hs [JNum i] = JStr (node_hash (hs ! nat i))"
| "node_result hs [_] = JObj [(''height'', JNum (int (length hs) - 1))]"
| "node_result hs (JStr s # _) =
     (case filter (\<lambda>h. node_hash h = s) hs of h # _ \<Rightarrow> JStr (node_header h) | [] \<Rightarrow> JNull)"
| "node_result hs _ = JNull"

fun node_reply :: "block_header list \<Rightarrow> json \<Rightarrow> json" where
  "node_reply hs req =
     JObj [(''result'', case json_get req ''params'' of Some (JArr ps) \<Rightarrow> node_result hs ps | _ \<Rightarrow> JNull),
           (''error'', JNull),
           (''id'', case json_get req ''id'' of Some i \<Rightarrow> i | None \<Rightarrow> JNull)]"

fun sample_node :: "block_header list \<Rightarrow> json \<Rightarrow> ('e, json) outcome" where
  "sample_node hs (JArr reqs) = Ok (JArr (map (node_reply hs) reqs))"
| "sample_node hs _ = Ok JNull"

end
