(* ===== verification/Types_Config.thy ===== *)
theory Types_Config
  imports Prelude
begin

text \<open>
  \<open>src/src/types.rs\<close> (networks with their names and order, the parameter of a Merkle proof
  request) and the part of \<open>src/src/config.rs\<close> that turns the \<open>--start-filter\<close> option into
  the set of enabled services. The command-line parser itself is generated by \<open>clap\<close>.
\<close>

subsection \<open>Networks\<close>

datatype network =
    Bitcoin | Testnet | Testnet4 | Fractal | Regtest | Signet
  | DogecoinMainnet | DogecoinTestnet | DogecoinRegtest

text \<open>\<open>Display\<close>.\<close>

fun network_name :: "network \<Rightarrow> string" where
  "network_name Bitcoin = ''bitcoin''"
| "network_name Testnet = ''testnet''"
| "network_name Testnet4 = ''testnet4''"
| "network_name Fractal = ''fractal''"
| "network_name DogecoinMainnet = ''dogecoin_mainnet''"
| "network_name DogecoinTestnet = ''dogecoin_testnet''"
| "network_name DogecoinRegtest = ''dogecoin_regtest''"
| "network_name Regtest = ''regtest''"
| "network_name Signet = ''signet''"

definition network_from_str :: "string \<Rightarrow> (string, network) outcome" where
  "network_from_str s =
     (if s = ''bitcoin'' then Ok Bitcoin
      else if s = ''testnet'' then Ok Testnet
      else if s = ''testnet4'' then Ok Testnet4
      else if s = ''fractal'' then Ok Fractal
      else if s = ''regtest'' then Ok Regtest
      else if s = ''signet'' then Ok Signet
      else if s = ''dogecoin_mainnet'' then Ok DogecoinMainnet
      else if s = ''dogecoin_testnet'' then Ok DogecoinTestnet
      else if s = ''dogecoin_regtest'' then Ok DogecoinRegtest
      else Err (''Unknown log level: '' @ s))"

text \<open>The derived order: the order of the variants.\<close>

fun network_index :: "network \<Rightarrow> nat" where
  "network_index Bitcoin = 0"
| "network_index Testnet = 1"
| "network_index Testnet4 = 2"
| "network_index Fractal = 3"
| "network_index Regtest = 4"
| "network_index Signet = 5"
| "network_index DogecoinMainnet = 6"
| "network_index DogecoinTestnet = 7"
| "network_index DogecoinRegtest = 8"

lemma network_index_inject: "network_index a = network_index b \<longleftrightarrow> a = b"
  by (cases a; cases b) simp_all

instantiation network :: linorder
begin

definition less_eq_network :: "network \<Rightarrow> network \<Rightarrow> bool" where
  "less_eq_network a b \<longleftrightarrow> network_index a \<le> network_index b"

definition less_network :: "network \<Rightarrow> network \<Rightarrow> bool" where
  "less_network a b \<longleftrightarrow> network_index a < network_index b"

instance
  by standard
    (auto simp: less_eq_network_def less_network_def network_index_inject[symmetric])

end

subsection \<open>Merkle proof requests\<close>

datatype merkle_proof_param_chain = BitCoin | DogeCoin

record merkle_proof_param =
  txids :: "block_hash list"
  blockhash :: "block_hash option"
  chain :: merkle_proof_param_chain

definition merkle_proof_param_new ::
    "block_hash list \<Rightarrow> block_hash option \<Rightarrow> merkle_proof_param_chain \<Rightarrow> merkle_proof_param" where
  "merkle_proof_param_new ts b c = \<lparr>txids = ts, blockhash = b, chain = c\<rparr>"

subsection \<open>Services\<close>

text \<open>\<open>str::split\<close> on a character: always at least one piece.\<close>

fun split_on :: "char \<Rightarrow> string \<Rightarrow> string list" where
  "split_on c [] = [[]]"
| "split_on c (x # xs) =
     (if x = c then [] # split_on c xs
      else case split_on c xs of [] \<Rightarrow> [[x]] | w # ws \<Rightarrow> (x # w) # ws)"

definition start_filter :: "string \<Rightarrow> string list" where
  "start_filter config = split_on (CHR '','') config"

record service =
  btc :: bool
  eth :: bool
  op :: bool
  doge :: bool
  sol :: bool

definition service_default :: service where
  "service_default = \<lparr>btc = False, eth = False, op = False, doge = False, sol = False\<rparr>"

definition start_service :: "string \<Rightarrow> service \<Rightarrow> service" where
  "start_service s service =
     (if s = ''btc'' then service\<lparr>btc := True\<rparr>
      else if s = ''eth'' then service\<lparr>eth := True\<rparr>
      else if s = ''op'' then service\<lparr>op := True\<rparr>
      else if s = ''doge'' then service\<lparr>doge := True\<rparr>
      else if s = ''sol'' then service\<lparr>sol := True\<rparr>
      else service)"

definition start_services :: "string list \<Rightarrow> service" where
  "start_services se = fold start_service se service_default"

fun join_on :: "char \<Rightarrow> string list \<Rightarrow> string" where
  "join_on c [] = []"
| "join_on c [w] = w"
| "join_on c (w # ws) = w @ c # join_on c ws"

lemma split_on_not_Nil [simp]: "split_on c s \<noteq> []"
  by (induction s) (auto split: list.splits)

lemma split_on_append:
  "c \<notin> set w \<Longrightarrow> split_on c (w @ c # s) = w # split_on c s"
  by (induction w) auto

lemma split_on_no_sep: "c \<notin> set w \<Longrightarrow> split_on c w = [w]"
  by (induction w) auto

lemma split_on_join: "ws \<noteq> [] \<Longrightarrow> \<forall>w \<in> set ws. c \<notin> set w \<Longrightarrow> split_on c (join_on c ws) = ws"
  by (induction c ws rule: join_on.induct) (auto simp: split_on_append split_on_no_sep)

lemma fold_start_service:
  "btc (fold start_service se s) = (btc s \<or> ''btc'' \<in> set se) \<and>
   eth (fold start_service se s) = (eth s \<or> ''eth'' \<in> set se) \<and>
   op (fold start_service se s) = (op s \<or> ''op'' \<in> set se) \<and>
   doge (fold start_service se s) = (doge s \<or> ''doge'' \<in> set se) \<and>
   sol (fold start_service se s) = (sol s \<or> ''sol'' \<in> set se)"
  by (induction se arbitrary: s) (auto simp: start_service_def)

subsection \<open>The command line\<close>

text \<open>
  \<open>ConfigCli\<close>; addresses are kept as text. Reading the arguments is the \<open>clap\<close> crate's, which
  refuses a command line without a required argument or with a network outside the list of its
  option, and hands a listed one to \<open>str::parse\<close> and \<open>unwrap\<close>.
\<close>

record config_cli =
  cli_network_type :: network
  cli_daemon_rpc_addr :: string
  cli_cookie :: "string option"
  cli_doge_network_type :: network
  cli_doge_daemon_rpc_addr :: string
  cli_doge_cookie :: "string option"
  cli_regtest_peer :: "string list"
  cli_http_addr :: string
  cli_store :: string
  cli_subclient_url :: string
  cli_device_owner :: string
  cli_watcher_device_id :: string
  cli_relate_device_id_test :: string
  cli_sgx_enable :: bool
  cli_thread :: nat
  cli_consensus_rpc :: string
  cli_execution_rpc :: string
  cli_eth_network :: string
  cli_op_consensus_rpc :: string
  cli_op_execution_rpc :: string
  cli_op_network :: string
  cli_sol_judge_rpc :: string
  cli_sol_extra_rpcs :: string
  cli_electrs_support :: bool
  cli_disable_helios :: bool
  cli_btc_only_p2p :: bool
  cli_start_filter :: string

definition network_values :: "string list" where
  "network_values = [''bitcoin'', ''testnet'', ''testnet4'', ''fractal'', ''regtest'', ''signet'']"

definition doge_network_values :: "string list" where
  "doge_network_values = [''dogecoin_mainnet'', ''dogecoin_testnet'', ''dogecoin_regtest'']"

text \<open>A network option: \<open>Err\<close> is clap's refusal, with the value it was given.\<close>

definition network_arg :: "string list \<Rightarrow> string \<Rightarrow> (string, network) outcome" where
  "network_arg values s =
     (if s \<notin> set values then Err s
      else case network_from_str s of Ok n \<Rightarrow> Ok n | Err _ \<Rightarrow> Panic UnwrapFailed | Panic p \<Rightarrow> Panic p)"

text \<open>The command line with the required arguments only: every other field has its default.\<close>

definition cli_default :: "string \<Rightarrow> string \<Rightarrow> string \<Rightarrow> string \<Rightarrow> string \<Rightarrow> string \<Rightarrow> string \<Rightarrow> config_cli" where
  "cli_default daemon_addr doge_addr http_addr owner watcher judge extra =
     \<lparr>cli_network_type = Testnet, cli_daemon_rpc_addr = daemon_addr, cli_cookie = None,
      cli_doge_network_type = DogecoinTestnet, cli_doge_daemon_rpc_addr = doge_addr, cli_doge_cookie = None,
      cli_regtest_peer = [], cli_http_addr = http_addr, cli_store = ''./db'',
      cli_subclient_url = ''http://127.0.0.1:9933'', cli_device_owner = owner, cli_watcher_device_id = watcher,
      cli_relate_device_id_test = ''0x1234'', cli_sgx_enable = False, cli_thread = 30,
      cli_consensus_rpc = ''https://www.lightclientdata.org'',
      cli_execution_rpc = ''https://eth-mainnet.g.alchemy.com/v2/'', cli_eth_network = ''mainnet'',
      cli_op_consensus_rpc = ''https://op-mainnet.operationsolarstorm.org'',
      cli_op_execution_rpc = ''https://opt-mainnet.g.alchemy.com/v2/'', cli_op_network = ''op-mainnet'',
      cli_sol_judge_rpc = judge, cli_sol_extra_rpcs = extra, cli_electrs_support = False,
      cli_disable_helios = False, cli_btc_only_p2p = False, cli_start_filter = ''btc,doge,eth,op,sol''\<rparr>"

text \<open>\<open>Config::from_args\<close>, after the parsing.\<close>

record config =
  configcli :: config_cli
  config_service :: service

definition config_from_args :: "config_cli \<Rightarrow> config" where
  "config_from_args cli =
     \<lparr>configcli = cli, config_service = start_services (start_filter (cli_start_filter cli))\<rparr>"

subsection \<open>Properties\<close>

text \<open>
  the names of the networks round trip: a string parses to a network exactly when it is
  that network's display name. In particular no two networks share a name, so the name handed
  to the P2P client selects the configured network.
\<close>

theorem network_from_str_display: "(network_from_str s = Ok n) = (s = network_name n)"
  by (cases n) (auto simp: network_from_str_def split: if_splits)

text \<open>
  the start filter is read as a set of services: for any list of comma-free names joined
  by commas, a service is enabled if and only if its name is listed; order, repetitions and
  unknown names do not matter.
\<close>

theorem start_services_membership:
  assumes "ws \<noteq> []" and "\<forall>w \<in> set ws. CHR '','' \<notin> set w"
  shows "start_services (start_filter (join_on (CHR '','') ws)) =
     \<lparr>btc = (''btc'' \<in> set ws), eth = (''eth'' \<in> set ws), op = (''op'' \<in> set ws),
      doge = (''doge'' \<in> set ws), sol = (''sol'' \<in> set ws)\<rparr>"
  using fold_start_service[of ws service_default]
  by (simp add: start_filter_def split_on_join[OF assms] start_services_def service_default_def)

theorem start_services_membership_witness:
  "start_services (start_filter ''btc,doge,eth,op,sol'') =
     \<lparr>btc = True, eth = True, op = True, doge = True, sol = True\<rparr>"
  using start_services_membership[of "[''btc'', ''doge'', ''eth'', ''op'', ''sol'']"] by simp

text \<open>
  The two network options are read without a panic: a listed value parses to the network it
  names, and each option's default is one of its listed values.
\<close>

theorem network_arg_total:
  "(network_arg network_values s = Ok n \<longleftrightarrow> s = network_name n \<and> n \<in> {Bitcoin, Testnet, Testnet4, Fractal, Regtest, Signet}) \<and>
   (network_arg doge_network_values s = Ok n \<longleftrightarrow>
      s = network_name n \<and> n \<in> {DogecoinMainnet, DogecoinTestnet, DogecoinRegtest}) \<and>
   network_arg network_values s \<noteq> Panic p \<and> network_arg doge_network_values s \<noteq> Panic p"
  by (cases n)
    (auto simp: network_arg_def network_values_def doge_network_values_def network_from_str_def split: if_splits)

text \<open>Without a start filter every service is enabled.\<close>

theorem default_services:
  "config_service (config_from_args (cli_default a b c d e f g)) =
     \<lparr>btc = True, eth = True, op = True, doge = True, sol = True\<rparr>"
  by (simp add: config_from_args_def cli_default_def start_filter_def start_services_def start_service_def
      service_default_def)

end
