(* ===== verification/Daemon_Rpc.thy ===== *)
theory Daemon_Rpc
  imports Complex_Main Externals Types_Config
begin

text \<open>
  The JSON-RPC client of a bitcoind or dogecoind node, \<open>src/src/daemon.rs\<close>, with the HTTP
  request of \<open>src/src/utils.rs\<close>. The node's answers are the function \<open>rpc\<close> from the request
  (which carries the message id, so repeated calls may be answered differently) to the reply.
  The only state is the message counter.
\<close>

unbundle bit_operations_syntax

subsection \<open>State and errors\<close>

record daemon =
  daemon_rpc_addr :: string
  network :: network
  message_id :: u64
  cookie :: string

datatype 'v rpc_error =
    Warmup 'v
  | RpcError string 'v
  | NoId 'v
  | WrongId string 'v u64
  | NoResult 'v
  | NonObjectReply 'v
  | NonArrayReplies 'v
  | Transport string
  | NonStringValue 'v
  | NonHexValue 'v
  | NonStringHeader 'v
  | NonHexHeader
  | BadHeader string
  | HeaderTooShort
  | NonStringMerkleBlock 'v
  | NonHexMerkleBlock
  | BadMerkleBlock string
  | DecodeError string
  | FailedToGetHeader block_hash

record 'pmt merkle_block =
  mb_header :: block_header
  mb_txn :: 'pmt

subsection \<open>HTTP request\<close>

text \<open>\<open>utils::request\<close>: the URL must parse; then the three steps that can fail.\<close>

definition request_http ::
    "http \<Rightarrow> 'v serde \<Rightarrow> string \<Rightarrow> string \<Rightarrow> 'v \<Rightarrow> (string, 'v) outcome" where
  "request_http net J addr auth req =
     (if \<not> url_parses net addr then Panic UnwrapFailed
      else and_then (map_err (\<lambda>e. ''failed to get response '' @ e)
                       (of_sum (post net addr auth (to_text J req))))
        (\<lambda>response. and_then (map_err (\<lambda>e. ''failed to get payload '' @ e)
                                (of_sum (response_text net response)))
           (\<lambda>text. map_err (\<lambda>e. ''json error '' @ e) (of_sum (of_text J text)))))"

definition send_req :: "http \<Rightarrow> 'v serde \<Rightarrow> daemon \<Rightarrow> 'v \<Rightarrow> (string, 'v) outcome" where
  "send_req net J d req =
     request_http net J (''http://'' @ daemon_rpc_addr d)
       (''Basic '' @ base64_encode net (cookie d)) req"

subsection \<open>Replies\<close>

text \<open>\<open>Counter::next\<close>: increment, then read; \<open>u64\<close> wraps in the release build.\<close>

definition counter_next :: "daemon \<Rightarrow> u64 \<times> daemon" where
  "counter_next d = (message_id d + 1, d\<lparr>message_id := message_id d + 1\<rparr>)"

definition parse_error_code :: "'v serde \<Rightarrow> 'v \<Rightarrow> int option" where
  "parse_error_code J err =
     (if is_object J err
      then (case get_field J err ''code'' of None \<Rightarrow> None | Some c \<Rightarrow> as_i64 J c)
      else None)"

definition parse_jsonrpc_reply ::
    "'v serde \<Rightarrow> 'v \<Rightarrow> string \<Rightarrow> u64 \<Rightarrow> ('v rpc_error, 'v) outcome" where
  "parse_jsonrpc_reply J reply method expected_id =
     (if is_object J reply
      then
        (let after_error =
               (case get_field J reply ''id'' of
                  None \<Rightarrow> Err (NoId reply)
                | Some i \<Rightarrow>
                    (if \<not> eq_u64 J i expected_id then Err (WrongId method i expected_id)
                     else case get_field J reply ''result'' of
                       Some result \<Rightarrow> Ok result
                     | None \<Rightarrow> Err (NoResult reply)))
         in case get_field J reply ''error'' of
              None \<Rightarrow> after_error
            | Some err \<Rightarrow>
                (if is_null J err then after_error
                 else case parse_error_code J err of
                   None \<Rightarrow> after_error
                 | Some code \<Rightarrow>
                     (if code = -28 then Err (Warmup err) else Err (RpcError method err))))
      else Err (NonObjectReply reply))"

subsection \<open>Batches\<close>

fun parse_replies ::
    "'v serde \<Rightarrow> string \<Rightarrow> u64 \<Rightarrow> nat \<Rightarrow> 'v list \<Rightarrow> 'v list \<times> nat
      \<Rightarrow> ('v rpc_error, 'v list \<times> nat) outcome" where
  "parse_replies J method i threshold [] acc = Ok acc"
| "parse_replies J method i threshold (reply # replies) (results, failed) =
     (case parse_jsonrpc_reply J reply method i of
        Ok parsed \<Rightarrow> parse_replies J method i threshold replies (results @ [parsed], failed)
      | Err e \<Rightarrow>
          (if failed + 1 > threshold then Err e
           else parse_replies J method i threshold replies (results, failed + 1))
      | Panic p \<Rightarrow> Panic p)"

fun send_chunks ::
    "'v serde \<Rightarrow> ('v \<Rightarrow> (string, 'v) outcome) \<Rightarrow> string \<Rightarrow> u64 \<Rightarrow> nat \<Rightarrow> 'v list list
      \<Rightarrow> 'v list \<times> nat \<Rightarrow> ('v rpc_error, 'v list \<times> nat) outcome" where
  "send_chunks J rpc method i threshold [] acc = Ok acc"
| "send_chunks J rpc method i threshold (chunk # rest) acc =
     and_then (map_err Transport (rpc (of_array J chunk)))
       (\<lambda>replies.
          case as_array J replies of
            None \<Rightarrow> Err (NonArrayReplies replies)
          | Some replies_vec \<Rightarrow>
              and_then (parse_replies J method i threshold replies_vec acc)
                (send_chunks J rpc method i threshold rest))"

definition make_request :: "'v serde \<Rightarrow> string \<Rightarrow> u64 \<Rightarrow> 'v \<Rightarrow> 'v" where
  "make_request J method i params =
     of_object J [(''jsonrpc'', of_str J ''2.0''), (''method'', of_str J method),
                  (''params'', params), (''id'', of_u64 J i)]"

definition handle_request_batch ::
    "'v serde \<Rightarrow> ('v \<Rightarrow> (string, 'v) outcome) \<Rightarrow> string \<Rightarrow> 'v list \<Rightarrow> real
      \<Rightarrow> (daemon, 'v rpc_error, 'v list) action" where
  "handle_request_batch J rpc method params_list failure_threshold d =
     (let (i, d') = counter_next d;
          cs = chunks 10000 (map (make_request J method i) params_list);
          total_requests = length params_list;
          threshold = nat (round (failure_threshold * real total_requests))
      in (and_then (send_chunks J rpc method i threshold cs ([], 0)) (\<lambda>acc. Ok (fst acc)), d'))"

definition request ::
    "'v serde \<Rightarrow> ('v \<Rightarrow> (string, 'v) outcome) \<Rightarrow> string \<Rightarrow> 'v \<Rightarrow> (daemon, 'v rpc_error, 'v) action" where
  "request J rpc method params =
     seq (handle_request_batch J rpc method [params] 0)
       (\<lambda>values. lift (case values of [v] \<Rightarrow> Ok v | _ \<Rightarrow> Panic AssertFailed))"

definition requests ::
    "'v serde \<Rightarrow> ('v \<Rightarrow> (string, 'v) outcome) \<Rightarrow> string \<Rightarrow> 'v list
      \<Rightarrow> (daemon, 'v rpc_error, 'v list) action" where
  "requests J rpc method params_list = handle_request_batch J rpc method params_list 0"

subsection \<open>Parsing results\<close>

definition parse_hash :: "'v serde \<Rightarrow> 'p codec \<Rightarrow> 'v \<Rightarrow> ('v rpc_error, block_hash) outcome" where
  "parse_hash J C value =
     (case as_str J value of
        None \<Rightarrow> Err (NonStringValue value)
      | Some s \<Rightarrow> ok_or (NonHexValue value) (hash_from_str C s))"

definition header_from_value ::
    "'v serde \<Rightarrow> 'p codec \<Rightarrow> 'v \<Rightarrow> ('v rpc_error, block_header) outcome" where
  "header_from_value J C value =
     (case as_str J value of
        None \<Rightarrow> Err (NonStringHeader value)
      | Some header_hex \<Rightarrow>
          and_then (ok_or NonHexHeader (hex_decode C header_hex))
            (\<lambda>header_bytes. ok_or (BadHeader header_hex) (deserialize_header C header_bytes)))"

definition header_from_value_fractal_or_doge ::
    "'v serde \<Rightarrow> 'p codec \<Rightarrow> 'v \<Rightarrow> ('v rpc_error, block_header) outcome" where
  "header_from_value_fractal_or_doge J C value =
     (case as_str J value of
        None \<Rightarrow> Err (NonStringHeader value)
      | Some header_hex \<Rightarrow>
          and_then (ok_or NonHexHeader (hex_decode C header_hex))
            (\<lambda>header_bytes.
               if length header_bytes < 80 then Err HeaderTooShort
               else ok_or (BadHeader header_hex) (deserialize_header C (take 80 header_bytes))))"

definition merkleblock_from_value ::
    "'v serde \<Rightarrow> 'p codec \<Rightarrow> 'v \<Rightarrow> ('v rpc_error, 'p merkle_block) outcome" where
  "merkleblock_from_value J C value =
     (case as_str J value of
        None \<Rightarrow> Err (NonStringMerkleBlock value)
      | Some mb_hex \<Rightarrow>
          and_then (ok_or NonHexMerkleBlock (hex_decode C mb_hex))
            (\<lambda>mb_bytes.
               case deserialize_merkle_block C mb_bytes of
                 None \<Rightarrow> Err (BadMerkleBlock mb_hex)
               | Some (h, txn) \<Rightarrow> Ok \<lparr>mb_header = h, mb_txn = txn\<rparr>))"

text \<open>
  The dogecoin Merkle block: when the version carries the AuxPoW flag, the merged-mining proof
  between the header and the partial tree is decoded and dropped.
\<close>

definition VERSION_FLAG_AUXPOW :: u32 where
  "VERSION_FLAG_AUXPOW = push_bit 8 1"

definition dec :: "string + 'a \<Rightarrow> ('v rpc_error, 'a) outcome" where
  "dec r = map_err DecodeError (of_sum r)"

fun skip_hashes :: "'p codec \<Rightarrow> nat \<Rightarrow> bytes \<Rightarrow> ('v rpc_error, bytes) outcome" where
  "skip_hashes C 0 bs = Ok bs"
| "skip_hashes C (Suc n) bs = and_then (dec (decode_hash C bs)) (\<lambda>(_, bs'). skip_hashes C n bs')"

definition skip_branch :: "'p codec \<Rightarrow> bytes \<Rightarrow> ('v rpc_error, bytes) outcome" where
  "skip_branch C bs =
     and_then (dec (decode_varint C bs)) (\<lambda>(branch_len, bs).
     and_then (skip_hashes C (unat branch_len) bs) (\<lambda>bs.
     and_then (dec (decode_i32 C bs)) (\<lambda>(_, bs). Ok bs)))"

definition skip_auxpow :: "'p codec \<Rightarrow> bytes \<Rightarrow> ('v rpc_error, bytes) outcome" where
  "skip_auxpow C bs =
     and_then (dec (decode_transaction C bs)) (\<lambda>bs.
     and_then (dec (decode_hash C bs)) (\<lambda>(_, bs).
     and_then (skip_branch C bs) (\<lambda>bs.
     and_then (skip_branch C bs) (\<lambda>bs.
     and_then (dec (decode_header C bs)) (\<lambda>(_, bs). Ok bs)))))"

definition doge_merkleblock_from_value ::
    "'v serde \<Rightarrow> 'p codec \<Rightarrow> 'v \<Rightarrow> ('v rpc_error, 'p merkle_block) outcome" where
  "doge_merkleblock_from_value J C value =
     (case as_str J value of
        None \<Rightarrow> Err (NonStringMerkleBlock value)
      | Some mb_hex \<Rightarrow>
          and_then (ok_or NonHexMerkleBlock (hex_decode C mb_hex)) (\<lambda>mb_bytes.
          and_then (dec (decode_header C mb_bytes)) (\<lambda>(h, bs).
          and_then (if version h AND VERSION_FLAG_AUXPOW \<noteq> 0 then skip_auxpow C bs else Ok bs)
            (\<lambda>bs.
          and_then (dec (decode_pmt C bs)) (\<lambda>(txn, _). Ok \<lparr>mb_header = h, mb_txn = txn\<rparr>)))))"

subsection \<open>The calls\<close>

definition merkle_proof_param_to_value ::
    "'v serde \<Rightarrow> 'p codec \<Rightarrow> merkle_proof_param \<Rightarrow> 'v" where
  "merkle_proof_param_to_value J C param =
     (let txids_string = of_array J (map (\<lambda>txid. of_str J (hash_to_string C txid)) (txids param))
      in case blockhash param of
           None \<Rightarrow> of_array J [txids_string]
         | Some bhash \<Rightarrow> of_array J [txids_string, of_str J (hash_to_string C bhash)])"

definition merkleblock_of_chain ::
    "'v serde \<Rightarrow> 'p codec \<Rightarrow> merkle_proof_param_chain \<Rightarrow> 'v \<Rightarrow> ('v rpc_error, 'p merkle_block) outcome" where
  "merkleblock_of_chain J C c value =
     (case c of
        BitCoin \<Rightarrow> merkleblock_from_value J C value
      | DogeCoin \<Rightarrow> doge_merkleblock_from_value J C value)"

definition gettxoutproof ::
    "'v serde \<Rightarrow> 'p codec \<Rightarrow> ('v \<Rightarrow> (string, 'v) outcome) \<Rightarrow> merkle_proof_param
      \<Rightarrow> (daemon, 'v rpc_error, 'p merkle_block) action" where
  "gettxoutproof J C rpc param =
     seq (request J rpc ''gettxoutproof'' (merkle_proof_param_to_value J C param))
       (\<lambda>value. lift (merkleblock_of_chain J C (chain param) value))"

definition gettxoutproofs ::
    "'v serde \<Rightarrow> 'p codec \<Rightarrow> ('v \<Rightarrow> (string, 'v) outcome) \<Rightarrow> merkle_proof_param list
      \<Rightarrow> (daemon, 'v rpc_error, 'p merkle_block list) action" where
  "gettxoutproofs J C rpc params =
     (case params of
        [] \<Rightarrow> lift (Panic IndexOutOfBounds)
      | first # _ \<Rightarrow>
          seq (requests J rpc ''gettxoutproof'' (map (merkle_proof_param_to_value J C) params))
            (\<lambda>mbs. lift (try_map (merkleblock_of_chain J C (chain first)) mbs)))"

definition getbestblockhash ::
    "'v serde \<Rightarrow> 'p codec \<Rightarrow> ('v \<Rightarrow> (string, 'v) outcome) \<Rightarrow> (daemon, 'v rpc_error, block_hash) action" where
  "getbestblockhash J C rpc =
     seq (request J rpc ''getbestblockhash'' (of_array J [])) (\<lambda>v. lift (parse_hash J C v))"

definition header_of_network ::
    "'v serde \<Rightarrow> 'p codec \<Rightarrow> network \<Rightarrow> 'v \<Rightarrow> ('v rpc_error, block_header) outcome" where
  "header_of_network J C n value =
     (if n \<in> {DogecoinMainnet, DogecoinTestnet, DogecoinRegtest, Fractal}
      then header_from_value_fractal_or_doge J C value
      else header_from_value J C value)"

definition getblockheader ::
    "'v serde \<Rightarrow> 'p codec \<Rightarrow> ('v \<Rightarrow> (string, 'v) outcome) \<Rightarrow> block_hash
      \<Rightarrow> (daemon, 'v rpc_error, block_header) action" where
  "getblockheader J C rpc bhash d =
     seq (request J rpc ''getblockheader''
            (of_array J [of_str J (hash_to_string C bhash), of_bool J False]))
       (\<lambda>v. lift (header_of_network J C (network d) v)) d"

definition getblockheaders ::
    "'v serde \<Rightarrow> 'p codec \<Rightarrow> ('v \<Rightarrow> (string, 'v) outcome) \<Rightarrow> nat list
      \<Rightarrow> (daemon, 'v rpc_error, block_header list) action" where
  "getblockheaders J C rpc hts d =
     seq (requests J rpc ''getblockhash'' (map (\<lambda>h. of_array J [of_u64 J (of_nat h)]) hts))
       (\<lambda>hashes.
     seq (requests J rpc ''getblockheader''
            (map (\<lambda>h. of_array J [h, of_bool J False]) hashes))
       (\<lambda>hs. lift (try_map (header_of_network J C (network d)) hs))) d"

text \<open>\<open>Daemon::new\<close>: unless only electrs is served, the node must answer two calls.\<close>

definition daemon_new ::
    "'v serde \<Rightarrow> 'p codec \<Rightarrow> ('v \<Rightarrow> (string, 'v) outcome) \<Rightarrow> string \<Rightarrow> string \<Rightarrow> network \<Rightarrow> bool
      \<Rightarrow> ('v rpc_error, daemon) outcome" where
  "daemon_new J C rpc addr ck n electrs_only =
     (let d = \<lparr>daemon_rpc_addr = addr, network = n, message_id = 0, cookie = ck\<rparr> in
      if electrs_only then Ok d
      else case getbestblockhash J C rpc d of
        (Ok t, d') \<Rightarrow>
          (case getblockheader J C rpc t d' of (Ok _, d'') \<Rightarrow> Ok d'' | (_, _) \<Rightarrow> Panic UnwrapFailed)
      | (_, _) \<Rightarrow> Panic UnwrapFailed)"

subsection \<open>Downloading headers\<close>

fun download_chunks ::
    "'v serde \<Rightarrow> 'p codec \<Rightarrow> ('v \<Rightarrow> (string, 'v) outcome) \<Rightarrow> nat list list \<Rightarrow> block_header list
      \<Rightarrow> (daemon, 'v rpc_error, block_header list) action" where
  "download_chunks J C rpc [] result = ret result"
| "download_chunks J C rpc (hts # rest) result =
     seq (getblockheaders J C rpc hts)
       (\<lambda>hs. if length hs \<noteq> length hts then lift (Panic AssertFailed)
             else download_chunks J C rpc rest (result @ hs))"

text \<open>The final check: every header points to the hash of the one before.\<close>

fun follow_chain :: "(block_header \<Rightarrow> block_hash) \<Rightarrow> block_hash \<Rightarrow> block_header list \<Rightarrow> block_hash option" where
  "follow_chain bh prev [] = Some prev"
| "follow_chain bh prev (h # hs) =
     (if prev_blockhash h \<noteq> prev then None else follow_chain bh (bh h) hs)"

definition get_all_headers ::
    "'v serde \<Rightarrow> 'p codec \<Rightarrow> ('v \<Rightarrow> (string, 'v) outcome) \<Rightarrow> block_hash
      \<Rightarrow> (daemon, 'v rpc_error, block_header list) action" where
  "get_all_headers J C rpc tp =
     seq (request J rpc ''getblockheader'' (of_array J [of_str J (hash_to_string C tp)]))
       (\<lambda>info.
          case get_field J info ''height'' of
            None \<Rightarrow> lift (Panic UnwrapFailed)
          | Some v \<Rightarrow>
              (case as_u64 J v of
                 None \<Rightarrow> lift (Panic UnwrapFailed)
               | Some tip_height \<Rightarrow>
                   seq (download_chunks J C rpc (chunks 100000 [0 ..< Suc (unat tip_height)]) [])
                     (\<lambda>result.
                        lift (if follow_chain (block_hash_of C) all_zeros result = Some tp
                              then Ok result else Panic AssertFailed))))"

text \<open>
  The walk back from the best block to a known header. Nothing bounds it if the node answers
  with an endless chain, so its result is an option: \<open>None\<close> when the loop does not return.
\<close>

partial_function (option) fetch_back ::
    "(block_hash \<Rightarrow> (daemon, 'v rpc_error, block_header) action) \<Rightarrow> header_list \<Rightarrow> block_hash
      \<Rightarrow> block_header list \<Rightarrow> daemon
      \<Rightarrow> (('v rpc_error, block_header list) outcome \<times> daemon) option" where
  "fetch_back get indexed_headers bhash new_headers d =
     (if bhash = all_zeros then Some (Ok new_headers, d)
      else if header_by_blockhash indexed_headers bhash \<noteq> None then Some (Ok new_headers, d)
      else case get bhash d of
        (Ok h, d') \<Rightarrow> fetch_back get indexed_headers (prev_blockhash h) (new_headers @ [h]) d'
      | (Err _, d') \<Rightarrow> Some (Err (FailedToGetHeader bhash), d')
      | (Panic p, d') \<Rightarrow> Some (Panic p, d'))"

definition get_new_headers ::
    "'v serde \<Rightarrow> 'p codec \<Rightarrow> ('v \<Rightarrow> (string, 'v) outcome) \<Rightarrow> header_list \<Rightarrow> block_hash
      \<Rightarrow> daemon \<Rightarrow> (('v rpc_error, block_header list) outcome \<times> daemon) option" where
  "get_new_headers J C rpc indexed_headers bestblockhash d =
     (if headers indexed_headers = [] then Some (get_all_headers J C rpc bestblockhash d)
      else map_option (\<lambda>(r, d'). (and_then r (\<lambda>hs. Ok (rev hs)), d'))
             (fetch_back (getblockheader J C rpc) indexed_headers bestblockhash [] d))"

subsection \<open>Lemmas\<close>

text \<open>A call changes the message counter alone; the rest is the daemon's endpoint.\<close>

definition endpoint :: "daemon \<Rightarrow> string \<times> network \<times> string" where
  "endpoint d = (daemon_rpc_addr d, network d, cookie d)"

lemma snd_seq_keeps:
  assumes "\<And>d. f (snd (m d)) = f d" and "\<And>a d. f (snd (k a d)) = f d"
  shows "f (snd (seq m k d)) = f d"
  using assms(1)[of d] assms(2) by (auto simp: seq_def split: prod.splits outcome.splits)

lemma endpoint_batch [simp]: "endpoint (snd (handle_request_batch J rpc m ps f d)) = endpoint d"
  by (simp add: handle_request_batch_def counter_next_def Let_def endpoint_def)

lemma endpoint_request [simp]: "endpoint (snd (request J rpc m p d)) = endpoint d"
  unfolding request_def by (rule snd_seq_keeps) simp_all

lemma endpoint_getblockheader [simp]: "endpoint (snd (getblockheader J C rpc h d)) = endpoint d"
  unfolding getblockheader_def by (rule snd_seq_keeps) simp_all

lemma endpoint_getbestblockhash [simp]: "endpoint (snd (getbestblockhash J C rpc d)) = endpoint d"
  unfolding getbestblockhash_def by (rule snd_seq_keeps) simp_all

lemma endpoint_gettxoutproof [simp]: "endpoint (snd (gettxoutproof J C rpc param d)) = endpoint d"
  unfolding gettxoutproof_def by (rule snd_seq_keeps) simp_all

lemma endpoint_network: "endpoint d' = endpoint d \<Longrightarrow> network d' = network d"
  by (simp add: endpoint_def)

lemma network_getblockheader [simp]: "network (snd (getblockheader J C rpc h d)) = network d"
  by (rule endpoint_network) simp

lemma network_getbestblockhash [simp]: "network (snd (getbestblockhash J C rpc d)) = network d"
  by (rule endpoint_network) simp

lemma daemon_new_endpoint: "daemon_new J C rpc addr ck n electrs_only = Ok d \<Longrightarrow> endpoint d = (addr, n, ck)"
proof -
  assume new: "daemon_new J C rpc addr ck n electrs_only = Ok d"
  let ?d = "\<lparr>daemon_rpc_addr = addr, network = n, message_id = 0, cookie = ck\<rparr>"
  have e: "endpoint ?d = (addr, n, ck)" by (simp add: endpoint_def)
  then show ?thesis
    using new endpoint_getbestblockhash[of J C rpc ?d]
    by (auto simp: daemon_new_def Let_def split: if_splits prod.splits outcome.splits
        dest!: arg_cong[of _ _ "\<lambda>p. endpoint (snd p)"])
qed

lemma parse_replies_strict:
  assumes "parse_replies J m i 0 rs (vs, n) = Ok (ws, n')"
  shows "n' = n \<and> (\<exists>us. ws = vs @ us \<and> list_all2 (\<lambda>r u. parse_jsonrpc_reply J r m i = Ok u) rs us)"
  using assms
proof (induction rs arbitrary: vs)
  case (Cons r rs)
  then obtain u where u: "parse_jsonrpc_reply J r m i = Ok u"
    and rest: "parse_replies J m i 0 rs (vs @ [u], n) = Ok (ws, n')"
    by (auto split: outcome.splits)
  from Cons.IH[OF rest] u show ?case
    by (auto simp: list_all2_Cons1)
qed simp

lemma send_chunks_strict:
  assumes "send_chunks J rpc m i 0 cs (vs, n) = Ok (ws, n')"
  shows "\<exists>rss us. ws = vs @ us \<and>
      list_all2 (\<lambda>c rs. \<exists>v. rpc (of_array J c) = Ok v \<and> as_array J v = Some rs) cs rss \<and>
      list_all2 (\<lambda>r u. parse_jsonrpc_reply J r m i = Ok u) (concat rss) us"
  using assms
proof (induction cs arbitrary: vs n)
  case (Cons c cs)
  then obtain v rs acc where v: "rpc (of_array J c) = Ok v" "as_array J v = Some rs"
    and p: "parse_replies J m i 0 rs (vs, n) = Ok acc"
    and rest: "send_chunks J rpc m i 0 cs acc = Ok (ws, n')"
    by (auto simp: outcome_simps split: option.splits)
  obtain ws1 n1 where acc: "acc = (ws1, n1)" by (cases acc)
  from parse_replies_strict[OF p[unfolded acc]] obtain us1 where
    us1: "ws1 = vs @ us1" "list_all2 (\<lambda>r u. parse_jsonrpc_reply J r m i = Ok u) rs us1" by auto
  from Cons.IH[OF rest[unfolded acc]] obtain rss us where
    us: "ws = ws1 @ us"
      "list_all2 (\<lambda>c rs. \<exists>v. rpc (of_array J c) = Ok v \<and> as_array J v = Some rs) cs rss"
      "list_all2 (\<lambda>r u. parse_jsonrpc_reply J r m i = Ok u) (concat rss) us" by blast
  show ?case
    by (rule exI[of _ "rs # rss"], rule exI[of _ "us1 @ us"])
      (use us us1 v in \<open>auto intro: list_all2_appendI\<close>)
qed simp

lemma handle_request_batch_Ok:
  assumes "handle_request_batch J rpc m ps 0 d = (Ok vs, d')"
  shows "d' = d\<lparr>message_id := message_id d + 1\<rparr> \<and>
    (\<exists>rss. list_all2 (\<lambda>c rs. \<exists>v. rpc (of_array J c) = Ok v \<and> as_array J v = Some rs)
             (chunks 10000 (map (make_request J m (message_id d + 1)) ps)) rss \<and>
           list_all2 (\<lambda>r u. parse_jsonrpc_reply J r m (message_id d + 1) = Ok u) (concat rss) vs)"
  using assms
  by (auto simp: handle_request_batch_def counter_next_def Let_def outcome_simps
      dest!: send_chunks_strict)

lemma request_Ok:
  assumes "request J rpc m p d = (Ok v, d')"
  shows "d' = d\<lparr>message_id := message_id d + 1\<rparr> \<and>
    (\<exists>w r. rpc (of_array J [make_request J m (message_id d + 1) p]) = Ok w \<and>
       as_array J w = Some [r] \<and> parse_jsonrpc_reply J r m (message_id d + 1) = Ok v)"
proof -
  have single: "vs = [v]" if "(case vs of [v] \<Rightarrow> Ok v | _ \<Rightarrow> Panic AssertFailed) = Ok v" for vs
    using that by (simp split: list.splits)
  from assms have "handle_request_batch J rpc m [p] 0 d = (Ok [v], d')"
    unfolding request_def seq_Ok_iff by (auto dest!: single)
  from handle_request_batch_Ok[OF this] show ?thesis
    by (auto simp: chunks_small list_all2_Cons1 list_all2_Cons2)
qed

lemma follow_chain_snoc:
  "follow_chain bh p (hs @ [h]) = Some t \<longleftrightarrow>
     (\<exists>q. follow_chain bh p hs = Some q \<and> prev_blockhash h = q \<and> t = bh h)"
  by (induction bh p hs rule: follow_chain.induct) auto

lemma fetch_back_segment:
  assumes "follow_chain bh p hs = Some t"
    and "p = all_zeros \<or> header_by_blockhash hl p \<noteq> None"
    and "\<forall>h \<in> set hs. bh h \<noteq> all_zeros \<and> header_by_blockhash hl (bh h) = None"
    and "\<forall>h \<in> set hs. \<forall>d. network d = n \<longrightarrow> fst (get (bh h) d) = Ok h"
    and "\<And>x d. network (snd (get x d)) = network d" and "network d = n"
  shows "\<exists>d'. fetch_back get hl t acc d = Some (Ok (acc @ rev hs), d') \<and> network d' = n"
  using assms(1,3,4,6)
proof (induction hs arbitrary: t acc d rule: rev_induct)
  case Nil
  then show ?case using assms(2) by (subst fetch_back.simps) auto
next
  case (snoc h hs)
  from snoc.prems(1) have t: "t = bh h" "follow_chain bh p hs = Some (prev_blockhash h)"
    by (auto simp: follow_chain_snoc)
  obtain d1 where d1: "get (bh h) d = (Ok h, d1)" "network d1 = n"
    using snoc.prems(3,4) assms(5)[of "bh h" d] by (cases "get (bh h) d") force
  from snoc.IH[OF t(2) _ _ d1(2), of "acc @ [h]"] snoc.prems(2,3)
  obtain d' where "fetch_back get hl (prev_blockhash h) (acc @ [h]) d1 =
      Some (Ok ((acc @ [h]) @ rev hs), d')" "network d' = n" by auto
  with t d1 snoc.prems(2) show ?case
    by (subst fetch_back.simps) auto
qed

lemma follow_chain_drop:
  assumes "wf_headers bh hs" and "k \<le> length hs"
  shows "follow_chain bh (chain_tip (take k hs)) (map header (drop k hs)) = Some (chain_tip hs)"
  using assms
proof (induction "length hs - k" arbitrary: k)
  case 0
  then show ?case by simp
next
  case (Suc n)
  then have k: "k < length hs" by simp
  have "follow_chain bh (chain_tip (take (Suc k) hs)) (map header (drop (Suc k) hs)) = Some (chain_tip hs)"
    by (rule Suc.hyps(1)) (use Suc in auto)
  moreover have "chain_tip (take (Suc k) hs) = bh (header (hs ! k))"
    using k wf_headersD(2)[OF assms(1) k] by (simp add: chain_tip_take)
  moreover have "prev_blockhash (header (hs ! k)) = chain_tip (take k hs)"
    using assms(1) k by (simp add: wf_headers_def)
  ultimately show ?case
    using k by (simp add: Cons_nth_drop_Suc[symmetric])
qed

lemma follow_chain_wf:
  assumes "follow_chain bh all_zeros hs = Some t"
  shows "\<exists>es. wf_headers bh es \<and> map header es = hs \<and> chain_tip es = t"
  using assms
proof (induction hs arbitrary: t rule: rev_induct)
  case (snoc h hs)
  then obtain es where es: "wf_headers bh es" "map header es = hs" "chain_tip es = prev_blockhash h"
    and t: "t = bh h" by (auto simp: follow_chain_snoc)
  let ?e = "\<lparr>height = length es, hash = bh h, header = h\<rparr>"
  show ?case
    by (rule exI[of _ "es @ [?e]"]) (use es t in \<open>simp add: wf_headers_snoc\<close>)
qed (auto intro: exI[of _ "[]"])

subsection \<open>Properties\<close>

text \<open>
  exactly which replies are accepted. A result is returned if and only if the reply is an
  object with the expected id and a result, and its \<open>error\<close> is absent, null, or has no integer
  code; an error object without an integer code is therefore ignored.
\<close>

theorem parse_jsonrpc_reply_accepts:
  "(parse_jsonrpc_reply J reply method i = Ok v) =
     (is_object J reply \<and>
      (\<exists>x. get_field J reply ''id'' = Some x \<and> eq_u64 J x i) \<and>
      get_field J reply ''result'' = Some v \<and>
      (get_field J reply ''error'' = None \<or>
       (\<exists>e. get_field J reply ''error'' = Some e \<and> (is_null J e \<or> parse_error_code J e = None))))"
  by (auto simp: parse_jsonrpc_reply_def Let_def split: option.splits if_splits)

text \<open>
  a batch that succeeds returns one result per reply, in the order of the replies, and
  every one of these replies passed the acceptance test with the id of this batch, which is the
  next message id; the requests were sent in chunks of at most 10000 that together are the
  parameter list. Nothing is dropped and nothing from another batch is let in.
\<close>

theorem handle_request_batch_in_order:
  assumes "handle_request_batch J rpc m ps 0 d = (Ok vs, d')"
  shows "message_id d' = message_id d + 1 \<and>
    (\<exists>cs rss. concat cs = map (make_request J m (message_id d')) ps \<and>
       list_all (\<lambda>c. length c \<le> 10000) cs \<and>
       list_all2 (\<lambda>c rs. \<exists>w. rpc (of_array J c) = Ok w \<and> as_array J w = Some rs) cs rss \<and>
       list_all2 (\<lambda>r v. parse_jsonrpc_reply J r m (message_id d') = Ok v) (concat rss) vs)"
proof -
  let ?cs = "chunks 10000 (map (make_request J m (message_id d + 1)) ps)"
  from handle_request_batch_Ok[OF assms] obtain rss where
    d': "d' = d\<lparr>message_id := message_id d + 1\<rparr>" and
    rss: "list_all2 (\<lambda>c rs. \<exists>v. rpc (of_array J c) = Ok v \<and> as_array J v = Some rs) ?cs rss"
      "list_all2 (\<lambda>r u. parse_jsonrpc_reply J r m (message_id d + 1) = Ok u) (concat rss) vs"
    by blast
  have "list_all (\<lambda>c. length c \<le> 10000) ?cs"
    by (auto simp: list_all_iff dest: length_in_chunks)
  with d' rss show ?thesis
    by (intro conjI exI[of _ ?cs] exI[of _ rss]) (simp_all add: concat_chunks)
qed

definition sample_daemon :: daemon where
  "sample_daemon = \<lparr>daemon_rpc_addr = ''127.0.0.1:18332'', network = Regtest, message_id = 0, cookie = ''c''\<rparr>"

lemmas sample_node_defs =
  sample_daemon_def json_serde_def byte_codec_def node_hash_def node_header_def

theorem handle_request_batch_in_order_witness:
  "\<exists>vs d'. handle_request_batch json_serde (sample_node [sample_header 0 1 0]) ''getblockhash''
       [JArr [JNum 0], JArr [JNum 0]] 0 sample_daemon = (Ok vs, d') \<and> length vs = 2 \<and>
     message_id d' = 1"
proof -
  let ?run = "handle_request_batch json_serde (sample_node [sample_header 0 1 0]) ''getblockhash''
       [JArr [JNum 0], JArr [JNum 0]] 0 sample_daemon"
  obtain vs d' where run: "?run = (Ok vs, d')" and len: "length vs = 2"
    by (simp add: handle_request_batch_def counter_next_def chunks_small make_request_def
        parse_jsonrpc_reply_def sample_node_defs)
  from handle_request_batch_in_order[OF run] have "message_id d' = 1"
    by (simp add: sample_daemon_def)
  with run len show ?thesis by blast
qed

lemma download_chunks_length:
  assumes "download_chunks J C rpc cs acc d = (Ok hs, d')"
  shows "length hs = length acc + length (concat cs)"
  using assms
  by (induction J C rpc cs acc arbitrary: d rule: download_chunks.induct)
    (auto simp: seq_Ok_iff split: if_splits)

lemma get_all_headers_follow:
  assumes "get_all_headers J C rpc tp d = (Ok hs, d')"
  shows "follow_chain (block_hash_of C) all_zeros hs = Some tp \<and> hs \<noteq> []"
proof -
  from assms obtain n d1 where
    dl: "download_chunks J C rpc (chunks 100000 [0 ..< Suc n]) [] d1 = (Ok hs, d')"
    and ok: "follow_chain (block_hash_of C) all_zeros hs = Some tp"
    by (auto simp: get_all_headers_def seq_Ok_iff simp del: upt_Suc
        split: option.splits if_splits)
  have "length hs = Suc n"
    using download_chunks_length[OF dl] by (simp add: concat_chunks del: upt_Suc)
  with ok show ?thesis by auto
qed

lemma sample_all_headers:
  "\<exists>d'. get_all_headers json_serde byte_codec
       (sample_node [sample_header 0 1 0, sample_header 1 2 0]) 2 sample_daemon =
     (Ok [sample_header 0 1 0, sample_header 1 2 0], d')"
  by (simp add: get_all_headers_def request_def requests_def handle_request_batch_def
        counter_next_def chunks_small make_request_def parse_jsonrpc_reply_def sample_node_defs
        getblockheaders_def header_of_network_def header_from_value_def seq_def upt_rec
        sample_bh_def sample_header_def all_zeros_def)

text \<open>
  the full download is checked end to end. If \<open>get_all_headers\<close> returns, then whatever the
  node answered, the headers are a non-empty chain from the null hash whose last header hashes
  to the requested tip.
\<close>

theorem get_all_headers_sound:
  assumes "get_all_headers J C rpc tp d = (Ok hs, d')"
  shows "hs \<noteq> [] \<and> (\<exists>es. wf_headers (block_hash_of C) es \<and> map header es = hs \<and> chain_tip es = tp)"
  using get_all_headers_follow[OF assms] follow_chain_wf by blast

theorem get_all_headers_sound_witness:
  "\<exists>hs d'. get_all_headers json_serde byte_codec
       (sample_node [sample_header 0 1 0, sample_header 1 2 0]) 2 sample_daemon = (Ok hs, d') \<and>
     hs = [sample_header 0 1 0, sample_header 1 2 0] \<and>
     (\<exists>es. wf_headers sample_bh es \<and> map header es = hs \<and> chain_tip es = 2)"
proof -
  obtain d' where run: "get_all_headers json_serde byte_codec
       (sample_node [sample_header 0 1 0, sample_header 1 2 0]) 2 sample_daemon =
     (Ok [sample_header 0 1 0, sample_header 1 2 0], d')" using sample_all_headers ..
  from get_all_headers_sound[OF run] run show ?thesis
    by (simp add: byte_codec_def)
qed

text \<open>
  The node serves a chain: asked for the header of any hash on it, at any message id, it
  answers with that header.
\<close>

definition serves_chain ::
    "'v serde \<Rightarrow> 'p codec \<Rightarrow> ('v \<Rightarrow> (string, 'v) outcome) \<Rightarrow> network \<Rightarrow> header_entry list \<Rightarrow> bool" where
  "serves_chain J C rpc n hs \<longleftrightarrow>
     (\<forall>e \<in> set hs. \<forall>d. network d = n \<longrightarrow> fst (getblockheader J C rpc (hash e) d) = Ok (header e))"

lemma get_new_headers_from_fork:
  assumes "wf_list (block_hash_of C) hl" and "headers hl \<noteq> []"
    and "wf_headers (block_hash_of C) hs"
    and "collision_free (block_hash_of C) (header ` (set hs \<union> set (headers hl)))"
    and "serves_chain J C rpc (network d) hs"
  shows "\<exists>d'. get_new_headers J C rpc hl (chain_tip hs) d =
     Some (Ok (map header (drop (fork_point hs (headers hl)) hs)), d') \<and> network d' = network d"
proof -
  let ?bh = "block_hash_of C" and ?k = "fork_point hs (headers hl)"
  let ?new = "map header (drop ?k hs)"
  have cf: "collision_free ?bh (header ` set hs)"
    by (rule collision_free_mono[OF assms(4)]) auto
  have nth: "\<exists>i. ?k \<le> i \<and> i < length hs \<and> h = header (hs ! i) \<and> ?bh h = hash (hs ! i)"
    if "h \<in> set ?new" for h
  proof -
    from that obtain j where "j < length hs - ?k" "h = header (hs ! (?k + j))"
      by (auto simp: in_set_conv_nth)
    with wf_headersD(2)[OF assms(3), of "?k + j"] show ?thesis
      by (intro exI[of _ "?k + j"]) simp
  qed
  have "\<exists>d'. fetch_back (getblockheader J C rpc) hl (chain_tip hs) [] d =
      Some (Ok ([] @ rev ?new), d') \<and> network d' = network d"
  proof (rule fetch_back_segment)
    show "follow_chain ?bh (chain_tip (take ?k hs)) ?new = Some (chain_tip hs)"
      by (rule follow_chain_drop[OF assms(3) fork_point(1)])
    show "chain_tip (take ?k hs) = all_zeros \<or> header_by_blockhash hl (chain_tip (take ?k hs)) \<noteq> None"
    proof (cases "?k = 0")
      case False
      then have "take ?k (headers hl) \<noteq> []" using assms(2) by simp
      then have "last (take ?k (headers hl)) \<in> set (headers hl)"
        by (meson in_set_takeD last_in_set)
      then have "header_by_blockhash hl (hash (last (take ?k (headers hl)))) =
          Some (last (take ?k (headers hl)))"
        by (simp add: header_by_blockhash_iff[OF assms(1)])
      moreover have "chain_tip (take ?k hs) = hash (last (take ?k (headers hl)))"
        using \<open>take ?k (headers hl) \<noteq> []\<close> fork_point(3)[of hs "headers hl"]
        by (metis chain_tip_simps(2))
      ultimately have "header_by_blockhash hl (chain_tip (take ?k hs)) \<noteq> None" by simp
      then show ?thesis by simp
    qed simp
    show "\<forall>h \<in> set ?new. ?bh h \<noteq> all_zeros \<and> header_by_blockhash hl (?bh h) = None"
      using nth chain_hash_nonnull[OF assms(3) cf] unknown_above_fork[OF assms(3,1,4)] by metis
    show "\<forall>h \<in> set ?new. \<forall>d'. network d' = network d \<longrightarrow> fst (getblockheader J C rpc (?bh h) d') = Ok h"
      using nth assms(5) by (metis nth_mem serves_chain_def)
  qed simp_all
  with assms(2) show ?thesis by (auto simp: get_new_headers_def)
qed

text \<open>
  C19: the incremental download terminates and is exact. Against a node that serves a
  well-formed chain, a client with a non-empty well-formed list gets precisely the headers of
  that chain above the fork point, oldest first: none when the node's tip is already listed,
  and across a reorganisation exactly the new branch.
\<close>

theorem get_new_headers_exact:
  assumes "wf_list (block_hash_of C) hl" and "headers hl \<noteq> []"
    and "wf_headers (block_hash_of C) hs"
    and "collision_free (block_hash_of C) (header ` (set hs \<union> set (headers hl)))"
    and "serves_chain J C rpc (network d) hs"
  shows "\<exists>d'. get_new_headers J C rpc hl (chain_tip hs) d =
     Some (Ok (map header (drop (fork_point hs (headers hl)) hs)), d') \<and> network d' = network d"
  using assms by (rule get_new_headers_from_fork)

definition node_chain :: "header_entry list" where
  "node_chain = [sample_entry 0 0 1 0, sample_entry 1 1 2 0, sample_entry 2 2 3 0]"

definition forked_list :: header_list where
  "forked_list = \<lparr>headers = [sample_entry 0 0 1 0, sample_entry 1 1 5 0],
     heights = [1 \<mapsto> 0, 5 \<mapsto> 1], tip = 5\<rparr>"

lemma node_chain_served:
  "serves_chain json_serde byte_codec (sample_node (map header node_chain)) Regtest node_chain"
  by (auto simp: serves_chain_def getblockheader_def request_def handle_request_batch_def
      counter_next_def chunks_small make_request_def parse_jsonrpc_reply_def sample_node_defs
      header_of_network_def header_from_value_def seq_def sample_defs node_chain_def)

lemma wf_node_chain: "wf_headers sample_bh node_chain"
proof -
  have all3: "(\<forall>i < Suc (Suc (Suc 0)). P i) \<longleftrightarrow> P 0 \<and> P (Suc 0) \<and> P (Suc (Suc 0))" for P
    by (auto simp: less_Suc_eq)
  show ?thesis by (simp add: wf_headers_def node_chain_def sample_defs all3)
qed

lemma wf_forked_list: "wf_list sample_bh forked_list"
proof -
  have all2: "(\<forall>i < Suc (Suc 0). P i) \<longleftrightarrow> P 0 \<and> P (Suc 0)" for P
    by (auto simp: less_Suc_eq)
  show ?thesis by (simp add: wf_list_def wf_headers_def forked_list_def sample_defs all2)
qed

lemma sample_fork_point: "fork_point node_chain (headers forked_list) = 1"
proof -
  let ?k = "fork_point node_chain (headers forked_list)"
  have "1 \<le> ?k"
    by (rule fork_point(4)) (simp_all add: node_chain_def forked_list_def)
  moreover have "?k \<le> 2"
    using fork_point(2)[of node_chain "headers forked_list"] by (simp add: forked_list_def)
  moreover have "?k \<noteq> 2"
    using fork_point(3)[of node_chain "headers forked_list"]
    by (auto simp: node_chain_def forked_list_def sample_defs)
  ultimately show ?thesis by simp
qed

lemma sample_collision_free:
  "collision_free sample_bh (header ` (set node_chain \<union> set (headers forked_list)))"
  by (auto simp: collision_free_def inj_on_def node_chain_def forked_list_def sample_defs)

theorem get_new_headers_exact_witness:
  "\<exists>d'. get_new_headers json_serde byte_codec (sample_node (map header node_chain)) forked_list 3
       sample_daemon = Some (Ok [sample_header 1 2 0, sample_header 2 3 0], d') \<and>
     network d' = Regtest"
proof -
  have bh: "block_hash_of byte_codec = sample_bh" by (simp add: byte_codec_def)
  have tip: "chain_tip node_chain = 3" by (simp add: node_chain_def chain_tip_def sample_defs)
  have new: "map header (drop 1 node_chain) = [sample_header 1 2 0, sample_header 2 3 0]"
    by (simp add: node_chain_def sample_entry_def)
  show ?thesis
    using get_new_headers_exact[of byte_codec forked_list node_chain json_serde
        "sample_node (map header node_chain)" sample_daemon, unfolded bh tip sample_fork_point new]
      wf_forked_list wf_node_chain sample_collision_free node_chain_served
    by (simp add: forked_list_def sample_daemon_def)
qed

end
