(* ===== verification/Block_Store.thy ===== *)
theory Block_Store
  imports Header_Chain "HOL-Library.Sublist" "HOL-Library.RBT"
begin

text \<open>
  The persistent store of \<open>src/src/store.rs\<close>: rows of a RocksDB database whose values are
  sealed, the scan iterators, the header and done rows, and the \<open>Store\<close> that keeps the
  synced hashes and the header list in memory and can rebuild them from the rows.

  RocksDB, the enclave sealing and the byte encodings come from crates; they are the records
  \<open>rocks\<close> and \<open>store_codec\<close>, and \<open>rocks_ok\<close> and \<open>store_codec_ok\<close> state the documented
  behaviour the store relies on. The last section has concrete instances: a red-black tree and
  the little-endian encodings.
\<close>

subsection \<open>What the store is built on\<close>

type_synonym key_values = "(bytes \<times> bytes) list"

text \<open>
  \<open>r_prefix_iterator\<close> and \<open>r_iterator_from\<close> return what the iterator yields, in order (an item
  may be an I/O error); \<open>r_seek_for_prev\<close> the entries a raw iterator walks through backwards.
  The flags of \<open>r_write\<close> are \<open>set_sync\<close> and \<open>disable_wal\<close>, the one of \<open>r_put\<close> is \<open>set_sync\<close>.
\<close>

datatype compaction = LevelCompaction
datatype compression = NoCompression

record db_options =
  create_if_missing :: bool
  max_open_files :: nat
  compaction_style :: compaction
  compression_type :: compression
  target_file_size_base :: nat
  write_buffer_size :: nat
  disable_auto_compactions :: bool
  compaction_readahead_size :: nat
  parallelism :: nat

record 'db rocks =
  r_open :: "db_options \<Rightarrow> string \<Rightarrow> string + 'db"
  r_get :: "'db \<Rightarrow> bytes \<Rightarrow> string + bytes option"
  r_put :: "'db \<Rightarrow> bytes \<Rightarrow> bytes \<Rightarrow> bool \<Rightarrow> string + 'db"
  r_write :: "'db \<Rightarrow> key_values \<Rightarrow> bool \<Rightarrow> bool \<Rightarrow> string + 'db"
  r_flush :: "'db \<Rightarrow> string + 'db"
  r_compact :: "'db \<Rightarrow> 'db"
  r_set_options :: "'db \<Rightarrow> (string \<times> string) list \<Rightarrow> string + 'db"
  r_prefix_iterator :: "'db \<Rightarrow> bytes \<Rightarrow> (string + bytes \<times> bytes) list"
  r_iterator_from :: "'db \<Rightarrow> bytes \<Rightarrow> (string + bytes \<times> bytes) list"
  r_seek_for_prev :: "'db \<Rightarrow> bytes \<Rightarrow> key_values"

record block_key =
  code :: u8
  key_hash :: bytes

record store_codec =
  hash_bytes :: "block_hash \<Rightarrow> bytes"
  ser_hash :: "block_hash \<Rightarrow> bytes"
  de_hash :: "bytes \<Rightarrow> block_hash option"
  ser_header :: "block_header \<Rightarrow> bytes"
  de_header :: "bytes \<Rightarrow> block_header option"
  ser_version :: "u32 \<Rightarrow> string + bytes"
  ser_key :: "block_key \<Rightarrow> string + bytes"
  de_key :: "bytes \<Rightarrow> string + block_key"
  seal :: "bytes \<Rightarrow> string + bytes"
  unseal :: "bytes \<Rightarrow> string + bytes"

subsection \<open>Rows and iterators\<close>

definition DB_VERSION :: u32 where
  "DB_VERSION = 2"

record db_row =
  row_key :: bytes
  row_value :: bytes

definition seal_data :: "store_codec \<Rightarrow> bytes \<Rightarrow> bytes panicky" where
  "seal_data S value = unwrap_res (seal S value)"

definition unseal_data :: "store_codec \<Rightarrow> bytes \<Rightarrow> bytes panicky" where
  "unseal_data S value = unwrap_res (unseal S value)"

record scan_iterator =
  si_prefix :: bytes
  si_iter :: "(string + bytes \<times> bytes) list"
  si_done :: bool

definition scan_next ::
    "store_codec \<Rightarrow> scan_iterator \<Rightarrow> (db_row option \<times> scan_iterator) panicky" where
  "scan_next S it =
     (if si_done it then Ok (None, it)
      else case si_iter it of
        [] \<Rightarrow> Ok (None, it)
      | Inl _ # rest \<Rightarrow> Ok (None, it\<lparr>si_iter := rest\<rparr>)
      | Inr (key, value) # rest \<Rightarrow>
          (if \<not> prefix (si_prefix it) key
           then Ok (None, it\<lparr>si_iter := rest, si_done := True\<rparr>)
           else and_then (unseal_data S value)
             (\<lambda>v. Ok (Some \<lparr>row_key = key, row_value = v\<rparr>, it\<lparr>si_iter := rest\<rparr>))))"

text \<open>\<open>Iterator::collect\<close>: rows until the first \<open>None\<close>.\<close>

function scan_collect :: "store_codec \<Rightarrow> scan_iterator \<Rightarrow> db_row list panicky" where
  "scan_collect S it =
     (case scan_next S it of
        Ok (None, _) \<Rightarrow> Ok []
      | Ok (Some row, it') \<Rightarrow> and_then (scan_collect S it') (\<lambda>rows. Ok (row # rows))
      | Err e \<Rightarrow> Err e
      | Panic p \<Rightarrow> Panic p)"
  by pat_completeness auto
termination
proof (relation "measure (\<lambda>(_, it). length (si_iter it))")
  fix S it x a and it' :: scan_iterator and row
  assume "scan_next S it = Ok x" "(a, it') = x" "a = Some row"
  then show "((S, it'), S, it) \<in> measure (\<lambda>(_, it). length (si_iter it))"
    by (auto simp: scan_next_def outcome_simps split: if_splits list.splits sum.splits prod.splits)
qed simp

declare scan_collect.simps [simp del]

record reverse_scan_iterator =
  rev_prefix :: bytes
  rev_iter :: key_values
  rev_done :: bool

definition reverse_scan_next ::
    "store_codec \<Rightarrow> reverse_scan_iterator \<Rightarrow> (db_row option \<times> reverse_scan_iterator) panicky" where
  "reverse_scan_next S it =
     (if rev_done it then Ok (None, it)
      else case rev_iter it of
        [] \<Rightarrow> Ok (None, it)
      | (key, value) # rest \<Rightarrow>
          (if \<not> prefix (rev_prefix it) key then Ok (None, it\<lparr>rev_done := True\<rparr>)
           else and_then (unseal_data S value)
             (\<lambda>v. Ok (Some \<lparr>row_key = key, row_value = v\<rparr>, it\<lparr>rev_iter := rest\<rparr>))))"

subsection \<open>The database\<close>

datatype flush_mode = FlushDisable | FlushEnable

text \<open>An operation of the database that is unwrapped: a failure panics, nothing is changed.\<close>

definition unwrap_io :: "('db \<Rightarrow> string + 'db) \<Rightarrow> ('db, unit, unit) action" where
  "unwrap_io f db = (case f db of Inl _ \<Rightarrow> (Panic UnwrapFailed, db) | Inr db' \<Rightarrow> (Ok (), db'))"

definition iter_scan :: "'db rocks \<Rightarrow> 'db \<Rightarrow> bytes \<Rightarrow> scan_iterator" where
  "iter_scan R db p = \<lparr>si_prefix = p, si_iter = r_prefix_iterator R db p, si_done = False\<rparr>"

definition iter_scan_from :: "'db rocks \<Rightarrow> 'db \<Rightarrow> bytes \<Rightarrow> bytes \<Rightarrow> scan_iterator" where
  "iter_scan_from R db p start_at =
     \<lparr>si_prefix = p, si_iter = r_iterator_from R db start_at, si_done = False\<rparr>"

definition iter_scan_reverse :: "'db rocks \<Rightarrow> 'db \<Rightarrow> bytes \<Rightarrow> bytes \<Rightarrow> reverse_scan_iterator" where
  "iter_scan_reverse R db p prefix_max =
     \<lparr>rev_prefix = p, rev_iter = r_seek_for_prev R db prefix_max, rev_done = False\<rparr>"

text \<open>
  \<open>DB::write\<close>: the rows sorted by key (rows with equal keys in either order, here the given
  one), each value sealed, one batch.
\<close>

definition db_write ::
    "'db rocks \<Rightarrow> store_codec \<Rightarrow> db_row list \<Rightarrow> flush_mode \<Rightarrow> ('db, unit, unit) action" where
  "db_write R S rows flush =
     (let do_flush = (case flush of FlushEnable \<Rightarrow> True | FlushDisable \<Rightarrow> False) in
      seq (lift (try_map (\<lambda>row. and_then (seal_data S (row_value row)) (\<lambda>v. Ok (row_key row, v)))
                   (sort_key row_key rows)))
        (\<lambda>batch. unwrap_io (\<lambda>db. r_write R db batch do_flush (\<not> do_flush))))"

definition db_flush :: "'db rocks \<Rightarrow> ('db, unit, unit) action" where
  "db_flush R = unwrap_io (r_flush R)"

definition db_put :: "'db rocks \<Rightarrow> store_codec \<Rightarrow> bytes \<Rightarrow> bytes \<Rightarrow> ('db, unit, unit) action" where
  "db_put R S key value =
     seq (lift (seal_data S value)) (\<lambda>v. unwrap_io (\<lambda>db. r_put R db key v False))"

definition db_put_sync ::
    "'db rocks \<Rightarrow> store_codec \<Rightarrow> bytes \<Rightarrow> bytes \<Rightarrow> ('db, unit, unit) action" where
  "db_put_sync R S key value =
     seq (lift (seal_data S value)) (\<lambda>v. unwrap_io (\<lambda>db. r_put R db key v True))"

definition db_get :: "'db rocks \<Rightarrow> store_codec \<Rightarrow> 'db \<Rightarrow> bytes \<Rightarrow> bytes option panicky" where
  "db_get R S db key =
     and_then (unwrap_res (r_get R db key))
       (\<lambda>found. case found of None \<Rightarrow> Ok None
                 | Some v \<Rightarrow> and_then (unseal_data S v) (\<lambda>w. Ok (Some w)))"

definition version_key :: bytes where
  "version_key = [86]"

definition tip_key :: bytes where
  "tip_key = [116]"

definition verify_compatibility :: "'db rocks \<Rightarrow> store_codec \<Rightarrow> ('db, unit, unit) action" where
  "verify_compatibility R S =
     seq (lift (unwrap_res (ser_version S DB_VERSION))) (\<lambda>compatibility_bytes.
     seq (\<lambda>db. (db_get R S db version_key, db)) (\<lambda>found.
       case found of
         None \<Rightarrow> db_put R S version_key compatibility_bytes
       | Some x \<Rightarrow> if x \<noteq> compatibility_bytes then lift (Panic Incompatible) else ret ()))"

definition raw_db_options :: db_options where
  "raw_db_options = \<lparr>create_if_missing = True, max_open_files = 10000, compaction_style = LevelCompaction,
     compression_type = NoCompression, target_file_size_base = 0x16000000, write_buffer_size = 0x16000000,
     disable_auto_compactions = True, compaction_readahead_size = push_bit 20 1, parallelism = 2\<rparr>"

definition open_raw_db :: "'db rocks \<Rightarrow> string \<Rightarrow> 'db panicky" where
  "open_raw_db R path = unwrap_res (r_open R raw_db_options path)"

definition db_open :: "'db rocks \<Rightarrow> store_codec \<Rightarrow> string \<Rightarrow> 'db panicky" where
  "db_open R S path =
     and_then (open_raw_db R path)
       (\<lambda>db. let (r, db') = verify_compatibility R S db in and_then r (\<lambda>_. Ok db'))"

definition db_full_compaction :: "'db rocks \<Rightarrow> ('db, unit, unit) action" where
  "db_full_compaction R db = (Ok (), r_compact R db)"

definition enable_auto_compaction :: "'db rocks \<Rightarrow> ('db, unit, unit) action" where
  "enable_auto_compaction R =
     unwrap_io (\<lambda>db. r_set_options R db [(''disable_auto_compactions'', ''false'')])"

subsection \<open>Block rows\<close>

definition full_hash :: "bytes \<Rightarrow> bytes panicky" where
  "full_hash h = (if length h < 32 then Panic IndexOutOfBounds else Ok (take 32 h))"

record block_row =
  br_key :: block_key
  br_value :: bytes

definition header_sync_filter :: bytes where
  "header_sync_filter = [98]"

definition header_filter :: bytes where
  "header_filter = [66]"

definition done_filter :: bytes where
  "done_filter = [68]"

definition txids_key :: "bytes \<Rightarrow> bytes" where
  "txids_key h = [88] @ h"

definition meta_key :: "bytes \<Rightarrow> bytes" where
  "meta_key h = [77] @ h"

text \<open>\<open>new_header\<close> takes the entry and the header of the block the entry belongs to.\<close>

definition new_header :: "store_codec \<Rightarrow> header_entry \<Rightarrow> block_header \<Rightarrow> block_row panicky" where
  "new_header S entry block_hdr =
     and_then (full_hash (hash_bytes S (hash entry)))
       (\<lambda>h. Ok \<lparr>br_key = \<lparr>code = 66, key_hash = h\<rparr>, br_value = ser_header S block_hdr\<rparr>)"

definition first_sync_header :: "store_codec \<Rightarrow> header_entry \<Rightarrow> block_row panicky" where
  "first_sync_header S header_entry =
     and_then (full_hash (hash_bytes S (hash header_entry)))
       (\<lambda>h. Ok \<lparr>br_key = \<lparr>code = 98, key_hash = h\<rparr>, br_value = ser_header S (header header_entry)\<rparr>)"

definition new_done :: "bytes \<Rightarrow> block_row" where
  "new_done h = \<lparr>br_key = \<lparr>code = 68, key_hash = h\<rparr>, br_value = []\<rparr>"

definition into_row :: "store_codec \<Rightarrow> block_row \<Rightarrow> db_row panicky" where
  "into_row S r =
     and_then (unwrap_res (ser_key S (br_key r))) (\<lambda>k. Ok \<lparr>row_key = k, row_value = br_value r\<rparr>)"

definition from_row :: "store_codec \<Rightarrow> db_row \<Rightarrow> block_row panicky" where
  "from_row S row =
     and_then (unwrap_res (de_key S (row_key row))) (\<lambda>k. Ok \<lparr>br_key = k, br_value = row_value row\<rparr>)"

text \<open>\<open>add_sync_headers\<close>: a header row and a done row per entry.\<close>

fun add_sync_headers :: "store_codec \<Rightarrow> header_entry list \<Rightarrow> db_row list panicky" where
  "add_sync_headers S [] = Ok []"
| "add_sync_headers S (v # vs) =
     and_then (full_hash (hash_bytes S (hash v))) (\<lambda>bhash.
     and_then (and_then (first_sync_header S v) (into_row S)) (\<lambda>row1.
     and_then (into_row S (new_done bhash)) (\<lambda>row2.
     and_then (add_sync_headers S vs) (\<lambda>rows. Ok (row1 # row2 # rows)))))"

subsection \<open>The store\<close>

text \<open>
  \<open>reload\<close> is the global flag \<open>RELOAD\<close>. The two locks of the source are taken one after the
  other by the single writer; the record holds what they protect.
\<close>

record 'db store =
  sync_db :: 'db
  synced_blockhashes :: "block_hash set"
  sync_headers :: header_list
  reload :: bool

definition load_blockhashes ::
    "'db rocks \<Rightarrow> store_codec \<Rightarrow> 'db \<Rightarrow> bytes \<Rightarrow> block_hash set panicky" where
  "load_blockhashes R S db p =
     and_then (scan_collect S (iter_scan R db p)) (\<lambda>rows.
     and_then (try_map (\<lambda>row. and_then (from_row S row)
                 (\<lambda>r. unwrap_opt (de_hash S (key_hash (br_key r))))) rows) (\<lambda>hs.
     Ok (set hs)))"

text \<open>The \<open>HashMap\<close> of the headers; a later row overrides an earlier one with the same hash.\<close>

definition load_sync_blockheaders ::
    "'db rocks \<Rightarrow> store_codec \<Rightarrow> 'db \<Rightarrow> (block_hash \<times> block_header) list panicky" where
  "load_sync_blockheaders R S db =
     and_then (scan_collect S (iter_scan R db header_sync_filter)) (\<lambda>rows.
     and_then (try_map (\<lambda>row. and_then (from_row S row) (\<lambda>r.
                 and_then (unwrap_opt (de_hash S (key_hash (br_key r)))) (\<lambda>key.
                 and_then (unwrap_opt (de_header S (br_value r))) (\<lambda>value. Ok (key, value))))) rows)
       (\<lambda>kvs. Ok (rev kvs)))"

text \<open>What \<open>Store::open\<close> and \<open>reload_store\<close> read from the rows.\<close>

definition load_state ::
    "(block_header \<Rightarrow> block_hash) \<Rightarrow> 'db rocks \<Rightarrow> store_codec \<Rightarrow> 'db
      \<Rightarrow> (block_hash set \<times> header_list) panicky" where
  "load_state bh R S db =
     and_then (load_blockhashes R S db done_filter) (\<lambda>synced.
     and_then (db_get R S db tip_key) (\<lambda>found.
       case found of
         None \<Rightarrow> Ok (synced, empty_list)
       | Some tip_bytes \<Rightarrow>
           and_then (unwrap_opt (de_hash S tip_bytes)) (\<lambda>tip_hash.
           and_then (load_sync_blockheaders R S db) (\<lambda>headers_map.
           and_then (new_list bh headers_map tip_hash) (\<lambda>hl. Ok (synced, hl))))))"

definition store_open ::
    "(block_header \<Rightarrow> block_hash) \<Rightarrow> 'db rocks \<Rightarrow> store_codec \<Rightarrow> string \<Rightarrow> 'db store panicky" where
  "store_open bh R S path =
     and_then (db_open R S (path @ ''/sync'')) (\<lambda>db.
     and_then (load_state bh R S db) (\<lambda>(synced, hl).
     Ok \<lparr>sync_db = db, synced_blockhashes = synced, sync_headers = hl, reload = False\<rparr>))"

definition reload_store ::
    "(block_header \<Rightarrow> block_hash) \<Rightarrow> 'db rocks \<Rightarrow> store_codec \<Rightarrow> ('db store, unit, unit) action" where
  "reload_store bh R S =
     seq (\<lambda>st. (Ok (), st\<lparr>reload := True\<rparr>)) (\<lambda>_.
     seq (\<lambda>st. (load_state bh R S (sync_db st), st)) (\<lambda>(synced, hl).
     seq (\<lambda>st. (Ok (), st\<lparr>synced_blockhashes := synced, sync_headers := hl\<rparr>)) (\<lambda>_ st.
       (Ok (), st\<lparr>reload := False\<rparr>))))"

text \<open>A database operation of the store.\<close>

definition with_db :: "('db, unit, 'a) action \<Rightarrow> ('db store, unit, 'a) action" where
  "with_db f st = (let (r, db') = f (sync_db st) in (r, st\<lparr>sync_db := db'\<rparr>))"

definition store_full_compaction :: "'db rocks \<Rightarrow> ('db store, unit, unit) action" where
  "store_full_compaction R =
     seq (with_db (db_full_compaction R)) (\<lambda>_. with_db (enable_auto_compaction R))"

subsection \<open>What the store relies on\<close>

text \<open>
  RocksDB is a sorted map: \<open>view\<close> is its content. No operation fails, a batch is written in
  order, and an iterator from a prefix yields the entries from it on, in the order of the keys.
\<close>

definition rocks_ok :: "'db rocks \<Rightarrow> ('db \<Rightarrow> bytes \<Rightarrow> bytes option) \<Rightarrow> bool" where
  "rocks_ok R view \<longleftrightarrow>
     (\<forall>db k. r_get R db k = Inr (view db k)) \<and>
     (\<forall>db k v s. \<exists>db'. r_put R db k v s = Inr db' \<and> view db' = (view db)(k \<mapsto> v)) \<and>
     (\<forall>db kvs s w. \<exists>db'. r_write R db kvs s w = Inr db' \<and> view db' = view db ++ map_of (rev kvs)) \<and>
     (\<forall>db p. \<exists>kvs. r_prefix_iterator R db p = map Inr kvs \<and> sorted_wrt (<) (map fst kvs) \<and>
        (\<forall>k v. (k, v) \<in> set kvs \<longleftrightarrow> view db k = Some v \<and> p \<le> k))"

text \<open>Sealing and the encodings are undone by their counterparts; a key starts with its code.\<close>

definition store_codec_ok :: "store_codec \<Rightarrow> bool" where
  "store_codec_ok S \<longleftrightarrow>
     (\<forall>v. \<exists>w. seal S v = Inr w \<and> unseal S w = Inr v) \<and>
     (\<forall>h. length (hash_bytes S h) = 32 \<and> de_hash S (hash_bytes S h) = Some h \<and>
          de_hash S (ser_hash S h) = Some h) \<and>
     (\<forall>h. de_header S (ser_header S h) = Some h) \<and>
     (\<forall>c h. length h = 32 \<longrightarrow>
        (\<exists>k. ser_key S \<lparr>code = c, key_hash = h\<rparr> = Inr (c # k) \<and>
             de_key S (c # k) = Inr \<lparr>code = c, key_hash = h\<rparr>))"

text \<open>What is stored, unsealed: every value of the database was sealed by the program.\<close>

definition plain :: "store_codec \<Rightarrow> ('db \<Rightarrow> bytes \<Rightarrow> bytes option) \<Rightarrow> 'db \<Rightarrow> bytes \<Rightarrow> bytes option" where
  "plain S view db k =
     (case view db k of None \<Rightarrow> None
      | Some v \<Rightarrow> (case unseal S v of Inl _ \<Rightarrow> None | Inr w \<Rightarrow> Some w))"

definition db_inv ::
    "'db rocks \<Rightarrow> store_codec \<Rightarrow> ('db \<Rightarrow> bytes \<Rightarrow> bytes option) \<Rightarrow> 'db \<Rightarrow> bool" where
  "db_inv R S view db \<longleftrightarrow>
     rocks_ok R view \<and> store_codec_ok S \<and> (\<forall>k v. view db k = Some v \<longrightarrow> (\<exists>w. unseal S v = Inr w))"

text \<open>The rows of a write, as an update of a map; rows with one key carry one value.\<close>

definition row_map :: "db_row list \<Rightarrow> bytes \<Rightarrow> bytes option" where
  "row_map rows = map_of (map (\<lambda>r. (row_key r, row_value r)) rows)"

definition consistent :: "db_row list \<Rightarrow> bool" where
  "consistent rows \<longleftrightarrow>
     (\<forall>r \<in> set rows. \<forall>r' \<in> set rows. row_key r = row_key r' \<longrightarrow> row_value r = row_value r')"

lemma row_map_Some:
  assumes "consistent rows"
  shows "row_map rows k = Some v \<longleftrightarrow> (\<exists>r \<in> set rows. row_key r = k \<and> row_value r = v)"
proof
  assume "row_map rows k = Some v"
  then show "\<exists>r \<in> set rows. row_key r = k \<and> row_value r = v"
    unfolding row_map_def by (auto dest!: map_of_SomeD)
next
  assume "\<exists>r \<in> set rows. row_key r = k \<and> row_value r = v"
  then obtain r where r: "r \<in> set rows" "row_key r = k" "row_value r = v" by blast
  then obtain v' where v': "row_map rows k = Some v'"
    by (cases "row_map rows k") (force simp: row_map_def map_of_eq_None_iff)+
  then obtain r' where "r' \<in> set rows" "row_key r' = k" "row_value r' = v'"
    unfolding row_map_def by (auto dest!: map_of_SomeD)
  with r assms have "v' = v" unfolding consistent_def by metis
  with v' show "row_map rows k = Some v" by simp
qed

lemma row_map_None: "row_map rows k = None \<longleftrightarrow> k \<notin> row_key ` set rows"
  unfolding row_map_def by (simp add: map_of_eq_None_iff image_image)

lemma row_map_same_set:
  assumes "consistent rows" and "set rows' = set rows"
  shows "row_map rows' = row_map rows"
proof
  fix k
  have c: "consistent rows'" using assms unfolding consistent_def by metis
  show "row_map rows' k = row_map rows k"
  proof (cases "row_map rows k")
    case None
    then have "row_map rows' k = None" unfolding row_map_None assms(2) .
    with None show ?thesis by simp
  next
    case (Some v)
    then have "row_map rows' k = Some v"
      unfolding row_map_Some[OF assms(1)] row_map_Some[OF c] assms(2) .
    with Some show ?thesis by simp
  qed
qed

lemma row_map_append: "row_map (xs @ ys) = row_map ys ++ row_map xs"
  by (simp add: row_map_def)

lemma consistent_append: "consistent (xs @ ys) \<Longrightarrow> consistent xs \<and> consistent ys"
  by (simp add: consistent_def)

text \<open>The interface the store and the indexer use of the database.\<close>

locale row_store =
  fixes get :: "'db \<Rightarrow> bytes \<Rightarrow> bytes option panicky"
    and put :: "bytes \<Rightarrow> bytes \<Rightarrow> ('db, unit, unit) action"
    and put_rows :: "db_row list \<Rightarrow> ('db, unit, unit) action"
    and scan :: "'db \<Rightarrow> bytes \<Rightarrow> db_row list panicky"
    and abs :: "'db \<Rightarrow> bytes \<Rightarrow> bytes option"
    and inv :: "'db \<Rightarrow> bool"
  assumes get_abs: "inv db \<Longrightarrow> get db k = Ok (abs db k)"
    and put_abs: "inv db \<Longrightarrow> \<exists>db'. put k v db = (Ok (), db') \<and> inv db' \<and> abs db' = (abs db)(k \<mapsto> v)"
    and write_abs: "inv db \<Longrightarrow> consistent rows \<Longrightarrow>
      \<exists>db'. put_rows rows db = (Ok (), db') \<and> inv db' \<and> abs db' = abs db ++ row_map rows"
    and scan_abs: "inv db \<Longrightarrow>
      \<exists>rows. scan db p = Ok rows \<and> distinct (map row_key rows) \<and>
        (\<forall>k v. \<lparr>row_key = k, row_value = v\<rparr> \<in> set rows \<longleftrightarrow> abs db k = Some v \<and> prefix p k)"
begin

lemma get_put:
  assumes "inv db" and "put k v db = (r, db')"
  shows "get db' k' = Ok (if k' = k then Some v else abs db k')"
  using put_abs[OF assms(1), of k v] assms(2) get_abs by auto

text \<open>Writing a list of batches one after the other.\<close>

lemma write_all:
  assumes "inv db" and "consistent (concat batches)"
    and "write_list [] = ret ()"
    and "\<And>b bs. write_list (b # bs) = seq (put_rows b) (\<lambda>_. write_list bs)"
  shows "\<exists>db'. write_list batches db = (Ok (), db') \<and> inv db' \<and>
    abs db' = abs db ++ row_map (concat batches)"
  using assms(1,2)
proof (induction batches arbitrary: db)
  case Nil
  then show ?case by (simp add: assms(3) row_map_def)
next
  case (Cons b bs)
  have c: "consistent b" "consistent (concat bs)"
    using Cons.prems(2) consistent_append[of b "concat bs"] by simp_all
  obtain db1 where db1: "put_rows b db = (Ok (), db1)" "inv db1" "abs db1 = abs db ++ row_map b"
    using write_abs[OF Cons.prems(1) c(1)] by blast
  obtain db2 where db2: "write_list bs db1 = (Ok (), db2)" "inv db2"
    "abs db2 = abs db1 ++ row_map (concat bs)"
    using Cons.IH[OF db1(2) c(2)] by blast
  have swap: "row_map (concat (b # bs)) = row_map b ++ row_map (concat bs)"
  proof -
    have "row_map (concat bs @ b) = row_map (b @ concat bs)"
      by (rule row_map_same_set) (use Cons.prems(2) in auto)
    then show ?thesis by (simp add: row_map_append)
  qed
  have "abs db2 = abs db ++ row_map (concat (b # bs))"
    unfolding swap using db1(3) db2(3) by simp
  with db1(1) db2(1,2) show ?case by (simp add: assms(4))
qed

end

lemma rocks_okD:
  assumes "rocks_ok R view"
  shows "r_get R db k = Inr (view db k)"
    and "\<exists>db'. r_put R db k v s = Inr db' \<and> view db' = (view db)(k \<mapsto> v)"
    and "\<exists>db'. r_write R db kvs s w = Inr db' \<and> view db' = view db ++ map_of (rev kvs)"
    and "\<exists>kvs. r_prefix_iterator R db p = map Inr kvs \<and> sorted_wrt (<) (map fst kvs) \<and>
        (\<forall>k v. (k, v) \<in> set kvs \<longleftrightarrow> view db k = Some v \<and> p \<le> k)"
  using assms by (simp_all add: rocks_ok_def)

lemma store_codec_okD:
  assumes "store_codec_ok S"
  shows "\<exists>w. seal S v = Inr w \<and> unseal S w = Inr v"
    and "length (hash_bytes S h) = 32" and "de_hash S (hash_bytes S h) = Some h"
    and "de_hash S (ser_hash S h) = Some h" and "de_header S (ser_header S x) = Some x"
    and "length b = 32 \<Longrightarrow> \<exists>k. ser_key S \<lparr>code = c, key_hash = b\<rparr> = Inr (c # k) \<and>
             de_key S (c # k) = Inr \<lparr>code = c, key_hash = b\<rparr>"
  using assms by (simp_all add: store_codec_ok_def)

lemma prefix_le: "prefix p k \<Longrightarrow> p \<le> (k :: u8 list)"
proof (induction p arbitrary: k)
  case (Cons x p)
  then show ?case by (cases k) auto
qed simp

lemma prefix_convex:
  fixes p :: "u8 list"
  assumes "p \<le> k" and "k \<le> k'" and "prefix p k'"
  shows "prefix p k"
  using assms
proof (induction p arbitrary: k k')
  case (Cons x p)
  obtain y k1 where k: "k = y # k1" using Cons.prems(1) by (cases k) auto
  obtain k1' where k': "k' = x # k1'" "prefix p k1'" using Cons.prems(3) by (cases k') auto
  with Cons.prems(1,2) k have "y = x" "p \<le> k1" "k1 \<le> k1'" by auto
  with Cons.IH[of k1 k1'] k k'(2) show ?case by simp
qed simp

subsection \<open>The database operations implement the interface\<close>

lemma scan_collect_sorted:
  assumes "sorted_wrt (<) (map fst kvs)" and "\<forall>(k, v) \<in> set kvs. p \<le> k"
    and "\<forall>(k, v) \<in> set kvs. unseal S v = Inr (f v)"
  shows "scan_collect S \<lparr>si_prefix = p, si_iter = map Inr kvs, si_done = False\<rparr> =
     Ok (map (\<lambda>(k, v). \<lparr>row_key = k, row_value = f v\<rparr>) (filter (\<lambda>(k, v). prefix p k) kvs))"
  using assms
proof (induction kvs)
  case Nil
  then show ?case by (simp add: scan_collect.simps scan_next_def)
next
  case (Cons kv kvs)
  obtain k v where kv: "kv = (k, v)" by (cases kv)
  show ?case
  proof (cases "prefix p k")
    case True
    with Cons kv show ?thesis
      by (subst scan_collect.simps) (simp add: scan_next_def unseal_data_def)
  next
    case False
    have "\<not> prefix p k'" if "(k', v') \<in> set kvs" for k' v'
    proof
      assume "prefix p k'"
      moreover have "k \<le> k'" using Cons.prems(1) kv that by force
      ultimately have "prefix p k" using Cons.prems(2) kv by (auto intro: prefix_convex)
      with False show False by simp
    qed
    then have "filter (\<lambda>(k, v). prefix p k) kvs = []" by (auto simp: filter_empty_conv)
    with False kv show ?thesis
      by (subst scan_collect.simps) (simp add: scan_next_def)
  qed
qed

lemma db_get_plain:
  assumes "db_inv R S view db"
  shows "db_get R S db k = Ok (plain S view db k)"
  using assms rocks_okD(1)[of R view db k]
  by (auto simp: db_inv_def db_get_def plain_def unseal_data_def split: option.splits)
    (metis unwrap_res.simps(2) and_then.simps(1) sum.simps(6))

lemma plain_update:
  assumes "view db' = (view db)(k \<mapsto> w)" and "unseal S w = Inr v"
  shows "plain S view db' = (plain S view db)(k \<mapsto> v)"
  using assms by (auto simp: plain_def)

lemma db_put_plain:
  assumes "db_inv R S view db"
  shows "\<exists>db'. db_put R S k v db = (Ok (), db') \<and> db_inv R S view db' \<and>
      plain S view db' = (plain S view db)(k \<mapsto> v)"
    and "\<exists>db'. db_put_sync R S k v db = (Ok (), db') \<and> db_inv R S view db' \<and>
      plain S view db' = (plain S view db)(k \<mapsto> v)"
proof -
  have ok: "rocks_ok R view" "store_codec_ok S" using assms by (simp_all add: db_inv_def)
  obtain w where w: "seal S v = Inr w" "unseal S w = Inr v" using store_codec_okD(1)[OF ok(2)] by blast
  have put: "\<exists>db'. r_put R db k w s = Inr db' \<and> db_inv R S view db' \<and>
      plain S view db' = (plain S view db)(k \<mapsto> v)" for s
  proof -
    obtain db' where db': "r_put R db k w s = Inr db'" "view db' = (view db)(k \<mapsto> w)"
      using rocks_okD(2)[OF ok(1)] by blast
    with assms w have "db_inv R S view db'" by (auto simp: db_inv_def)
    with db' w(2) show ?thesis by (auto simp: plain_update)
  qed
  from put[of False] w(1) show "\<exists>db'. db_put R S k v db = (Ok (), db') \<and> db_inv R S view db' \<and>
      plain S view db' = (plain S view db)(k \<mapsto> v)"
    by (auto simp: db_put_def seal_data_def unwrap_io_def seq_def)
  from put[of True] w(1) show "\<exists>db'. db_put_sync R S k v db = (Ok (), db') \<and> db_inv R S view db' \<and>
      plain S view db' = (plain S view db)(k \<mapsto> v)"
    by (auto simp: db_put_sync_def seal_data_def unwrap_io_def seq_def)
qed

lemma map_of_map_value:
  "map_of (map (\<lambda>r. (g r, f (h r))) rs) = (\<lambda>k. map_option f (map_of (map (\<lambda>r. (g r, h r)) rs) k))"
  by (induction rs) auto

lemma db_write_plain:
  assumes "db_inv R S view db" and "consistent rows"
  shows "\<exists>db'. db_write R S rows fl db = (Ok (), db') \<and> db_inv R S view db' \<and>
      plain S view db' = plain S view db ++ row_map rows"
proof -
  have ok: "rocks_ok R view" "store_codec_ok S" using assms by (simp_all add: db_inv_def)
  obtain f where f: "\<And>v. seal S v = Inr (f v) \<and> unseal S (f v) = Inr v"
    using store_codec_okD(1)[OF ok(2)] by metis
  let ?sorted = "sort_key row_key rows"
  let ?batch = "map (\<lambda>r. (row_key r, f (row_value r))) ?sorted"
  let ?do = "case fl of FlushEnable \<Rightarrow> True | FlushDisable \<Rightarrow> False"
  have batch: "try_map (\<lambda>row. and_then (seal_data S (row_value row)) (\<lambda>v. Ok (row_key row, v))) ?sorted =
      (Ok ?batch :: (bytes \<times> bytes) list panicky)"
    by (rule try_map_Ok) (use f in \<open>simp add: seal_data_def\<close>)
  obtain db' where db': "r_write R db ?batch ?do (\<not> ?do) = Inr db'"
    "view db' = view db ++ map_of (rev ?batch)"
    using rocks_okD(3)[OF ok(1)] by blast
  have one: "map_of (rev ?batch) k = map_option f (row_map rows k)" for k
  proof -
    have "map_of (rev ?batch) = (\<lambda>k. map_option f (map_of (map (\<lambda>r. (row_key r, row_value r)) (rev ?sorted)) k))"
      unfolding rev_map by (rule map_of_map_value)
    then have "map_of (rev ?batch) k = map_option f (row_map (rev ?sorted) k)"
      by (simp add: row_map_def)
    moreover have "row_map (rev ?sorted) = row_map rows"
      by (rule row_map_same_set) (use assms(2) in auto)
    ultimately show ?thesis by simp
  qed
  have "plain S view db' k = (plain S view db ++ row_map rows) k" for k
    using db'(2) one[of k] f
    by (auto simp: plain_def map_add_def split: option.splits)
  moreover have "db_inv R S view db'"
    using assms(1) db'(2) one f by (auto simp: db_inv_def map_add_def split: option.splits)
  moreover have "db_write R S rows fl db = (Ok (), db')"
    using batch db'(1) by (simp add: db_write_def Let_def unwrap_io_def)
  ultimately show ?thesis by blast
qed

lemma db_scan_plain:
  assumes "db_inv R S view db"
  shows "\<exists>rows. scan_collect S (iter_scan R db p) = Ok rows \<and> distinct (map row_key rows) \<and>
        (\<forall>k v. \<lparr>row_key = k, row_value = v\<rparr> \<in> set rows \<longleftrightarrow> plain S view db k = Some v \<and> prefix p k)"
proof -
  have ok: "rocks_ok R view" using assms by (simp add: db_inv_def)
  obtain kvs where kvs: "r_prefix_iterator R db p = map Inr kvs" "sorted_wrt (<) (map fst kvs)"
    "\<And>k v. (k, v) \<in> set kvs \<longleftrightarrow> view db k = Some v \<and> p \<le> k"
    using rocks_okD(4)[OF ok] by blast
  define f where "f v = (case unseal S v of Inr w \<Rightarrow> w | Inl _ \<Rightarrow> [])" for v
  have unseal: "unseal S v = Inr (f v)" if stored: "view db k = Some v" for k v
  proof -
    obtain w where "unseal S v = Inr w" using assms stored unfolding db_inv_def by blast
    then show ?thesis by (simp add: f_def)
  qed
  let ?rows = "map (\<lambda>(k, v). \<lparr>row_key = k, row_value = f v\<rparr>) (filter (\<lambda>(k, v). prefix p k) kvs)"
  have rows: "scan_collect S (iter_scan R db p) = Ok ?rows"
    unfolding iter_scan_def kvs(1)
    by (rule scan_collect_sorted) (use kvs(2,3) unseal in auto)
  have "map row_key ?rows = map fst (filter (\<lambda>(k, v). prefix p k) kvs)"
    by (auto simp: case_prod_unfold)
  moreover have "distinct (map fst (filter (\<lambda>(k, v). prefix p k) kvs))"
    using kvs(2) by (intro distinct_map_filter) (simp add: strict_sorted_iff)
  moreover have "\<lparr>row_key = k, row_value = v\<rparr> \<in> set ?rows \<longleftrightarrow> plain S view db k = Some v \<and> prefix p k" for k v
  proof -
    have "\<lparr>row_key = k, row_value = v\<rparr> \<in> set ?rows \<longleftrightarrow>
        (\<exists>w. view db k = Some w \<and> p \<le> k \<and> prefix p k \<and> v = f w)"
      using kvs(3) by (auto simp: image_iff) 
    also have "\<dots> \<longleftrightarrow> plain S view db k = Some v \<and> prefix p k"
      using unseal by (auto simp: plain_def prefix_le split: option.splits)
    finally show ?thesis .
  qed
  ultimately show ?thesis using rows by (intro exI[of _ ?rows]) (simp only: simp_thms)
qed

interpretation rs: row_store "db_get R S" "db_put_sync R S" "\<lambda>rows. db_write R S rows fl"
    "\<lambda>db p. scan_collect S (iter_scan R db p)" "plain S view" "db_inv R S view"
  for R S view fl
proof
  show "db_inv R S view db \<Longrightarrow> db_get R S db k = Ok (plain S view db k)" for db k
    by (rule db_get_plain)
qed (fact db_put_plain(2) db_write_plain db_scan_plain)+

subsection \<open>Header rows and done rows\<close>

definition skey :: "store_codec \<Rightarrow> u8 \<Rightarrow> block_hash \<Rightarrow> bytes" where
  "skey S c h = (case ser_key S \<lparr>code = c, key_hash = hash_bytes S h\<rparr> of Inl _ \<Rightarrow> [] | Inr k \<Rightarrow> k)"

definition stored_headers ::
    "store_codec \<Rightarrow> (block_header \<Rightarrow> block_hash) \<Rightarrow> (bytes \<Rightarrow> bytes option) \<Rightarrow> block_header set" where
  "stored_headers S bh A = {x. A (skey S 98 (bh x)) = Some (ser_header S x)}"

definition done_hashes :: "store_codec \<Rightarrow> (bytes \<Rightarrow> bytes option) \<Rightarrow> block_hash set" where
  "done_hashes S A = {h. A (skey S 68 h) \<noteq> None}"

text \<open>
  The rows the indexer leaves behind: a header row under the header's own hash, a done row for
  every header row and the other way round, and with every header its parent.
\<close>

definition rows_ok ::
    "store_codec \<Rightarrow> (block_header \<Rightarrow> block_hash) \<Rightarrow> (bytes \<Rightarrow> bytes option) \<Rightarrow> bool" where
  "rows_ok S bh A \<longleftrightarrow>
     (\<forall>k v. A k = Some v \<longrightarrow> prefix [98] k \<longrightarrow> (\<exists>x. k = skey S 98 (bh x) \<and> v = ser_header S x)) \<and>
     (\<forall>k v. A k = Some v \<longrightarrow> prefix [68] k \<longrightarrow> (\<exists>x \<in> stored_headers S bh A. k = skey S 68 (bh x))) \<and>
     (\<forall>x \<in> stored_headers S bh A. bh x \<in> done_hashes S A \<and>
        (prev_blockhash x = all_zeros \<or> prev_blockhash x \<in> done_hashes S A))"

lemma skey:
  assumes "store_codec_ok S"
  shows "ser_key S \<lparr>code = c, key_hash = hash_bytes S h\<rparr> = Inr (skey S c h)"
    and "de_key S (skey S c h) = Inr \<lparr>code = c, key_hash = hash_bytes S h\<rparr>"
    and "prefix [d] (skey S c h) \<longleftrightarrow> d = c"
  using store_codec_okD(6)[OF assms store_codec_okD(2)[OF assms, of h], of c]
  by (auto simp: skey_def)

lemma skey_eq_iff [simp]:
  assumes "store_codec_ok S"
  shows "skey S c h = skey S c' h' \<longleftrightarrow> c = c' \<and> h = h'"
proof
  assume "skey S c h = skey S c' h'"
  then have "Inr \<lparr>code = c, key_hash = hash_bytes S h\<rparr> =
      (Inr \<lparr>code = c', key_hash = hash_bytes S h'\<rparr> :: string + block_key)"
    using skey(2)[OF assms] by metis
  then have "c = c'" "hash_bytes S h = hash_bytes S h'" by simp_all
  then show "c = c' \<and> h = h'"
    using store_codec_okD(3)[OF assms] by (metis option.inject)
qed simp

lemma full_hash_bytes: "store_codec_ok S \<Longrightarrow> full_hash (hash_bytes S h) = Ok (hash_bytes S h)"
  using store_codec_okD(2)[of S h] by (simp add: full_hash_def)

definition sync_rows :: "store_codec \<Rightarrow> header_entry \<Rightarrow> db_row list" where
  "sync_rows S v =
     [\<lparr>row_key = skey S 98 (hash v), row_value = ser_header S (header v)\<rparr>,
      \<lparr>row_key = skey S 68 (hash v), row_value = []\<rparr>]"

lemma add_sync_headers_rows:
  assumes "store_codec_ok S"
  shows "add_sync_headers S vs = Ok (concat (map (sync_rows S) vs))"
  by (induction vs)
    (simp_all add: full_hash_bytes[OF assms] first_sync_header_def into_row_def new_done_def
      skey(1)[OF assms] sync_rows_def)

lemma rows_okD:
  assumes "rows_ok S bh A"
  shows "A k = Some v \<Longrightarrow> prefix [98] k \<Longrightarrow> \<exists>x. k = skey S 98 (bh x) \<and> v = ser_header S x"
    and "A k = Some v \<Longrightarrow> prefix [68] k \<Longrightarrow> \<exists>x \<in> stored_headers S bh A. k = skey S 68 (bh x)"
    and "x \<in> stored_headers S bh A \<Longrightarrow> bh x \<in> done_hashes S A"
    and "x \<in> stored_headers S bh A \<Longrightarrow> prev_blockhash x = all_zeros \<or> prev_blockhash x \<in> done_hashes S A"
  using assms unfolding rows_ok_def by blast+

lemma done_iff_stored:
  assumes "store_codec_ok S" and "rows_ok S bh A"
  shows "done_hashes S A = bh ` stored_headers S bh A"
proof (intro set_eqI iffI)
  fix h assume "h \<in> done_hashes S A"
  then obtain v where "A (skey S 68 h) = Some v" by (auto simp: done_hashes_def)
  then obtain x where "x \<in> stored_headers S bh A" "skey S 68 h = skey S 68 (bh x)"
    using rows_okD(2)[OF assms(2)] skey(3)[OF assms(1)] by blast
  with assms(1) show "h \<in> bh ` stored_headers S bh A" by simp
qed (use rows_okD(3)[OF assms(2)] in auto)

lemma try_map_total:
  assumes "\<forall>x \<in> set xs. \<exists>y. f x = Ok y"
  shows "\<exists>ys. try_map f xs = Ok ys \<and> (\<forall>y. y \<in> set ys \<longleftrightarrow> (\<exists>x \<in> set xs. f x = Ok y))"
proof -
  obtain g where g: "\<forall>x \<in> set xs. f x = Ok (g x)" using assms by metis
  then show ?thesis by (intro exI[of _ "map g xs"]) (auto simp: try_map_Ok)
qed

lemma scan_decoded:
  assumes inv: "db_inv R S view db"
    and dec: "\<And>k v. plain S view db k = Some v \<Longrightarrow> prefix p k \<Longrightarrow>
      \<exists>y. f \<lparr>row_key = k, row_value = v\<rparr> = Ok y"
  shows "\<exists>rows ys. scan_collect S (iter_scan R db p) = Ok rows \<and> try_map f rows = Ok ys \<and>
    (\<forall>y. y \<in> set ys \<longleftrightarrow> (\<exists>k v. plain S view db k = Some v \<and> prefix p k \<and>
        f \<lparr>row_key = k, row_value = v\<rparr> = Ok y))"
proof -
  obtain rows where rows: "scan_collect S (iter_scan R db p) = Ok rows"
    "\<And>k v. \<lparr>row_key = k, row_value = v\<rparr> \<in> set rows \<longleftrightarrow> plain S view db k = Some v \<and> prefix p k"
    using rs.scan_abs[OF inv, of p] by blast
  have rows_split: "(\<exists>r \<in> set rows. P r) \<longleftrightarrow> (\<exists>k v. \<lparr>row_key = k, row_value = v\<rparr> \<in> set rows \<and>
      P \<lparr>row_key = k, row_value = v\<rparr>)" for P
    by (metis db_row.cases)
  have "\<exists>y. f r = Ok y" if "r \<in> set rows" for r
  proof -
    obtain k v where "r = \<lparr>row_key = k, row_value = v\<rparr>" by (rule db_row.cases)
    with that rows(2) dec show ?thesis by simp
  qed
  then obtain ys where "try_map f rows = Ok ys" "\<And>y. y \<in> set ys \<longleftrightarrow> (\<exists>r \<in> set rows. f r = Ok y)"
    using try_map_total[of rows f] by blast
  then show ?thesis
    using rows unfolding rows_split by (intro exI[of _ rows] exI[of _ ys]) simp
qed

lemma load_blockhashes_done:
  assumes inv: "db_inv R S view db" and rows: "rows_ok S bh (plain S view db)"
  shows "load_blockhashes R S db done_filter = Ok (done_hashes S (plain S view db))"
proof -
  let ?A = "plain S view db"
  let ?f = "\<lambda>row. and_then (from_row S row) (\<lambda>r. unwrap_opt (de_hash S (key_hash (br_key r)))) :: block_hash panicky"
  have S: "store_codec_ok S" using inv by (simp add: db_inv_def)
  have f: "?f \<lparr>row_key = skey S 68 h, row_value = v\<rparr> = Ok h" for h v
    by (simp add: from_row_def skey(2)[OF S] store_codec_okD(3)[OF S])
  have shape: "\<exists>h \<in> done_hashes S ?A. k = skey S 68 h" if "?A k = Some v" "prefix done_filter k" for k v
    using that rows_okD(2,3)[OF rows] unfolding done_filter_def by blast
  have "\<exists>y. ?f \<lparr>row_key = k, row_value = v\<rparr> = Ok y" if "?A k = Some v" "prefix done_filter k" for k v
    using shape[OF that] f by blast
  from scan_decoded[OF inv, where f = ?f and p = done_filter, OF this] obtain rs hs where
    rs: "scan_collect S (iter_scan R db done_filter) = Ok rs" "try_map ?f rs = Ok hs"
    "\<And>h. h \<in> set hs \<longleftrightarrow> (\<exists>k v. ?A k = Some v \<and> prefix done_filter k \<and>
       ?f \<lparr>row_key = k, row_value = v\<rparr> = Ok h)" by blast
  have "set hs = done_hashes S ?A"
  proof (intro set_eqI iffI)
    fix h assume "h \<in> set hs"
    then obtain k v where kv: "?A k = Some v" "prefix done_filter k" "?f \<lparr>row_key = k, row_value = v\<rparr> = Ok h"
      unfolding rs(3) by blast
    from shape[OF kv(1,2)] obtain h' where "h' \<in> done_hashes S ?A" "k = skey S 68 h'" by blast
    with kv(3) f[of h' v] show "h \<in> done_hashes S ?A" by simp
  next
    fix h assume "h \<in> done_hashes S ?A"
    then obtain v where "?A (skey S 68 h) = Some v" by (auto simp: done_hashes_def)
    moreover have "prefix done_filter (skey S 68 h)" by (simp add: done_filter_def skey(3)[OF S])
    ultimately show "h \<in> set hs" unfolding rs(3) using f by blast
  qed
  with rs(1,2) show ?thesis by (simp add: load_blockhashes_def)
qed

lemma load_sync_blockheaders_stored:
  assumes inv: "db_inv R S view db" and rows: "rows_ok S bh (plain S view db)"
    and inj: "inj_on bh (stored_headers S bh (plain S view db))"
  shows "\<exists>m. load_sync_blockheaders R S db = Ok m \<and>
    set m = (\<lambda>x. (bh x, x)) ` stored_headers S bh (plain S view db) \<and>
    (\<forall>x \<in> stored_headers S bh (plain S view db). map_of m (bh x) = Some x)"
proof -
  let ?A = "plain S view db"
  let ?f = "\<lambda>row. and_then (from_row S row) (\<lambda>r.
                 and_then (unwrap_opt (de_hash S (key_hash (br_key r)))) (\<lambda>key.
                 and_then (unwrap_opt (de_header S (br_value r))) (\<lambda>value. Ok (key, value))))
              :: (block_hash \<times> block_header) panicky"
  have S: "store_codec_ok S" using inv by (simp add: db_inv_def)
  have f: "?f \<lparr>row_key = skey S 98 h, row_value = ser_header S x\<rparr> = Ok (h, x)" for h x
    by (simp add: from_row_def skey(2)[OF S] store_codec_okD(3,5)[OF S])
  have shape: "\<exists>x \<in> stored_headers S bh ?A. k = skey S 98 (bh x) \<and> v = ser_header S x"
    if "?A k = Some v" "prefix header_sync_filter k" for k v
    using that rows_okD(1)[OF rows, of k v] by (auto simp: header_sync_filter_def stored_headers_def)
  have "\<exists>y. ?f \<lparr>row_key = k, row_value = v\<rparr> = Ok y"
    if "?A k = Some v" "prefix header_sync_filter k" for k v
    using shape[OF that] f by blast
  from scan_decoded[OF inv, where f = ?f and p = header_sync_filter, OF this] obtain rs kvs where
    rs: "scan_collect S (iter_scan R db header_sync_filter) = Ok rs" "try_map ?f rs = Ok kvs"
    "\<And>y. y \<in> set kvs \<longleftrightarrow> (\<exists>k v. ?A k = Some v \<and> prefix header_sync_filter k \<and>
       ?f \<lparr>row_key = k, row_value = v\<rparr> = Ok y)" by blast
  have set: "set kvs = (\<lambda>x. (bh x, x)) ` stored_headers S bh ?A"
  proof (intro set_eqI iffI)
    fix y assume "y \<in> set kvs"
    then obtain k v where kv: "?A k = Some v" "prefix header_sync_filter k" "?f \<lparr>row_key = k, row_value = v\<rparr> = Ok y"
      unfolding rs(3) by blast
    from shape[OF kv(1,2)] obtain x where "x \<in> stored_headers S bh ?A" "k = skey S 98 (bh x)"
      "v = ser_header S x" by blast
    with kv(3) f[of "bh x" x] have "y = (bh x, x)" by simp
    with \<open>x \<in> _\<close> show "y \<in> (\<lambda>x. (bh x, x)) ` stored_headers S bh ?A" by simp
  next
    fix y assume "y \<in> (\<lambda>x. (bh x, x)) ` stored_headers S bh ?A"
    then obtain x where x: "x \<in> stored_headers S bh ?A" "y = (bh x, x)" by blast
    then have "?A (skey S 98 (bh x)) = Some (ser_header S x)" by (simp add: stored_headers_def)
    moreover have "prefix header_sync_filter (skey S 98 (bh x))"
      by (simp add: header_sync_filter_def skey(3)[OF S])
    ultimately show "y \<in> set kvs" unfolding rs(3) x(2) using f by blast
  qed
  have lookup: "map_of (rev kvs) (bh x) = Some x" if x: "x \<in> stored_headers S bh ?A" for x
  proof -
    have "(bh x, x) \<in> set (rev kvs)" using x set by simp
    then obtain y where y: "map_of (rev kvs) (bh x) = Some y"
      by (metis map_of_eq_None_iff fst_conv image_eqI not_Some_eq)
    then have "(bh x, y) \<in> set kvs" by (auto dest: map_of_SomeD)
    with set x inj have "y = x" by (auto dest: inj_onD)
    with y show ?thesis by simp
  qed
  show ?thesis
    by (rule exI[of _ "rev kvs"]) (use rs(1,2) set lookup in \<open>simp add: load_sync_blockheaders_def\<close>)
qed

text \<open>The state is rebuilt from the rows: the done hashes and the chain that ends in the tip.\<close>

lemma load_state_chain:
  assumes inv: "db_inv R S view db" and rows: "rows_ok S bh (plain S view db)"
    and tip: "plain S view db tip_key = Some (ser_hash S (chain_tip hs))"
    and hs: "wf_headers bh hs" "header ` set hs \<subseteq> stored_headers S bh (plain S view db)"
    and cf: "collision_free bh (stored_headers S bh (plain S view db))"
  shows "\<exists>hl. load_state bh R S db = Ok (done_hashes S (plain S view db), hl) \<and>
    headers hl = hs \<and> wf_list bh hl"
proof -
  let ?A = "plain S view db"
  have S: "store_codec_ok S" using inv by (simp add: db_inv_def)
  have "inj_on bh (stored_headers S bh ?A)" using cf by (simp add: collision_free_def)
  from load_sync_blockheaders_stored[OF inv rows this] obtain m where m:
    "load_sync_blockheaders R S db = Ok m"
    "\<And>x. x \<in> stored_headers S bh ?A \<Longrightarrow> map_of m (bh x) = Some x" by blast
  have "map_covers m hs"
    unfolding map_covers_def
  proof
    fix e assume e: "e \<in> set hs"
    then obtain i where "i < length hs" "e = hs ! i" by (auto simp: in_set_conv_nth)
    then have "hash e = bh (header e)" using wf_headersD(2)[OF hs(1)] by simp
    with e hs(2) m(2) show "map_of m (hash e) = Some (header e)" by auto
  qed
  with new_list_chain[OF hs(1) collision_free_mono[OF cf hs(2)]] obtain hl where
    "new_list bh m (chain_tip hs) = Ok hl" "headers hl = hs" "wf_list bh hl" by blast
  with m(1) tip show ?thesis
    by (simp add: load_state_def load_blockhashes_done[OF inv rows] rs.get_abs[OF inv]
        store_codec_okD(4)[OF S])
qed

subsection \<open>Adding headers\<close>

lemma set_sync_rows:
  "\<lparr>row_key = k, row_value = v\<rparr> \<in> set (concat (map (sync_rows S) es)) \<longleftrightarrow>
     (\<exists>e \<in> set es. k = skey S 98 (hash e) \<and> v = ser_header S (header e) \<or>
        k = skey S 68 (hash e) \<and> v = [])"
  by (auto simp: sync_rows_def)

lemma consistent_sync_rows:
  assumes "store_codec_ok S" and "hashed_entries bh es" and "inj_on bh (header ` set es)"
  shows "consistent (concat (map (sync_rows S) es))"
proof -
  have "header e = header e'" if "e \<in> set es" "e' \<in> set es" "hash e = hash e'" for e e'
    using that assms(2,3) by (auto simp: hashed_entries_def inj_on_def)
  then have same: "ser_header S (header e) = ser_header S (header e')"
    if "e \<in> set es" "e' \<in> set es" "hash e = hash e'" for e e' using that by metis
  have "v = v'" if "\<lparr>row_key = k, row_value = v\<rparr> \<in> set (concat (map (sync_rows S) es))"
    "\<lparr>row_key = k, row_value = v'\<rparr> \<in> set (concat (map (sync_rows S) es))" for k v v'
  proof -
    have codes: "(98 :: u8) \<noteq> 68" by simp
    from that show ?thesis
      unfolding set_sync_rows by (elim bexE disjE conjE) (metis codes same skey_eq_iff[OF assms(1)])+
  qed
  then show ?thesis
    unfolding consistent_def by (metis db_row.cases db_row.select_convs(1,2))
qed

lemma row_map_sync_rows:
  assumes "store_codec_ok S" and "hashed_entries bh es" and "inj_on bh (header ` set es)"
  shows "row_map (concat (map (sync_rows S) es)) k = Some v \<longleftrightarrow>
     (\<exists>e \<in> set es. k = skey S 98 (hash e) \<and> v = ser_header S (header e) \<or>
        k = skey S 68 (hash e) \<and> v = [])"
proof -
  have "(\<exists>r \<in> set rows. row_key r = k \<and> row_value r = v) \<longleftrightarrow> \<lparr>row_key = k, row_value = v\<rparr> \<in> set rows"
    for rows :: "db_row list"
    by (metis db_row.cases db_row.select_convs(1,2))
  then show ?thesis
    by (simp only: row_map_Some[OF consistent_sync_rows[OF assms]] set_sync_rows)
qed

lemma rows_ok_add:
  fixes A :: "bytes \<Rightarrow> bytes option" and S :: store_codec and es :: "header_entry list"
  defines "B \<equiv> A ++ row_map (concat (map (sync_rows S) es))"
  assumes S: "store_codec_ok S" and ok: "rows_ok S bh A" and es: "hashed_entries bh es"
    and inj: "inj_on bh (stored_headers S bh A \<union> header ` set es)"
    and parents: "\<forall>e \<in> set es. prev_blockhash (header e) = all_zeros \<or>
      prev_blockhash (header e) \<in> done_hashes S A \<union> hash ` set es"
  shows "stored_headers S bh B = stored_headers S bh A \<union> header ` set es"
    and "done_hashes S B = done_hashes S A \<union> hash ` set es"
    and "rows_ok S bh B"
    and "\<not> prefix [98] k \<Longrightarrow> \<not> prefix [68] k \<Longrightarrow> B k = A k"
proof -
  have inj': "inj_on bh (header ` set es)" using inj by (rule inj_on_subset) simp
  note new = row_map_sync_rows[OF S es inj']
  have B: "B k = Some v \<longleftrightarrow> row_map (concat (map (sync_rows S) es)) k = Some v \<or>
      row_map (concat (map (sync_rows S) es)) k = None \<and> A k = Some v" for k v
    by (simp add: B_def map_add_Some_iff)
  have hash: "hash e = bh (header e)" if "e \<in> set es" for e using es that by (simp add: hashed_entries_def)
  have none: "row_map (concat (map (sync_rows S) es)) k = None \<longleftrightarrow>
      (\<forall>e \<in> set es. k \<noteq> skey S 98 (hash e) \<and> k \<noteq> skey S 68 (hash e))" for k
  proof -
    have "row_map (concat (map (sync_rows S) es)) k = None \<longleftrightarrow>
        (\<forall>v. row_map (concat (map (sync_rows S) es)) k \<noteq> Some v)"
      by (cases "row_map (concat (map (sync_rows S) es)) k") simp_all
    then show ?thesis unfolding new by blast
  qed
  have deH: "de_header S (ser_header S x) = Some x" for x by (rule store_codec_okD(5)[OF S])
  show stored: "stored_headers S bh B = stored_headers S bh A \<union> header ` set es"
  proof (intro set_eqI iffI)
    fix x assume "x \<in> stored_headers S bh B"
    then have "B (skey S 98 (bh x)) = Some (ser_header S x)" by (simp add: stored_headers_def)
    then show "x \<in> stored_headers S bh A \<union> header ` set es"
      unfolding B new using S deH by (auto simp: stored_headers_def) (metis image_eqI option.inject)
  next
    fix x assume x: "x \<in> stored_headers S bh A \<union> header ` set es"
    show "x \<in> stored_headers S bh B"
    proof (cases "\<exists>e \<in> set es. hash e = bh x")
      case True
      then obtain e where e: "e \<in> set es" "hash e = bh x" by blast
      then have "x = header e" using inj x hash[OF e(1)] by (auto dest!: inj_onD)
      then have "row_map (concat (map (sync_rows S) es)) (skey S 98 (bh x)) = Some (ser_header S x)"
        unfolding new using e by (intro bexI[of _ e]) simp_all
      then show ?thesis unfolding stored_headers_def mem_Collect_eq B by simp
    next
      case False
      then have "x \<in> stored_headers S bh A" using x hash by auto
      with False S show ?thesis
        unfolding stored_headers_def mem_Collect_eq B none by auto
    qed
  qed
  show dones: "done_hashes S B = done_hashes S A \<union> hash ` set es"
  proof -
    have "B (skey S 68 h) \<noteq> None \<longleftrightarrow> h \<in> hash ` set es \<or> A (skey S 68 h) \<noteq> None" for h
      using none[of "skey S 68 h"] S by (auto simp: B_def map_add_def image_iff split: option.splits)
    then show ?thesis by (auto simp: done_hashes_def)
  qed
  show "rows_ok S bh B"
    unfolding rows_ok_def
  proof (intro conjI allI impI ballI)
    fix k v assume kv: "B k = Some v" "prefix [98] k"
    show "\<exists>x. k = skey S 98 (bh x) \<and> v = ser_header S x"
    proof (cases "A k = Some v")
      case False
      with kv new[of k v] obtain e where "e \<in> set es" "k = skey S 98 (hash e)" "v = ser_header S (header e)"
        using skey(3)[OF S, of 98 68] by (auto simp: B)
      with hash show ?thesis by auto
    qed (use rows_okD(1)[OF ok _ kv(2)] in blast)
  next
    fix k v assume kv: "B k = Some v" "prefix [68] k"
    show "\<exists>x \<in> stored_headers S bh B. k = skey S 68 (bh x)"
    proof (cases "A k = Some v")
      case False
      with kv new[of k v] obtain e where "e \<in> set es" "k = skey S 68 (hash e)"
        using skey(3)[OF S, of 68 98] by (auto simp: B)
      with hash show ?thesis unfolding stored by auto
    qed (use rows_okD(2)[OF ok _ kv(2)] stored in blast)
  next
    fix x assume "x \<in> stored_headers S bh B"
    then show "bh x \<in> done_hashes S B"
      "prev_blockhash x = all_zeros \<or> prev_blockhash x \<in> done_hashes S B"
      unfolding stored dones using rows_okD(3,4)[OF ok] hash parents by force+
  qed
  show "\<not> prefix [98] k \<Longrightarrow> \<not> prefix [68] k \<Longrightarrow> B k = A k"
  proof -
    assume "\<not> prefix [98] k" "\<not> prefix [68] k"
    then have "row_map (concat (map (sync_rows S) es)) k = None"
      unfolding none using skey(3)[OF S] by metis
    then show ?thesis by (simp add: B_def map_add_def)
  qed
qed

lemma rows_ok_empty: "rows_ok S bh Map.empty"
  by (simp add: rows_ok_def stored_headers_def)

text \<open>The tip and the version have keys of their own.\<close>

lemma rows_ok_other:
  assumes S: "store_codec_ok S" and k: "\<not> prefix [98] k" "\<not> prefix [68] k"
  shows "stored_headers S bh (A(k \<mapsto> v)) = stored_headers S bh A"
    and "done_hashes S (A(k \<mapsto> v)) = done_hashes S A"
    and "rows_ok S bh A \<Longrightarrow> rows_ok S bh (A(k \<mapsto> v))"
proof -
  have neq: "k \<noteq> skey S 98 h" "k \<noteq> skey S 68 h" for h
    using k skey(3)[OF S] by metis+
  show stored: "stored_headers S bh (A(k \<mapsto> v)) = stored_headers S bh A"
    using neq(1)[symmetric] by (simp add: stored_headers_def)
  show dones: "done_hashes S (A(k \<mapsto> v)) = done_hashes S A"
    using neq(2)[symmetric] by (simp add: done_hashes_def)
  assume ok: "rows_ok S bh A"
  have other: "(A(k \<mapsto> v)) k' = A k'" if "prefix [98] k' \<or> prefix [68] k'" for k'
    using that k by auto
  from ok other show "rows_ok S bh (A(k \<mapsto> v))"
    unfolding rows_ok_def stored dones by metis
qed

lemma other_keys [simp]:
  "\<not> prefix [98] tip_key" "\<not> prefix [68] tip_key"
  "\<not> prefix [98] version_key" "\<not> prefix [68] version_key" "tip_key \<noteq> version_key"
  by (simp_all add: tip_key_def version_key_def)

subsection \<open>Concrete instances\<close>

text \<open>The little-endian bytes of a word, and back.\<close>

definition le_bytes :: "nat \<Rightarrow> 'a::len word \<Rightarrow> bytes" where
  "le_bytes n w = map (\<lambda>i. ucast (drop_bit (8 * i) w)) [0..<n]"

definition le_word :: "bytes \<Rightarrow> 'a::len word" where
  "le_word bs = word_of_int (horner_sum uint (2 ^ LENGTH(8)) bs)"

lemma length_le_bytes [simp]: "length (le_bytes n w) = n"
  by (simp add: le_bytes_def)

lemma le_word_le_bytes:
  assumes "LENGTH('a::len) = 8 * n"
  shows "le_word (le_bytes n (w :: 'a word)) = w"
proof (rule bit_word_eqI)
  fix i assume i: "i < LENGTH('a)"
  then have "i div 8 < n" using assms by (simp add: less_mult_imp_div_less mult.commute)
  with i show "bit (le_word (le_bytes n w) :: 'a word) i = bit w i"
    unfolding le_word_def bit_word_of_int_iff bit_horner_sum_uint_exp_iff
    by (simp add: le_bytes_def bit_simps)
qed

text \<open>The consensus encodings of a hash and of a header (80 bytes); sealing is the identity.\<close>

definition disk_codec :: store_codec where
  "disk_codec = \<lparr>
     hash_bytes = le_bytes 32,
     ser_hash = le_bytes 32,
     de_hash = (\<lambda>bs. if length bs = 32 then Some (le_word bs) else None),
     ser_header = (\<lambda>h. le_bytes 4 (version h) @ le_bytes 32 (prev_blockhash h) @
       le_bytes 32 (merkle_root h) @ le_bytes 4 (time h) @ le_bytes 4 (bits h) @ le_bytes 4 (nonce h)),
     de_header = (\<lambda>bs. if length bs = 80
       then Some \<lparr>version = le_word (take 4 bs), prev_blockhash = le_word (take 32 (drop 4 bs)),
              merkle_root = le_word (take 32 (drop 36 bs)), time = le_word (take 4 (drop 68 bs)),
              bits = le_word (take 4 (drop 72 bs)), nonce = le_word (drop 76 bs)\<rparr>
       else None),
     ser_version = (\<lambda>v. Inr (le_bytes 4 v)),
     ser_key = (\<lambda>k. Inr (code k # key_hash k)),
     de_key = (\<lambda>bs. case bs of [] \<Rightarrow> Inl ''eof'' | c # h \<Rightarrow> Inr \<lparr>code = c, key_hash = h\<rparr>),
     seal = Inr,
     unseal = Inr\<rparr>"

lemma disk_codec_ok: "store_codec_ok disk_codec"
  by (simp add: store_codec_ok_def disk_codec_def le_word_le_bytes)

text \<open>A database as a red-black tree.\<close>

definition tree_rocks :: "(bytes, bytes) rbt rocks" where
  "tree_rocks = \<lparr>
     r_open = (\<lambda>_ _. Inr RBT.empty),
     r_get = (\<lambda>db k. Inr (RBT.lookup db k)),
     r_put = (\<lambda>db k v _. Inr (RBT.insert k v db)),
     r_write = (\<lambda>db kvs _ _. Inr (fold (\<lambda>(k, v). RBT.insert k v) kvs db)),
     r_flush = Inr,
     r_compact = (\<lambda>db. db),
     r_set_options = (\<lambda>db _. Inr db),
     r_prefix_iterator = (\<lambda>db p. map Inr (filter (\<lambda>(k, v). p \<le> k) (RBT.entries db))),
     r_iterator_from = (\<lambda>db p. map Inr (filter (\<lambda>(k, v). p \<le> k) (RBT.entries db))),
     r_seek_for_prev = (\<lambda>db p. rev (filter (\<lambda>(k, v). k \<le> p) (RBT.entries db)))\<rparr>"

lemma lookup_fold_insert:
  "RBT.lookup (fold (\<lambda>(k, v). RBT.insert k v) kvs db) = RBT.lookup db ++ map_of (rev kvs)"
  by (induction kvs arbitrary: db) (auto simp: map_add_def fun_eq_iff split: option.splits)

lemma tree_rocks_ok: "rocks_ok tree_rocks RBT.lookup"
proof -
  have "sorted_wrt (<) (map fst (filter (\<lambda>(k, v). p \<le> k) (RBT.entries db)))" for p and db :: "(bytes, bytes) rbt"
  proof -
    have "sorted_wrt (<) (map fst (RBT.entries db))"
      using RBT.sorted_entries[of db] RBT.distinct_entries[of db] by (simp add: strict_sorted_iff)
    then show ?thesis unfolding sorted_wrt_map by (rule sorted_wrt_filter)
  qed
  moreover have "(k, v) \<in> set (filter (\<lambda>(k, v). p \<le> k) (RBT.entries db)) \<longleftrightarrow> RBT.lookup db k = Some v \<and> p \<le> k"
    for p k v and db :: "(bytes, bytes) rbt"
    using RBT.map_of_entries[of db] RBT.distinct_entries[of db]
    by (metis (no_types, lifting) case_prodI2 mem_Collect_eq set_filter fst_conv case_prod_conv map_of_eq_Some_iff)
  ultimately show ?thesis
    unfolding rocks_ok_def by (simp add: tree_rocks_def lookup_fold_insert)
qed

lemma tree_inv [simp]: "db_inv tree_rocks disk_codec RBT.lookup db"
  using tree_rocks_ok disk_codec_ok by (simp add: db_inv_def) (simp add: disk_codec_def)

lemma plain_tree [simp]: "plain disk_codec RBT.lookup db = RBT.lookup db"
  by (auto simp: plain_def disk_codec_def split: option.splits)

text \<open>A database that holds a given chain.\<close>

definition chain_db :: "header_entry list \<Rightarrow> (bytes, bytes) rbt" where
  "chain_db hs =
     RBT.insert tip_key (ser_hash disk_codec (chain_tip hs))
       (RBT.insert version_key (le_bytes 4 DB_VERSION)
          (fold (\<lambda>(k, v). RBT.insert k v)
             (map (\<lambda>r. (row_key r, row_value r)) (concat (map (sync_rows disk_codec) hs))) RBT.empty))"

lemma chain_db:
  assumes "wf_headers bh hs" and "collision_free bh (header ` set hs)"
  defines "A \<equiv> RBT.lookup (chain_db hs)"
  shows "rows_ok disk_codec bh A" and "stored_headers disk_codec bh A = header ` set hs"
    and "done_hashes disk_codec A = hash ` set hs"
    and "A tip_key = Some (ser_hash disk_codec (chain_tip hs))"
    and "A version_key = Some (le_bytes 4 DB_VERSION)"
proof -
  let ?rows = "concat (map (sync_rows disk_codec) hs)"
  have hashed: "hashed_entries bh hs"
    using wf_headersD(2)[OF assms(1)] by (auto simp: hashed_entries_def in_set_conv_nth)
  have inj: "inj_on bh (header ` set hs)" using assms(2) by (simp add: collision_free_def)
  have parents: "\<forall>e \<in> set hs. prev_blockhash (header e) = all_zeros \<or>
      prev_blockhash (header e) \<in> done_hashes disk_codec Map.empty \<union> hash ` set hs"
  proof
    fix e assume "e \<in> set hs"
    then obtain i where "i < length hs" "e = hs ! i" by (auto simp: in_set_conv_nth)
    with wf_headersD(3)[OF assms(1), of i]
    show "prev_blockhash (header e) = all_zeros \<or>
        prev_blockhash (header e) \<in> done_hashes disk_codec Map.empty \<union> hash ` set hs"
      by (cases i) (auto intro!: imageI)
  qed
  let ?B = "Map.empty ++ row_map ?rows"
  have e: "stored_headers disk_codec bh Map.empty = {}" "done_hashes disk_codec Map.empty = {}"
    by (simp_all add: stored_headers_def done_hashes_def)
  note add = rows_ok_add[OF disk_codec_ok rows_ok_empty hashed _ parents, unfolded e, simplified, OF inj]
  have "map_of (rev (map (\<lambda>r. (row_key r, row_value r)) ?rows)) = row_map ?rows"
    using row_map_same_set[OF consistent_sync_rows[OF disk_codec_ok hashed inj], of "rev ?rows"]
    by (simp add: row_map_def rev_map)
  then have A: "A = ((row_map ?rows)(version_key \<mapsto> le_bytes 4 DB_VERSION))
      (tip_key \<mapsto> ser_hash disk_codec (chain_tip hs))"
    by (simp add: A_def chain_db_def lookup_fold_insert)
  note other = rows_ok_other[OF disk_codec_ok]
  show "rows_ok disk_codec bh A" "stored_headers disk_codec bh A = header ` set hs"
    "done_hashes disk_codec A = hash ` set hs"
    using add(1-3) unfolding A by (simp_all add: other)
  show "A tip_key = Some (ser_hash disk_codec (chain_tip hs))"
    "A version_key = Some (le_bytes 4 DB_VERSION)"
    unfolding A by (simp_all add: other_keys(5)[symmetric])
qed

subsection \<open>Properties\<close>

text \<open>
  C24: a prefix scan returns exactly the rows of the database whose key has the prefix, each
  once and unsealed: the iterator starts at the prefix and the first key without it ends the
  scan without losing a row.
\<close>

theorem iter_scan_exact:
  assumes "db_inv R S view db"
  shows "\<exists>rows. scan_collect S (iter_scan R db p) = Ok rows \<and> distinct (map row_key rows) \<and>
    (\<forall>k v. \<lparr>row_key = k, row_value = v\<rparr> \<in> set rows \<longleftrightarrow> plain S view db k = Some v \<and> prefix p k)"
  using assms by (rule rs.scan_abs)

theorem iter_scan_exact_witness:
  "\<exists>rows. scan_collect disk_codec (iter_scan tree_rocks (RBT.insert [98, 1] [7] RBT.empty) [98]) = Ok rows \<and>
    distinct (map row_key rows) \<and>
    (\<forall>k v. \<lparr>row_key = k, row_value = v\<rparr> \<in> set rows \<longleftrightarrow>
       plain disk_codec RBT.lookup (RBT.insert [98, 1] [7] RBT.empty) k = Some v \<and> prefix [98] k)"
  by (rule iter_scan_exact) simp

text \<open>
  opening a database checks its version. A database without one gets the current version
  and nothing else; with the current version it is left as it is; with any other the program
  panics before it reads or writes a row.
\<close>

theorem verify_compatibility_effect:
  assumes "db_inv R S view db" and "ser_version S DB_VERSION = Inr v"
  shows "\<exists>db'. db_inv R S view db' \<and> plain S view db' = (plain S view db)(version_key \<mapsto> v) \<and>
    verify_compatibility R S db =
      (case plain S view db version_key of
         None \<Rightarrow> (Ok (), db')
       | Some x \<Rightarrow> if x = v then (Ok (), db) else (Panic Incompatible, db))"
proof -
  obtain db' where db': "db_put R S version_key v db = (Ok (), db')" "db_inv R S view db'"
    "plain S view db' = (plain S view db)(version_key \<mapsto> v)"
    using db_put_plain(1)[OF assms(1)] by blast
  moreover have "verify_compatibility R S db =
      (case plain S view db version_key of
         None \<Rightarrow> (Ok (), db')
       | Some x \<Rightarrow> if x = v then (Ok (), db) else (Panic Incompatible, db))"
    using assms(2) db'(1)
    by (simp add: verify_compatibility_def rs.get_abs[OF assms(1)] split: option.splits)
  ultimately show ?thesis by blast
qed

theorem verify_compatibility_effect_witness:
  "\<exists>db'. db_inv tree_rocks disk_codec RBT.lookup db' \<and>
    plain disk_codec RBT.lookup db' =
      (plain disk_codec RBT.lookup (RBT.insert version_key [1, 0, 0, 0] RBT.empty))
        (version_key \<mapsto> le_bytes 4 DB_VERSION) \<and>
    verify_compatibility tree_rocks disk_codec (RBT.insert version_key [1, 0, 0, 0] RBT.empty) =
      (case plain disk_codec RBT.lookup (RBT.insert version_key [1, 0, 0, 0] RBT.empty) version_key of
         None \<Rightarrow> (Ok (), db')
       | Some x \<Rightarrow> if x = le_bytes 4 DB_VERSION
           then (Ok (), RBT.insert version_key [1, 0, 0, 0] RBT.empty)
           else (Panic Incompatible, RBT.insert version_key [1, 0, 0, 0] RBT.empty))"
  by (rule verify_compatibility_effect[OF tree_inv]) (simp add: disk_codec_def)

text \<open>
  C7: the header chain survives a restart. Whenever the rows hold the headers of a chain and
  the tip row its last hash, opening the store rebuilds exactly that chain in memory, whatever
  stale branches the rows hold besides, and the set of the hashes marked done.
\<close>

theorem store_open_restores_chain:
  assumes "r_open R raw_db_options (path @ ''/sync'') = Inr db" and "db_inv R S view db"
    and "ser_version S DB_VERSION = Inr v" and "plain S view db version_key = Some v"
    and "rows_ok S bh (plain S view db)"
    and "plain S view db tip_key = Some (ser_hash S (chain_tip hs))"
    and "wf_headers bh hs" and "header ` set hs \<subseteq> stored_headers S bh (plain S view db)"
    and "collision_free bh (stored_headers S bh (plain S view db))"
  shows "\<exists>st. store_open bh R S path = Ok st \<and> headers (sync_headers st) = hs \<and>
    wf_list bh (sync_headers st) \<and>
    synced_blockhashes st = bh ` stored_headers S bh (plain S view db) \<and> sync_db st = db"
proof -
  have "verify_compatibility R S db = (Ok (), db)"
    using assms(3,4) by (simp add: verify_compatibility_def rs.get_abs[OF assms(2)])
  then have "db_open R S (path @ ''/sync'') = Ok db"
    using assms(1) by (simp add: db_open_def open_raw_db_def)
  with load_state_chain[OF assms(2,5-9)] done_iff_stored[OF _ assms(5)] assms(2) show ?thesis
    by (auto simp: store_open_def db_inv_def)
qed

lemma sample_chain_ok:
  "wf_headers sample_bh (headers sample_list)"
  "collision_free sample_bh (header ` set (headers sample_list))"
  using wf_sample_list
  by (auto simp: wf_list_def collision_free_def inj_on_def sample_defs)

theorem store_open_restores_chain_witness:
  "\<exists>st. store_open sample_bh (tree_rocks\<lparr>r_open := \<lambda>_ _. Inr (chain_db (headers sample_list))\<rparr>)
      disk_codec ''db'' = Ok st \<and> headers (sync_headers st) = headers sample_list \<and>
    wf_list sample_bh (sync_headers st) \<and>
    synced_blockhashes st = sample_bh ` stored_headers disk_codec sample_bh
      (plain disk_codec RBT.lookup (chain_db (headers sample_list))) \<and>
    sync_db st = chain_db (headers sample_list)"
proof (rule store_open_restores_chain)
  note db = chain_db[OF sample_chain_ok]
  show "db_inv (tree_rocks\<lparr>r_open := \<lambda>_ _. Inr (chain_db (headers sample_list))\<rparr>) disk_codec RBT.lookup
      (chain_db (headers sample_list))"
    using tree_inv[of "chain_db (headers sample_list)"] by (simp add: db_inv_def rocks_ok_def)
  show "ser_version disk_codec DB_VERSION = Inr (le_bytes 4 DB_VERSION)" by (simp add: disk_codec_def)
  show "plain disk_codec RBT.lookup (chain_db (headers sample_list)) version_key =
      Some (le_bytes 4 DB_VERSION)" by (simp add: db)
  show "rows_ok disk_codec sample_bh (plain disk_codec RBT.lookup (chain_db (headers sample_list)))"
    by (simp add: db)
  show "plain disk_codec RBT.lookup (chain_db (headers sample_list)) tip_key =
      Some (ser_hash disk_codec (chain_tip (headers sample_list)))" by (simp add: db del: chain_tip_simps)
  show "header ` set (headers sample_list) \<subseteq> stored_headers disk_codec sample_bh
      (plain disk_codec RBT.lookup (chain_db (headers sample_list)))" by (simp add: db)
  show "collision_free sample_bh (stored_headers disk_codec sample_bh
      (plain disk_codec RBT.lookup (chain_db (headers sample_list))))"
    by (simp add: db sample_chain_ok)
qed (simp_all add: sample_chain_ok)

end
