(* ===== verification/Indexer_Sync.thy ===== *)
theory Indexer_Sync
  imports Daemon_Rpc Block_Store
begin

text \<open>
  The header indexer of \<open>src/src/index.rs\<close> and the loop of \<open>start_indexer\<close> in
  \<open>src/src/main.rs\<close>: download the new headers, write their rows and the tip, apply them to the
  list in memory, and rebuild the list from the rows when its tip is not the one asked for. The
  loop is written for a thread that \<open>main\<close> does not start at this commit (\<open>allow(dead_code)\<close>).
\<close>

subsection \<open>Operations\<close>

datatype 'v sync_error = DownloadFailed "'v rpc_error" | TipNotEqual

text \<open>The state of the indexer thread: the shared store and the RPC client.\<close>

type_synonym 'db indexer_state = "'db store \<times> daemon"

fun write_batches ::
    "'db rocks \<Rightarrow> store_codec \<Rightarrow> db_row list list \<Rightarrow> ('db, unit, unit) action" where
  "write_batches R S [] = ret ()"
| "write_batches R S (row # rest) = seq (db_write R S row FlushEnable) (\<lambda>_. write_batches R S rest)"

definition add_sync_block_header ::
    "'db rocks \<Rightarrow> store_codec \<Rightarrow> header_entry list \<Rightarrow> ('db store, unit, unit) action" where
  "add_sync_block_header R S hs =
     seq (lift (add_sync_headers S hs)) (\<lambda>rows.
     seq (with_db (write_batches R S (chunks 50000 rows))) (\<lambda>_ st.
       (Ok (), st\<lparr>synced_blockhashes := synced_blockhashes st \<union> hash ` set hs\<rparr>)))"

definition sync_headers_to_add :: "'db store \<Rightarrow> header_entry list \<Rightarrow> header_entry list" where
  "sync_headers_to_add st new_headers = filter (\<lambda>e. hash e \<notin> synced_blockhashes st) new_headers"

text \<open>
  Everything \<open>sync_headers\<close> does before its last check: order the downloaded headers, keep
  those whose hash is new, write them and the tip, apply them. Shared by the two variants.
\<close>

definition index_new_headers ::
    "(block_header \<Rightarrow> block_hash) \<Rightarrow> 'db rocks \<Rightarrow> store_codec \<Rightarrow> block_hash \<Rightarrow> block_header list
      \<Rightarrow> ('db store, unit, unit) action" where
  "index_new_headers bh R S tip_hash new_headers =
     seq (\<lambda>st. (order bh (sync_headers st) new_headers, st)) (\<lambda>sync_header_result.
     seq (\<lambda>st. (Ok (sync_headers_to_add st sync_header_result), st)) (\<lambda>to_add.
     seq (add_sync_block_header R S to_add) (\<lambda>_.
     seq (with_db (db_put_sync R S tip_key (ser_hash S tip_hash))) (\<lambda>_ st.
       case apply_headers (sync_headers st) to_add of
         Ok hl \<Rightarrow> (Ok (), st\<lparr>sync_headers := hl\<rparr>)
       | Err e \<Rightarrow> (Err e, st)
       | Panic p \<Rightarrow> (Panic p, st)))))"

text \<open>The last check: another tip than the one asked for reloads the store and is an error.\<close>

definition check_tip ::
    "(block_header \<Rightarrow> block_hash) \<Rightarrow> 'db rocks \<Rightarrow> store_codec \<Rightarrow> block_hash
      \<Rightarrow> ('db store, 'v sync_error, unit) action" where
  "check_tip bh R S tip_hash =
     seq (embed_act (\<lambda>st. (tip_of (sync_headers st), st))) (\<lambda>t.
       if tip_hash \<noteq> t
       then seq (embed_act (reload_store bh R S)) (\<lambda>_. lift (Err TipNotEqual))
       else ret ())"

text \<open>\<open>Indexer::sync_headers\<close>; \<open>None\<close> when the download never ends.\<close>

definition index_sync_headers ::
    "'v serde \<Rightarrow> 'p codec \<Rightarrow> ('v \<Rightarrow> (string, 'v) outcome) \<Rightarrow> 'db rocks \<Rightarrow> store_codec \<Rightarrow> block_hash
      \<Rightarrow> 'db indexer_state \<Rightarrow> (('v sync_error, unit) outcome \<times> 'db indexer_state) option" where
  "index_sync_headers J C rpc R S tip_hash s =
     (let (st, d) = s in
      case get_new_headers J C rpc (sync_headers st) tip_hash d of
        None \<Rightarrow> None
      | Some (Err e, d') \<Rightarrow> Some (Err (DownloadFailed e), st, d')
      | Some (Panic p, d') \<Rightarrow> Some (Panic p, st, d')
      | Some (Ok new_headers, d') \<Rightarrow>
          Some (let (r, st') =
                  seq (embed_act (index_new_headers (block_hash_of C) R S tip_hash new_headers))
                    (\<lambda>_. check_tip (block_hash_of C) R S tip_hash) st
                in (r, st', d')))"

text \<open>\<open>sync_headers_with_api_check\<close>: the same, with an assertion in place of the reload.\<close>

definition sync_headers_with_api_check ::
    "'v serde \<Rightarrow> 'p codec \<Rightarrow> ('v \<Rightarrow> (string, 'v) outcome) \<Rightarrow> 'db rocks \<Rightarrow> store_codec \<Rightarrow> block_hash
      \<Rightarrow> 'db indexer_state \<Rightarrow> (('v sync_error, unit) outcome \<times> 'db indexer_state) option" where
  "sync_headers_with_api_check J C rpc R S tip_hash s =
     (let (st, d) = s in
      case get_new_headers J C rpc (sync_headers st) tip_hash d of
        None \<Rightarrow> None
      | Some (Err e, d') \<Rightarrow> Some (Err (DownloadFailed e), st, d')
      | Some (Panic p, d') \<Rightarrow> Some (Panic p, st, d')
      | Some (Ok new_headers, d') \<Rightarrow>
          Some (let (r, st') =
                  embed_act (seq (index_new_headers (block_hash_of C) R S tip_hash new_headers)
                    (\<lambda>_ st. (and_then (tip_of (sync_headers st))
                               (\<lambda>t. if tip_hash = t then Ok () else Panic AssertFailed), st))) st
                in (r, st', d')))"

subsection \<open>The loop of the indexer thread\<close>

definition start_sync ::
    "'v serde \<Rightarrow> 'p codec \<Rightarrow> ('v \<Rightarrow> (string, 'v) outcome) \<Rightarrow> 'db rocks \<Rightarrow> store_codec
      \<Rightarrow> 'db indexer_state \<Rightarrow> (block_hash panicky \<times> 'db indexer_state) option" where
  "start_sync J C rpc R S s =
     (let (st, d) = s in
      case getbestblockhash J C rpc d of
        (Ok tip_hash, d') \<Rightarrow>
          (case index_sync_headers J C rpc R S tip_hash (st, d') of
             None \<Rightarrow> None
           | Some (Ok _, (st', d'')) \<Rightarrow>
               Some (let (r, st'') = store_full_compaction R st'
                     in (and_then r (\<lambda>_. Ok tip_hash), st'', d''))
           | Some (Err _, s') \<Rightarrow> Some (Panic UnwrapFailed, s')
           | Some (Panic p, s') \<Rightarrow> Some (Panic p, s'))
      | (Err _, d') \<Rightarrow> Some (Panic UnwrapFailed, st, d')
      | (Panic p, d') \<Rightarrow> Some (Panic p, st, d'))"

text \<open>One iteration, from the last synced tip to the next; failures are retried later.\<close>

definition indexer_iteration ::
    "'v serde \<Rightarrow> 'p codec \<Rightarrow> ('v \<Rightarrow> (string, 'v) outcome) \<Rightarrow> 'db rocks \<Rightarrow> store_codec \<Rightarrow> block_hash
      \<Rightarrow> 'db indexer_state \<Rightarrow> (block_hash panicky \<times> 'db indexer_state) option" where
  "indexer_iteration J C rpc R S tip_hash s =
     (let (st, d) = s in
      case getbestblockhash J C rpc d of
        (Ok current_tip, d') \<Rightarrow>
          (if current_tip \<noteq> tip_hash
           then case index_sync_headers J C rpc R S current_tip (st, d') of
                  None \<Rightarrow> None
                | Some (Ok _, s') \<Rightarrow> Some (Ok current_tip, s')
                | Some (Err _, s') \<Rightarrow> Some (Ok tip_hash, s')
                | Some (Panic p, s') \<Rightarrow> Some (Panic p, s')
           else Some (Ok tip_hash, st, d'))
      | (Err _, d') \<Rightarrow> Some (Ok tip_hash, st, d')
      | (Panic p, d') \<Rightarrow> Some (Panic p, st, d'))"

subsection \<open>The invariant of the store\<close>

definition store_inv ::
    "'db rocks \<Rightarrow> store_codec \<Rightarrow> ('db \<Rightarrow> bytes \<Rightarrow> bytes option) \<Rightarrow> (block_header \<Rightarrow> block_hash)
      \<Rightarrow> 'db store \<Rightarrow> bool" where
  "store_inv R S view bh st \<longleftrightarrow>
     db_inv R S view (sync_db st) \<and>
     rows_ok S bh (plain S view (sync_db st)) \<and>
     synced_blockhashes st = done_hashes S (plain S view (sync_db st)) \<and>
     wf_list bh (sync_headers st) \<and>
     header ` set (headers (sync_headers st)) \<subseteq> stored_headers S bh (plain S view (sync_db st))"

text \<open>The rows also hold the chain \<open>hs\<close>, ending in the tip row.\<close>

definition holds_chain ::
    "store_codec \<Rightarrow> ('db \<Rightarrow> bytes \<Rightarrow> bytes option) \<Rightarrow> (block_header \<Rightarrow> block_hash) \<Rightarrow> header_entry list
      \<Rightarrow> 'db \<Rightarrow> bool" where
  "holds_chain S view bh hs db \<longleftrightarrow>
     plain S view db tip_key = Some (ser_hash S (chain_tip hs)) \<and>
     header ` set hs \<subseteq> stored_headers S bh (plain S view db)"

lemma store_invD:
  assumes "store_inv R S view bh st"
  shows "db_inv R S view (sync_db st)" and "rows_ok S bh (plain S view (sync_db st))"
    and "synced_blockhashes st = done_hashes S (plain S view (sync_db st))"
    and "wf_list bh (sync_headers st)"
    and "header ` set (headers (sync_headers st)) \<subseteq> stored_headers S bh (plain S view (sync_db st))"
    and "store_codec_ok S"
  using assms by (simp_all add: store_inv_def db_inv_def)

lemma chain_unique:
  assumes hs: "wf_headers bh hs" and gs: "wf_headers bh gs"
    and cf: "collision_free bh (header ` (set hs \<union> set gs))" and tip: "chain_tip hs = chain_tip gs"
  shows "hs = gs"
proof -
  have cfs: "collision_free bh (header ` set hs)" "collision_free bh (header ` set gs)"
    by (rule collision_free_mono[OF cf]; auto)+
  have nonnull: "chain_tip xs \<noteq> all_zeros"
    if "wf_headers bh xs" "collision_free bh (header ` set xs)" "xs \<noteq> []" for xs
    using chain_hash_nonnull[OF that(1,2), of "length xs - 1"] that(3) by (simp add: last_conv_nth)
  show ?thesis
  proof (cases "hs = [] \<or> gs = []")
    case True
    with tip nonnull[OF hs cfs(1)] nonnull[OF gs cfs(2)] show ?thesis
      by (metis chain_tip_simps(1))
  next
    case False
    then have "hash (hs ! (length hs - 1)) = hash (gs ! (length gs - 1))"
      using tip by (simp add: last_conv_nth)
    with common_prefix[OF hs gs cf, of "length hs - 1" "length gs - 1"] False
    have len: "length hs - 1 = length gs - 1" and pre: "take (Suc (length hs - 1)) hs = take (Suc (length hs - 1)) gs"
      by (metis One_nat_def diff_Suc_less length_greater_0_conv)+
    from len False have "length hs = length gs" by (cases hs; cases gs) simp_all
    with pre False show ?thesis by simp
  qed
qed

subsection \<open>What one run does\<close>

lemma write_batches_rows:
  assumes "db_inv R S view db" and "consistent (concat batches)"
  shows "\<exists>db'. write_batches R S batches db = (Ok (), db') \<and> db_inv R S view db' \<and>
    plain S view db' = plain S view db ++ row_map (concat batches)"
  by (rule rs.write_all[OF assms]) (rule ext, simp_all)

lemma add_sync_block_header_rows:
  assumes inv: "db_inv R S view (sync_db st)" and es: "hashed_entries bh es"
    and inj: "inj_on bh (header ` set es)"
  shows "\<exists>db'. add_sync_block_header R S es st =
      (Ok (), st\<lparr>sync_db := db', synced_blockhashes := synced_blockhashes st \<union> hash ` set es\<rparr>) \<and>
    db_inv R S view db' \<and>
    plain S view db' = plain S view (sync_db st) ++ row_map (concat (map (sync_rows S) es))"
proof -
  have S: "store_codec_ok S" using inv by (simp add: db_inv_def)
  let ?rows = "concat (map (sync_rows S) es)"
  have "consistent (concat (chunks 50000 ?rows))"
    using consistent_sync_rows[OF S es inj] by (simp add: concat_chunks)
  from write_batches_rows[OF inv this] obtain db' where
    "write_batches R S (chunks 50000 ?rows) (sync_db st) = (Ok (), db')" "db_inv R S view db'"
    "plain S view db' = plain S view (sync_db st) ++ row_map ?rows"
    by (auto simp: concat_chunks)
  then show ?thesis
    by (intro exI[of _ db'])
      (simp add: add_sync_block_header_def add_sync_headers_rows[OF S] with_db_def)
qed

text \<open>The hashes already synced are closed under parents, so those left to add are a suffix.\<close>

lemma to_add_suffix:
  assumes inv: "store_inv R S view bh st" and hs: "wf_headers bh hs"
    and cf: "collision_free bh (stored_headers S bh (plain S view (sync_db st)) \<union> header ` set hs)"
    and k: "k \<le> length hs"
  shows "\<exists>m. k \<le> m \<and> m \<le> length hs \<and> sync_headers_to_add st (drop k hs) = drop m hs \<and>
    (\<forall>i. k \<le> i \<longrightarrow> i < m \<longrightarrow> header (hs ! i) \<in> stored_headers S bh (plain S view (sync_db st)))"
proof -
  let ?A = "plain S view (sync_db st)"
  note inv' = store_invD[OF inv]
  have synced: "synced_blockhashes st = bh ` stored_headers S bh ?A"
    using inv'(3) done_iff_stored[OF inv'(6,2)] by simp
  have stored: "header (hs ! i) \<in> stored_headers S bh ?A"
    if i: "i < length hs" "hash (hs ! i) \<in> synced_blockhashes st" for i
  proof -
    from i(2) obtain x where x: "x \<in> stored_headers S bh ?A" "bh (header (hs ! i)) = bh x"
      unfolding synced using wf_headersD(2)[OF hs i(1)] by auto
    moreover have "inj_on bh (stored_headers S bh ?A \<union> header ` set hs)"
      using cf by (simp add: collision_free_def)
    ultimately have "header (hs ! i) = x"
      using i(1) by (auto dest!: inj_onD)
    with x(1) show ?thesis by simp
  qed
  have down: "hash (hs ! i) \<in> synced_blockhashes st"
    if "hash (hs ! j) \<in> synced_blockhashes st" "i \<le> j" "j < length hs" for i j
    using that(2,1,3)
  proof (induction rule: inc_induct)
    case (step i)
    then have i: "Suc i < length hs" "hash (hs ! Suc i) \<in> synced_blockhashes st" by auto
    have "prev_blockhash (header (hs ! Suc i)) = hash (hs ! i)"
      using wf_headersD(3)[OF hs i(1)] by simp
    moreover have "hash (hs ! i) \<noteq> all_zeros"
      by (rule chain_hash_nonnull[OF hs collision_free_mono[OF cf]]) (use i in auto)
    ultimately show ?case
      using rows_okD(4)[OF inv'(2) stored[OF i]] inv'(3) by auto
  qed
  have "\<exists>m \<le> length (drop k hs). filter (\<lambda>e. hash e \<notin> synced_blockhashes st) (drop k hs) = drop m (drop k hs) \<and>
      (\<forall>i < m. \<not> hash (drop k hs ! i) \<notin> synced_blockhashes st)"
  proof (rule filter_upward_closed)
    fix i j assume ij: "i \<le> j" "j < length (drop k hs)" "hash (drop k hs ! i) \<notin> synced_blockhashes st"
    from ij(2) k have "k + j < length hs" by auto
    with ij show "hash (drop k hs ! j) \<notin> synced_blockhashes st"
      using down[of "k + j" "k + i"] k by auto
  qed
  then obtain m where m: "m \<le> length hs - k" "sync_headers_to_add st (drop k hs) = drop (k + m) hs"
    "\<And>i. i < m \<Longrightarrow> hash (hs ! (k + i)) \<in> synced_blockhashes st"
    using k by (auto simp: sync_headers_to_add_def add.commute)
  have "header (hs ! i) \<in> stored_headers S bh ?A" if "k \<le> i" "i < k + m" for i
    using stored[of i] m(3)[of "i - k"] m(1) k that by simp
  with m k show ?thesis by (intro exI[of _ "k + m"]) auto
qed

text \<open>Applying a suffix of the chain gives the chain, leaves the list alone, or panics.\<close>

lemma apply_suffix:
  assumes wf: "wf_list bh hl" and hs: "wf_headers bh hs"
    and cf: "collision_free bh (header ` (set hs \<union> set (headers hl)))"
    and m: "m \<le> length hs"
  shows "apply_headers hl (drop m hs) = Ok hl \<or> apply_headers hl (drop m hs) = Panic IndexOutOfBounds \<or>
    (\<exists>hl'. apply_headers hl (drop m hs) = Ok hl' \<and> headers hl' = hs \<and> wf_list bh hl')"
proof (cases "m < length hs")
  case True
  let ?e = "hs ! m"
  have e: "height ?e = m" "prev_blockhash (header ?e) = chain_tip (take m hs)"
    using hs True by (simp_all add: wf_headers_def)
  have ne: "drop m hs = ?e # drop (Suc m) hs" using True by (simp add: Cons_nth_drop_Suc)
  have linked: "linked_entries (drop m hs)"
    unfolding linked_entries_def successively_conv_nth
    using wf_headersD(1,3)[OF hs] by auto
  have hashed: "hashed_entries bh (drop m hs)"
    using wf_headersD(2)[OF hs] by (auto simp: hashed_entries_def in_set_conv_nth)
  show ?thesis
  proof (cases "attaches (headers hl) (drop m hs)")
    case True
    then have att: "m \<le> length (headers hl)" "chain_tip (take m hs) = chain_tip (take m (headers hl))"
      using ne e by (simp_all add: attaches_def)
    have "take m hs = take m (headers hl)"
      by (rule chain_unique[OF _ _ collision_free_mono[OF cf] att(2)])
        (use hs wf in \<open>auto simp: wf_headers_take wf_list_def dest: in_set_takeD\<close>)
    moreover obtain hl' where hl': "apply_headers hl (drop m hs) = Ok hl'"
      "headers hl' = take m (headers hl) @ drop m hs"
      using apply_headers_attached[OF _ linked True] ne e by auto
    ultimately have hd: "headers hl' = hs" by (metis append_take_drop_id)
    have cf': "collision_free bh (header ` set (headers hl @ drop m hs))"
      by (rule collision_free_mono[OF cf]) (auto dest: in_set_dropD)
    with wf_list_apply[OF wf hashed cf' hl'(1)] hd hl'(1) show ?thesis by blast
  next
    case False
    then have "m > 0" unfolding ne using e by (cases m) (auto simp: attaches_def)
    with False ne e True linked show ?thesis
      by (auto simp: apply_headers_def attaches_def linked_entries_def chain_tip_take Let_def)
  qed
qed (simp add: apply_headers_def)

text \<open>
  The whole step, on the headers above the fork point: it ends with the chain in memory (at
  once, or after the reload), or panics in \<open>apply\<close>; in every case the rows hold the chain. The
  predicate permits that one panic, so a property that concludes it does not promise that the chain
  is in memory.
\<close>

definition run_outcome ::
    "'db rocks \<Rightarrow> store_codec \<Rightarrow> ('db \<Rightarrow> bytes \<Rightarrow> bytes option) \<Rightarrow> (block_header \<Rightarrow> block_hash)
      \<Rightarrow> header_entry list \<Rightarrow> ('v sync_error, unit) outcome \<Rightarrow> 'db store \<Rightarrow> bool" where
  "run_outcome R S view bh hs r st \<longleftrightarrow>
     db_inv R S view (sync_db st) \<and> rows_ok S bh (plain S view (sync_db st)) \<and>
     holds_chain S view bh hs (sync_db st) \<and>
     (case r of
        Ok _ \<Rightarrow> headers (sync_headers st) = hs \<and> store_inv R S view bh st
      | Err e \<Rightarrow> e = TipNotEqual \<and> headers (sync_headers st) = hs \<and> store_inv R S view bh st
      | Panic p \<Rightarrow> p = IndexOutOfBounds)"

lemma tip_of_wf: "wf_list bh hl \<Longrightarrow> tip_of hl = Ok (chain_tip (headers hl))"
  by (cases "headers hl") (auto simp: tip_of_def wf_list_def)

lemma check_tip_rebuilds:
  assumes inv: "store_inv R S view bh st" and hold: "holds_chain S view bh hs (sync_db st)"
    and hs: "wf_headers bh hs" and cf: "collision_free bh (stored_headers S bh (plain S view (sync_db st)))"
  shows "\<exists>r st'. check_tip bh R S (chain_tip hs) st = (r, st') \<and> sync_db st' = sync_db st \<and>
    run_outcome R S view bh hs r st' \<and>
    r = (if chain_tip hs = chain_tip (headers (sync_headers st)) then Ok () else Err TipNotEqual)"
proof -
  note inv' = store_invD[OF inv]
  have tip: "tip_of (sync_headers st) = Ok (chain_tip (headers (sync_headers st)))"
    by (rule tip_of_wf[OF inv'(4)])
  show ?thesis
  proof (cases "chain_tip hs = chain_tip (headers (sync_headers st))")
    case True
    have "hs = headers (sync_headers st)"
      by (rule chain_unique[OF hs _ collision_free_mono[OF cf] True])
        (use inv' hold in \<open>auto simp: wf_list_def holds_chain_def\<close>)
    with tip True inv hold inv'(1,2) show ?thesis
      by (auto simp: check_tip_def run_outcome_def)
  next
    case False
    from load_state_chain[OF inv'(1,2) _ hs _ cf] hold obtain hl where hl:
      "load_state bh R S (sync_db st) = Ok (done_hashes S (plain S view (sync_db st)), hl)"
      "headers hl = hs" "wf_list bh hl" by (auto simp: holds_chain_def)
    let ?st = "st\<lparr>reload := False, synced_blockhashes := done_hashes S (plain S view (sync_db st)), sync_headers := hl\<rparr>"
    have "reload_store bh R S st = (Ok (), ?st)"
      by (simp add: reload_store_def seq_def hl(1))
    then have "check_tip bh R S (chain_tip hs) st = (Err TipNotEqual, ?st)"
      using tip False by (simp add: check_tip_def)
    moreover have "store_inv R S view bh ?st"
      using inv'(1,2) hl hold by (simp add: store_inv_def holds_chain_def)
    ultimately show ?thesis
      using hl(2) inv'(1,2) hold False
      by (intro exI[of _ "Err TipNotEqual"] exI[of _ ?st]) (simp add: run_outcome_def)
  qed
qed

text \<open>
  The entries that are written: a suffix of the chain whose earlier headers are stored already;
  every initial part of it can be added to the rows.
\<close>

lemma new_entries:
  assumes inv: "store_inv R S view bh st" and hs: "wf_headers bh hs"
    and cf: "collision_free bh (stored_headers S bh (plain S view (sync_db st)) \<union> header ` set hs)"
  obtains m where "m \<le> length hs"
    and "sync_headers_to_add st (drop (fork_point hs (headers (sync_headers st))) hs) = drop m hs"
    and "hashed_entries bh (drop m hs)"
    and "inj_on bh (stored_headers S bh (plain S view (sync_db st)) \<union> header ` set (drop m hs))"
    and "header ` set hs \<subseteq> stored_headers S bh (plain S view (sync_db st)) \<union> header ` set (drop m hs)"
    and "\<forall>n. \<forall>e \<in> set (take n (drop m hs)). prev_blockhash (header e) = all_zeros \<or>
      prev_blockhash (header e) \<in> done_hashes S (plain S view (sync_db st)) \<union> hash ` set (take n (drop m hs))"
proof -
  let ?A = "plain S view (sync_db st)" and ?hl = "sync_headers st"
  let ?k = "fork_point hs (headers ?hl)"
  note inv' = store_invD[OF inv] and fk = fork_point(1-3)[of hs "headers ?hl"]
  obtain m where m: "?k \<le> m" "m \<le> length hs" "sync_headers_to_add st (drop ?k hs) = drop m hs"
    "\<And>i. ?k \<le> i \<Longrightarrow> i < m \<Longrightarrow> header (hs ! i) \<in> stored_headers S bh ?A"
    using to_add_suffix[OF inv hs cf fk(1)] by blast
  have below: "header (hs ! i) \<in> stored_headers S bh ?A" if "i < m" for i
  proof (cases "?k \<le> i")
    case False
    then have "hs ! i = headers ?hl ! i" "i < length (headers ?hl)"
      using fk(2,3) by (metis not_le nth_take, linarith)
    with inv'(5) show ?thesis by auto
  qed (use m(4) that in blast)
  have "hs ! i \<in> set (drop m hs)" if "m \<le> i" "i < length hs" for i
    using that by (auto simp: in_set_conv_nth intro!: exI[of _ "i - m"])
  with below have "header (hs ! i) \<in> stored_headers S bh ?A \<union> header ` set (drop m hs)" if "i < length hs" for i
    using that by (cases "i < m") simp_all
  then have all: "header ` set hs \<subseteq> stored_headers S bh ?A \<union> header ` set (drop m hs)"
    by (metis (no_types, lifting) image_subsetI in_set_conv_nth)
  have parents: "prev_blockhash (header e) = all_zeros \<or>
      prev_blockhash (header e) \<in> done_hashes S ?A \<union> hash ` set (take n (drop m hs))"
    if e: "e \<in> set (take n (drop m hs))" for n e
  proof -
    from e obtain j where j: "j < n" "m + j < length hs" "e = hs ! (m + j)" by (auto simp: in_set_conv_nth)
    show ?thesis
    proof (cases "m + j = 0 \<or> 0 < j")
      case True
      then have "m + j > 0 \<Longrightarrow> hs ! (m + j - 1) \<in> set (take n (drop m hs))"
        using j by (auto simp: in_set_conv_nth intro!: exI[of _ "j - 1"])
      with wf_headersD(3)[OF hs j(2)] j(3) show ?thesis by auto
    next
      case False
      then have "header (hs ! (m - 1)) \<in> stored_headers S bh ?A" using below[of "m - 1"] by auto
      then have "bh (header (hs ! (m - 1))) \<in> done_hashes S ?A" by (rule rows_okD(3)[OF inv'(2)])
      with wf_headersD(2)[OF hs, of "m - 1"] wf_headersD(3)[OF hs j(2)] j(2,3) False
      show ?thesis by auto
    qed
  qed
  show ?thesis
  proof (rule that[OF m(2,3)])
    show "hashed_entries bh (drop m hs)"
      using wf_headersD(2)[OF hs] by (auto simp: hashed_entries_def in_set_conv_nth)
    show "inj_on bh (stored_headers S bh ?A \<union> header ` set (drop m hs))"
      using cf by (auto simp: collision_free_def dest: in_set_dropD intro: inj_on_subset)
  qed (use all parents in blast)+
qed

lemma index_run_exact:
  assumes inv: "store_inv R S view bh st" and hs: "wf_headers bh hs"
    and cf: "collision_free bh (stored_headers S bh (plain S view (sync_db st)) \<union> header ` set hs)"
  shows "\<exists>(r :: ('v sync_error, unit) outcome) st'. seq (embed_act (index_new_headers bh R S (chain_tip hs)
        (map header (drop (fork_point hs (headers (sync_headers st))) hs))))
      (\<lambda>_. check_tip bh R S (chain_tip hs)) st = (r, st') \<and> run_outcome R S view bh hs r st' \<and>
    stored_headers S bh (plain S view (sync_db st')) =
      stored_headers S bh (plain S view (sync_db st)) \<union> header ` set hs \<and>
    plain S view (sync_db st') version_key = plain S view (sync_db st) version_key \<and>
    r = (case apply_headers (sync_headers st)
           (sync_headers_to_add st (drop (fork_point hs (headers (sync_headers st))) hs)) of
         Ok hl \<Rightarrow> (if chain_tip hs = chain_tip (headers hl) then Ok () else Err TipNotEqual)
       | _ \<Rightarrow> Panic IndexOutOfBounds)"
proof -
  let ?A = "plain S view (sync_db st)" and ?hl = "sync_headers st"
  let ?k = "fork_point hs (headers ?hl)"
  note inv' = store_invD[OF inv] and fk = fork_point(1-3)[of hs "headers ?hl"]
  have cfs: "collision_free bh (header ` set hs)"
    and cfl: "collision_free bh (header ` (set hs \<union> set (headers ?hl)))"
    by (rule collision_free_mono[OF cf]; use inv'(5) in auto)+
  have order: "order bh ?hl (map header (drop ?k hs)) = Ok (drop ?k hs)"
    by (rule order_suffix[OF inv'(4) hs fk(2,3)])
      (use fk(1) in \<open>auto intro!: chain_hash_nonnull[OF hs cfs]\<close>)
  obtain m where m: "m \<le> length hs" "sync_headers_to_add st (drop ?k hs) = drop m hs"
    and hashed: "hashed_entries bh (drop m hs)"
    and inj: "inj_on bh (stored_headers S bh ?A \<union> header ` set (drop m hs))"
    and all: "header ` set hs \<subseteq> stored_headers S bh ?A \<union> header ` set (drop m hs)"
    and parents: "\<forall>n. \<forall>e \<in> set (take n (drop m hs)). prev_blockhash (header e) = all_zeros \<or>
      prev_blockhash (header e) \<in> done_hashes S ?A \<union> hash ` set (take n (drop m hs))"
    by (rule new_entries[OF inv hs cf]) (rule that)
  let ?es = "drop m hs"
  have parents_all: "\<forall>e \<in> set ?es. prev_blockhash (header e) = all_zeros \<or>
      prev_blockhash (header e) \<in> done_hashes S ?A \<union> hash ` set ?es"
    using parents[rule_format, of _ "length ?es"] by simp
  obtain db1 where db1: "add_sync_block_header R S ?es st =
      (Ok (), st\<lparr>sync_db := db1, synced_blockhashes := synced_blockhashes st \<union> hash ` set ?es\<rparr>)"
    "db_inv R S view db1" "plain S view db1 = ?A ++ row_map (concat (map (sync_rows S) ?es))"
    using add_sync_block_header_rows[OF inv'(1) hashed inj_on_subset[OF inj]] by blast
  obtain db2 where db2: "db_put_sync R S tip_key (ser_hash S (chain_tip hs)) db1 = (Ok (), db2)"
    "db_inv R S view db2" "plain S view db2 = (plain S view db1)(tip_key \<mapsto> ser_hash S (chain_tip hs))"
    using rs.put_abs[OF db1(2)] by blast
  note add = rows_ok_add[OF inv'(6,2) hashed inj parents_all, folded db1(3)]
  note other = rows_ok_other(1,3)[OF inv'(6) other_keys(1,2), where bh = bh and A = "plain S view db1"
      and v = "ser_hash S (chain_tip hs)", folded db2(3)]
  have stored2: "stored_headers S bh (plain S view db2) = stored_headers S bh ?A \<union> header ` set hs"
    using other(1) add(1) all set_drop_subset[of m hs] by auto
  have done2: "done_hashes S (plain S view db2) = synced_blockhashes st \<union> hash ` set ?es"
    using rows_ok_other(2)[OF inv'(6) other_keys(1,2)] add(2) inv'(3) by (simp add: db2(3))
  have version2: "plain S view db2 version_key = ?A version_key"
    using add by (simp add: db2(3) other_keys(5)[symmetric])
  have rows2: "rows_ok S bh (plain S view db2)" using other(2) add(3) by blast
  have hold2: "holds_chain S view bh hs db2"
    using db2(3) stored2 by (simp add: holds_chain_def)
  let ?st2 = "st\<lparr>synced_blockhashes := synced_blockhashes st \<union> hash ` set ?es, sync_db := db2\<rparr>"
  have run: "index_new_headers bh R S (chain_tip hs) (map header (drop ?k hs)) st =
      (case apply_headers ?hl ?es of
         Ok hl \<Rightarrow> (Ok (), ?st2\<lparr>sync_headers := hl\<rparr>) | Err e \<Rightarrow> (Err e, ?st2) | Panic p \<Rightarrow> (Panic p, ?st2))"
    using order m(2) db1(1) db2(1) by (simp add: index_new_headers_def with_db_def)
  have cf2: "collision_free bh (stored_headers S bh (plain S view db2))"
    using cf stored2 by simp
  have fin: ?thesis if hl: "apply_headers ?hl ?es = Ok hl" "wf_list bh hl"
      "header ` set (headers hl) \<subseteq> stored_headers S bh (plain S view db2)" for hl
  proof -
    have "store_inv R S view bh (?st2\<lparr>sync_headers := hl\<rparr>)"
      using db2(2) rows2 done2 hl by (simp add: store_inv_def)
    from check_tip_rebuilds[OF this _ hs] hold2 cf2 obtain r :: "('v sync_error, unit) outcome" and st' where
      "check_tip bh R S (chain_tip hs) (?st2\<lparr>sync_headers := hl\<rparr>) = (r, st')" "sync_db st' = db2"
      "run_outcome R S view bh hs r st'"
      "r = (if chain_tip hs = chain_tip (headers hl) then Ok () else Err TipNotEqual)" by auto
    with run hl(1) stored2 version2 m(2) show ?thesis by (auto simp: seq_def)
  qed
  from apply_suffix[OF inv'(4) hs cfl m(1)] show ?thesis
  proof (elim disjE exE conjE)
    assume "apply_headers ?hl ?es = Ok ?hl"
    then show ?thesis using inv'(4,5) stored2 by (intro fin) auto
  next
    assume panics: "apply_headers ?hl ?es = Panic IndexOutOfBounds"
    with run have "index_new_headers bh R S (chain_tip hs) (map header (drop ?k hs)) st =
        (Panic IndexOutOfBounds, ?st2)" by simp
    then show ?thesis
      using panics m(2) db2(2) rows2 hold2 stored2 version2 by (auto simp: seq_def run_outcome_def)
  next
    fix hl assume "apply_headers ?hl ?es = Ok hl" "headers hl = hs" "wf_list bh hl"
    then show ?thesis using stored2 by (intro fin) auto
  qed
qed

lemma index_run:
  assumes "store_inv R S view bh st" and "wf_headers bh hs"
    and "collision_free bh (stored_headers S bh (plain S view (sync_db st)) \<union> header ` set hs)"
  shows "\<exists>(r :: ('v sync_error, unit) outcome) st'. seq (embed_act (index_new_headers bh R S (chain_tip hs)
        (map header (drop (fork_point hs (headers (sync_headers st))) hs))))
      (\<lambda>_. check_tip bh R S (chain_tip hs)) st = (r, st') \<and> run_outcome R S view bh hs r st' \<and>
    stored_headers S bh (plain S view (sync_db st')) =
      stored_headers S bh (plain S view (sync_db st)) \<union> header ` set hs \<and>
    plain S view (sync_db st') version_key = plain S view (sync_db st) version_key"
  using index_run_exact[OF assms, where ?'v = 'v] by blast

text \<open>
  From an empty list the result depends on what is stored: with none of the headers the list is
  built at once, with all of them it is built by the reload, in between \<open>apply\<close> panics.
\<close>

lemma first_run_result:
  assumes inv: "store_inv R S view bh st" and empty: "headers (sync_headers st) = []"
    and hs: "wf_headers bh hs"
    and cf: "collision_free bh (stored_headers S bh (plain S view (sync_db st)) \<union> header ` set hs)"
  shows "(case apply_headers (sync_headers st) (sync_headers_to_add st hs) of
         Ok hl \<Rightarrow> (if chain_tip hs = chain_tip (headers hl) then Ok () else Err TipNotEqual)
       | _ \<Rightarrow> Panic IndexOutOfBounds) =
     (if header ` set hs \<inter> stored_headers S bh (plain S view (sync_db st)) = {} then Ok ()
      else if header ` set hs \<subseteq> stored_headers S bh (plain S view (sync_db st)) then Err TipNotEqual
      else Panic IndexOutOfBounds)"
proof -
  let ?stored = "stored_headers S bh (plain S view (sync_db st))"
  note inv' = store_invD[OF inv]
  have "synced_blockhashes st = bh ` ?stored" using inv'(3) done_iff_stored[OF inv'(6,2)] by simp
  moreover have "hash e = bh (header e)" if "e \<in> set hs" for e
    using that wf_headersD(2)[OF hs] by (auto simp: in_set_conv_nth)
  moreover have "inj_on bh (?stored \<union> header ` set hs)" using cf by (simp add: collision_free_def)
  ultimately have synced: "hash e \<in> synced_blockhashes st \<longleftrightarrow> header e \<in> ?stored" if "e \<in> set hs" for e
    using that by (auto dest: inj_onD)
  obtain m where m: "m \<le> length hs" "sync_headers_to_add st hs = drop m hs"
    using to_add_suffix[OF inv hs cf, of 0] by auto
  have kept: "e \<in> set (drop m hs) \<longleftrightarrow> e \<in> set hs \<and> header e \<notin> ?stored" for e
    unfolding m(2)[symmetric] using synced by (auto simp: sync_headers_to_add_def)
  have linked: "linked_entries (drop i hs)" for i
    unfolding linked_entries_def successively_conv_nth using wf_headersD(1,3)[OF hs] by auto
  show ?thesis
  proof (cases "hs = []")
    case True
    with m empty show ?thesis by (simp add: apply_headers_def)
  next
    case False
    consider "m = 0" | "m = length hs" | "0 < m" "m < length hs" using m(1) by linarith
    then show ?thesis
    proof cases
      case 1
      have "attaches (headers (sync_headers st)) hs"
        using False wf_headersD(1,3)[OF hs, of 0] by (cases hs) (simp_all add: attaches_def)
      from apply_headers_attached[OF False linked[of 0, simplified] this] obtain hl where
        "apply_headers (sync_headers st) hs = Ok hl" "headers hl = hs" using empty by auto
      moreover have "header ` set hs \<inter> ?stored = {}" using kept 1 by auto
      ultimately show ?thesis using m(2) 1 by simp
    next
      case 2
      have "chain_tip hs \<noteq> all_zeros"
        using chain_hash_nonnull[OF hs collision_free_mono[OF cf], of "length hs - 1"] False
        by (simp add: last_conv_nth)
      moreover have "header ` set hs \<subseteq> ?stored" using kept 2 by auto
      moreover have "header ` set hs \<inter> ?stored \<noteq> {}" using calculation(2) False by (cases hs) auto
      ultimately show ?thesis using m(2) 2 empty by (simp add: apply_headers_def)
    next
      case 3
      have "hs ! m \<in> set (drop m hs)" using 3(2) by (simp add: Cons_nth_drop_Suc[symmetric])
      then have "header (hs ! m) \<notin> ?stored" "hs ! m \<in> set hs" using kept by auto
      moreover have "header (hs ! 0) \<in> ?stored"
      proof (rule ccontr)
        assume "header (hs ! 0) \<notin> ?stored"
        then have "hs ! 0 \<in> set (sync_headers_to_add st hs)" using kept m(2) False by simp
        then have "hs ! 0 \<in> set (drop m hs)" using m(2) by simp
        then obtain i where i: "i < length (drop m hs)" "drop m hs ! i = hs ! 0" unfolding in_set_conv_nth by blast
        then have "m + i < length hs" "hs ! (m + i) = hs ! 0" using 3 by simp_all
        with wf_headersD(1)[OF hs, of "m + i"] wf_headersD(1)[OF hs, of 0] 3 False show False by simp
      qed
      moreover have "apply_headers (sync_headers st) (drop m hs) = Panic IndexOutOfBounds"
        using 3 empty linked[of m] wf_headersD(1)[OF hs, of m]
        by (simp add: Cons_nth_drop_Suc[symmetric] apply_headers_def linked_entries_def)
      moreover have "hs ! 0 \<in> set hs" using False by simp
      ultimately have "header ` set hs \<inter> ?stored \<noteq> {}" "\<not> header ` set hs \<subseteq> ?stored"
        "apply_headers (sync_headers st) (drop m hs) = Panic IndexOutOfBounds" by blast+
      with m(2) show ?thesis by simp
    qed
  qed
qed

lemma index_nothing_new:
  assumes inv: "store_inv R S view bh st"
  shows "\<exists>st'. seq (embed_act (index_new_headers bh R S (chain_tip (headers (sync_headers st))) []))
      (\<lambda>_. check_tip bh R S (chain_tip (headers (sync_headers st)))) st =
        (Ok () :: ('v sync_error, unit) outcome, st') \<and>
    sync_headers st' = sync_headers st"
proof -
  note inv' = store_invD[OF inv]
  obtain db where "db_put_sync R S tip_key (ser_hash S (chain_tip (headers (sync_headers st)))) (sync_db st) =
      (Ok (), db)" using rs.put_abs[OF inv'(1)] by blast
  then have "index_new_headers bh R S (chain_tip (headers (sync_headers st))) [] st =
      (Ok (), st\<lparr>synced_blockhashes := synced_blockhashes st, sync_db := db, sync_headers := sync_headers st\<rparr>)"
    by (simp add: index_new_headers_def order_def sync_headers_to_add_def add_sync_block_header_def
        with_db_def apply_headers_def)
  then show ?thesis
    by (simp add: check_tip_def tip_of_wf[OF inv'(4)])
qed

lemma fork_point_self: "fork_point hs hs = length hs"
  using fork_point(1)[of hs hs] fork_point(4)[of "length hs" hs hs] by simp

text \<open>A run with a node that serves the chain, from a non-empty list.\<close>

lemma sync_run:
  assumes inv: "store_inv R S view (block_hash_of C) st" and ne: "headers (sync_headers st) \<noteq> []"
    and hs: "wf_headers (block_hash_of C) hs"
    and cf: "collision_free (block_hash_of C)
      (stored_headers S (block_hash_of C) (plain S view (sync_db st)) \<union> header ` set hs)"
    and node: "serves_chain J C rpc (network d) hs"
  shows "\<exists>(r :: ('v sync_error, unit) outcome) st' d'.
    index_sync_headers J C rpc R S (chain_tip hs) (st, d) = Some (r, st', d') \<and>
    network d' = network d \<and> run_outcome R S view (block_hash_of C) hs r st' \<and>
    stored_headers S (block_hash_of C) (plain S view (sync_db st')) =
      stored_headers S (block_hash_of C) (plain S view (sync_db st)) \<union> header ` set hs \<and>
    plain S view (sync_db st') version_key = plain S view (sync_db st) version_key \<and>
    (headers (sync_headers st) = hs \<longrightarrow> r = Ok () \<and> headers (sync_headers st') = hs)"
proof -
  note inv' = store_invD[OF inv]
  let ?new = "map header (drop (fork_point hs (headers (sync_headers st))) hs)"
  have "collision_free (block_hash_of C) (header ` (set hs \<union> set (headers (sync_headers st))))"
    by (rule collision_free_mono[OF cf]) (use inv'(5) in auto)
  from get_new_headers_from_fork[OF inv'(4) ne hs this node]
  obtain d' where d': "get_new_headers J C rpc (sync_headers st) (chain_tip hs) d = Some (Ok ?new, d')"
    "network d' = network d" by blast
  obtain r :: "('v sync_error, unit) outcome" and st' where r: "seq (embed_act (index_new_headers (block_hash_of C) R S (chain_tip hs) ?new))
      (\<lambda>_. check_tip (block_hash_of C) R S (chain_tip hs)) st = (r, st')"
    "run_outcome R S view (block_hash_of C) hs r st'"
    "stored_headers S (block_hash_of C) (plain S view (sync_db st')) =
      stored_headers S (block_hash_of C) (plain S view (sync_db st)) \<union> header ` set hs"
    "plain S view (sync_db st') version_key = plain S view (sync_db st) version_key"
    using index_run[OF inv hs cf] by blast
  have "r = Ok () \<and> headers (sync_headers st') = hs" if same: "headers (sync_headers st) = hs"
    using index_nothing_new[OF inv, where ?'v = 'v] r(1) unfolding same fork_point_self by (auto simp: same)
  with d' r show ?thesis
    by (auto simp: index_sync_headers_def)
qed

subsection \<open>Properties\<close>

text \<open>
  C2: synchronisation converges. From a consistent store with a non-empty list, whatever
  branch it is on, one run against a node that serves the chain \<open>hs\<close> downloads, writes and
  applies until the list in memory is exactly \<open>hs\<close> (with the result \<open>Ok\<close>, or with an error
  after the reload), or it panics in \<open>apply\<close>; in all three cases the rows on disk are
  consistent and hold \<open>hs\<close> under its tip, so that a restart rebuilds it.
\<close>

theorem sync_headers_converges:
  fixes J :: "'v serde" and view :: "'db \<Rightarrow> bytes \<Rightarrow> bytes option"
  assumes "store_inv R S view (block_hash_of C) st" and "headers (sync_headers st) \<noteq> []"
    and "wf_headers (block_hash_of C) hs"
    and "collision_free (block_hash_of C)
      (stored_headers S (block_hash_of C) (plain S view (sync_db st)) \<union> header ` set hs)"
    and "serves_chain J C rpc (network d) hs"
  shows "\<exists>r st' d'. index_sync_headers J C rpc R S (chain_tip hs) (st, d) = Some (r, st', d') \<and>
    run_outcome R S view (block_hash_of C) hs r st'"
  using sync_run[OF assms] by blast

definition forked_store :: "(bytes, bytes) rbt store" where
  "forked_store = \<lparr>sync_db = chain_db (headers forked_list), synced_blockhashes = {1, 5},
     sync_headers = forked_list, reload = False\<rparr>"

lemma forked_chain:
  "wf_headers sample_bh (headers forked_list)"
  "collision_free sample_bh (header ` set (headers forked_list))"
  using wf_forked_list sample_collision_free
  by (auto simp: wf_list_def elim: collision_free_mono)

lemma forked_store_inv: "store_inv tree_rocks disk_codec RBT.lookup sample_bh forked_store"
  using wf_forked_list chain_db(1-3)[OF forked_chain]
  by (auto simp: store_inv_def forked_store_def) (auto simp: forked_list_def sample_defs)

lemma forked_store_collision_free:
  "collision_free sample_bh
     (stored_headers disk_codec sample_bh (plain disk_codec RBT.lookup (sync_db forked_store)) \<union>
      header ` set node_chain)"
  using sample_collision_free chain_db(2)[OF forked_chain]
  by (simp add: forked_store_def image_Un Un_commute)

theorem sync_headers_converges_witness:
  "\<exists>r st' d'. index_sync_headers json_serde byte_codec (sample_node (map header node_chain)) tree_rocks
       disk_codec (chain_tip node_chain) (forked_store, sample_daemon) = Some (r, st', d') \<and>
     run_outcome tree_rocks disk_codec RBT.lookup (block_hash_of byte_codec) node_chain r st'"
proof (rule sync_headers_converges)
  have bh: "block_hash_of byte_codec = sample_bh" by (simp add: byte_codec_def)
  show "store_inv tree_rocks disk_codec RBT.lookup (block_hash_of byte_codec) forked_store"
    by (simp add: bh forked_store_inv)
  show "headers (sync_headers forked_store) \<noteq> []" by (simp add: forked_store_def forked_list_def)
  show "wf_headers (block_hash_of byte_codec) node_chain" by (simp add: bh wf_node_chain)
  show "collision_free (block_hash_of byte_codec) (stored_headers disk_codec (block_hash_of byte_codec)
      (plain disk_codec RBT.lookup (sync_db forked_store)) \<union> header ` set node_chain)"
    using forked_store_collision_free by (simp add: bh)
  show "serves_chain json_serde byte_codec (sample_node (map header node_chain)) (network sample_daemon)
      node_chain"
    using node_chain_served by (simp add: sample_daemon_def)
qed

text \<open>
  C3: the indexer loop reaches a new tip. While the node keeps serving the chain \<open>hs\<close> with a
  tip other than the last one synced, an iteration either panics in \<open>apply\<close> or leaves \<open>hs\<close> in
  memory, and then at the latest the next iteration accepts its tip: the retry after the
  "try again" error succeeds.
\<close>

theorem indexer_loop_converges:
  fixes J :: "'v serde" and view :: "'db \<Rightarrow> bytes \<Rightarrow> bytes option"
  assumes inv: "store_inv R S view (block_hash_of C) st" and ne: "headers (sync_headers st) \<noteq> []"
    and hs: "wf_headers (block_hash_of C) hs" "hs \<noteq> []"
    and cf: "collision_free (block_hash_of C)
      (stored_headers S (block_hash_of C) (plain S view (sync_db st)) \<union> header ` set hs)"
    and node: "serves_chain J C rpc (network d) hs"
    and best: "\<forall>d'. network d' = network d \<longrightarrow> fst (getbestblockhash J C rpc d') = Ok (chain_tip hs)"
    and new: "chain_tip hs \<noteq> t"
  shows "\<exists>r st1 d1. indexer_iteration J C rpc R S t (st, d) = Some (r, st1, d1) \<and>
    (r = Panic IndexOutOfBounds \<or>
     headers (sync_headers st1) = hs \<and>
     (\<exists>t1 st2 d2. r = Ok t1 \<and>
        indexer_iteration J C rpc R S t1 (st1, d1) = Some (Ok (chain_tip hs), st2, d2) \<and>
        headers (sync_headers st2) = hs))"
proof -
  have best': "\<exists>d2. getbestblockhash J C rpc d1 = (Ok (chain_tip hs), d2) \<and> network d2 = network d"
    if "network d1 = network d" for d1
    using best that network_getbestblockhash[of J C rpc d1]
    by (cases "getbestblockhash J C rpc d1") (metis fst_conv snd_conv)
  obtain d0 where d0: "getbestblockhash J C rpc d = (Ok (chain_tip hs), d0)" "network d0 = network d"
    using best' by blast
  obtain r :: "('v sync_error, unit) outcome" and st1 d1 where
    run: "index_sync_headers J C rpc R S (chain_tip hs) (st, d0) = Some (r, st1, d1)"
    "network d1 = network d" "run_outcome R S view (block_hash_of C) hs r st1"
    "stored_headers S (block_hash_of C) (plain S view (sync_db st1)) =
      stored_headers S (block_hash_of C) (plain S view (sync_db st)) \<union> header ` set hs"
    using sync_run[OF inv ne hs(1) cf, of J rpc d0] node d0(2) by auto
  obtain d1' where d1': "getbestblockhash J C rpc d1 = (Ok (chain_tip hs), d1')" "network d1' = network d"
    using best' run(2) by blast
  show ?thesis
  proof (cases r)
    case (Ok u)
    then show ?thesis
      using run(1,3) d0(1) new d1'(1) by (auto simp: indexer_iteration_def run_outcome_def)
  next
    case (Panic p)
    then show ?thesis
      using run(1,3) d0(1) new by (auto simp: indexer_iteration_def run_outcome_def)
  next
    case (Err e)
    then have st1: "store_inv R S view (block_hash_of C) st1" "headers (sync_headers st1) = hs"
      using run(3) by (auto simp: run_outcome_def)
    obtain st2 d2 where "index_sync_headers J C rpc R S (chain_tip hs) (st1, d1') =
        Some (Ok () :: ('v sync_error, unit) outcome, st2, d2)" "headers (sync_headers st2) = hs"
      using sync_run[OF st1(1) _ hs(1), of J rpc d1'] st1(2) hs(2) cf run(4) node d1'(2) by (auto simp: Un_assoc)
    then show ?thesis
      using run(1) d0(1) new d1'(1) Err st1(2) by (auto simp: indexer_iteration_def)
  qed
qed

lemma node_chain_best:
  "fst (getbestblockhash json_serde byte_codec (sample_node (map header node_chain)) d) = Ok (chain_tip node_chain)"
  by (auto simp: getbestblockhash_def request_def handle_request_batch_def parse_hash_def
      counter_next_def chunks_small make_request_def parse_jsonrpc_reply_def sample_node_defs
      seq_def sample_defs node_chain_def)

theorem indexer_loop_converges_witness:
  "\<exists>r st1 d1. indexer_iteration json_serde byte_codec (sample_node (map header node_chain)) tree_rocks
      disk_codec 5 (forked_store, sample_daemon) = Some (r, st1, d1) \<and>
    (r = Panic IndexOutOfBounds \<or>
     headers (sync_headers st1) = node_chain \<and>
     (\<exists>t1 st2 d2. r = Ok t1 \<and>
        indexer_iteration json_serde byte_codec (sample_node (map header node_chain)) tree_rocks
          disk_codec t1 (st1, d1) = Some (Ok (chain_tip node_chain), st2, d2) \<and>
        headers (sync_headers st2) = node_chain))"
proof (rule indexer_loop_converges)
  have bh: "block_hash_of byte_codec = sample_bh" by (simp add: byte_codec_def)
  show "store_inv tree_rocks disk_codec RBT.lookup (block_hash_of byte_codec) forked_store"
    by (simp add: bh forked_store_inv)
  show "headers (sync_headers forked_store) \<noteq> []" by (simp add: forked_store_def forked_list_def)
  show "wf_headers (block_hash_of byte_codec) node_chain" by (simp add: bh wf_node_chain)
  show "node_chain \<noteq> []" by (simp add: node_chain_def)
  show "collision_free (block_hash_of byte_codec) (stored_headers disk_codec (block_hash_of byte_codec)
      (plain disk_codec RBT.lookup (sync_db forked_store)) \<union> header ` set node_chain)"
    using forked_store_collision_free by (simp add: bh)
  show "serves_chain json_serde byte_codec (sample_node (map header node_chain)) (network sample_daemon)
      node_chain"
    using node_chain_served by (simp add: sample_daemon_def)
  show "\<forall>d'. network d' = network sample_daemon \<longrightarrow> fst (getbestblockhash json_serde byte_codec
      (sample_node (map header node_chain)) d') = Ok (chain_tip node_chain)"
    using node_chain_best by blast
  show "chain_tip node_chain \<noteq> 5" by (simp add: node_chain_def sample_defs)
qed

text \<open>
  A branch of three headers is stored, the list is on a shorter branch, and the node moves to
  an extension of the stored branch.
\<close>

definition longer_chain :: "header_entry list" where
  "longer_chain = node_chain @ [sample_entry 3 3 4 0]"

definition two_branch_store :: "(bytes, bytes) rbt \<Rightarrow> (bytes, bytes) rbt store" where
  "two_branch_store db = \<lparr>sync_db = db, synced_blockhashes = {1, 2, 3, 5},
     sync_headers = forked_list, reload = False\<rparr>"

lemma node_chain_collision_free: "collision_free sample_bh (header ` set node_chain)"
  by (rule collision_free_mono[OF sample_collision_free]) auto

lemma two_branches:
  "\<exists>db. store_inv tree_rocks disk_codec RBT.lookup sample_bh (two_branch_store db) \<and>
    header ` set node_chain \<subseteq> stored_headers disk_codec sample_bh (RBT.lookup db)"
proof -
  let ?es = "[sample_entry 1 1 5 0]" and ?A = "RBT.lookup (chain_db node_chain)"
  let ?st = "\<lparr>sync_db = chain_db node_chain, synced_blockhashes = {1, 2, 3}, sync_headers = forked_list,
     reload = False\<rparr>"
  note db = chain_db[OF wf_node_chain node_chain_collision_free]
  have es: "hashed_entries sample_bh ?es" by (simp add: hashed_entries_def sample_defs)
  obtain db' where db': "db_inv tree_rocks disk_codec RBT.lookup db'"
    "RBT.lookup db' = ?A ++ row_map (concat (map (sync_rows disk_codec) ?es))"
    using add_sync_block_header_rows[of tree_rocks disk_codec RBT.lookup ?st sample_bh ?es] es by auto
  have inj: "inj_on sample_bh (stored_headers disk_codec sample_bh ?A \<union> header ` set ?es)"
    unfolding db(2) by (auto simp: node_chain_def inj_on_def sample_defs)
  have parents: "\<forall>e \<in> set ?es. prev_blockhash (header e) = all_zeros \<or>
      prev_blockhash (header e) \<in> done_hashes disk_codec ?A \<union> hash ` set ?es"
    unfolding db(3) by (simp add: node_chain_def sample_defs)
  note add = rows_ok_add[OF disk_codec_ok db(1) es inj parents, folded db'(2)]
  have dones: "done_hashes disk_codec (RBT.lookup db') = {1, 2, 3, 5}"
    unfolding add(2) db(3) by (auto simp: node_chain_def sample_defs)
  have "header ` set (headers forked_list) \<subseteq> stored_headers disk_codec sample_bh (RBT.lookup db')"
    unfolding add(1) db(2) by (auto simp: node_chain_def forked_list_def)
  then have "store_inv tree_rocks disk_codec RBT.lookup sample_bh (two_branch_store db')"
    using add(3) dones wf_forked_list by (simp add: store_inv_def two_branch_store_def)
  moreover have "header ` set node_chain \<subseteq> stored_headers disk_codec sample_bh (RBT.lookup db')"
    unfolding add(1) db(2) by auto
  ultimately show ?thesis by blast
qed

text \<open>
  C33: a reorganisation back to a stored branch can kill the indexer thread. With a consistent
  store whose list is on a branch shorter than the stored part of another one, the extension of
  that other branch is written to disk but \<open>apply\<close> is handed only the header that was not
  stored before; its parent's height lies beyond the list and the indexing panics.
\<close>

theorem reorg_to_stored_branch_panics:
  "\<exists>st. store_inv tree_rocks disk_codec RBT.lookup sample_bh st \<and>
    wf_headers sample_bh longer_chain \<and>
    collision_free sample_bh (header ` (set longer_chain \<union> set (headers (sync_headers st)))) \<and>
    header ` set node_chain \<subseteq> stored_headers disk_codec sample_bh (plain disk_codec RBT.lookup (sync_db st)) \<and>
    fst (index_new_headers sample_bh tree_rocks disk_codec (chain_tip longer_chain)
      (map header (drop (fork_point longer_chain (headers (sync_headers st))) longer_chain)) st) =
    Panic IndexOutOfBounds"
proof -
  obtain db where inv: "store_inv tree_rocks disk_codec RBT.lookup sample_bh (two_branch_store db)"
    and stored: "header ` set node_chain \<subseteq> stored_headers disk_codec sample_bh (RBT.lookup db)"
    using two_branches by blast
  let ?st = "two_branch_store db" and ?es = "[sample_entry 3 3 4 0]"
  have wf: "wf_headers sample_bh longer_chain"
    unfolding longer_chain_def wf_headers_snoc
    using wf_node_chain by (simp add: node_chain_def sample_defs)
  have cf: "collision_free sample_bh (header ` (set longer_chain \<union> set (headers forked_list)))"
    by (auto simp: collision_free_def inj_on_def longer_chain_def node_chain_def forked_list_def sample_defs)
  have "fork_point longer_chain (headers forked_list) = 1"
  proof -
    have "fork_point longer_chain (headers forked_list) \<le> 2"
      using fork_point(2)[of longer_chain "headers forked_list"] by (simp add: forked_list_def)
    moreover have "1 \<le> fork_point longer_chain (headers forked_list)"
      by (rule fork_point(4)) (simp_all add: longer_chain_def node_chain_def forked_list_def)
    moreover have "fork_point longer_chain (headers forked_list) \<noteq> 2"
      using fork_point(3)[of longer_chain "headers forked_list"]
      by (auto simp: longer_chain_def node_chain_def forked_list_def sample_defs)
    ultimately show ?thesis by simp
  qed
  moreover have "order sample_bh forked_list (map header (drop 1 longer_chain)) = Ok (drop 1 longer_chain)"
    by (rule order_suffix[OF wf_forked_list wf])
      (simp_all add: longer_chain_def node_chain_def forked_list_def sample_defs)
  moreover have "sync_headers_to_add ?st (drop 1 longer_chain) = ?es"
    by (simp add: sync_headers_to_add_def two_branch_store_def longer_chain_def node_chain_def sample_defs)
  moreover obtain db1 where "add_sync_block_header tree_rocks disk_codec ?es ?st =
      (Ok (), ?st\<lparr>sync_db := db1, synced_blockhashes := synced_blockhashes ?st \<union> hash ` set ?es\<rparr>)"
    using add_sync_block_header_rows[of tree_rocks disk_codec RBT.lookup ?st sample_bh ?es]
    by (auto simp: hashed_entries_def sample_defs)
  moreover obtain db2 where "db_put_sync tree_rocks disk_codec tip_key (ser_hash disk_codec (chain_tip longer_chain)) db1 =
      (Ok (), db2)"
    using rs.put_abs[OF tree_inv] by blast
  moreover have "apply_headers forked_list ?es = Panic IndexOutOfBounds"
    by (simp add: apply_headers_def forked_list_def sample_defs)
  ultimately have "fst (index_new_headers sample_bh tree_rocks disk_codec (chain_tip longer_chain)
      (map header (drop (fork_point longer_chain (headers (sync_headers ?st))) longer_chain)) ?st) =
      Panic IndexOutOfBounds"
    by (simp add: index_new_headers_def with_db_def two_branch_store_def)
  with inv wf cf stored show ?thesis
    by (intro exI[of _ ?st]) (simp add: two_branch_store_def)
qed

text \<open>
  C20: the first synchronisation. With an empty list every header is downloaded; when the download
  is accepted, the headers are a chain from the null hash to the requested tip, and the rows hold
  that chain under its tip afterwards. When no header of it was stored before, the run succeeds and
  exactly that chain is in memory. When all were stored, the list is rebuilt from the rows and the
  run ends with \<open>TipNotEqual\<close>, the chain in memory as well. When some but not all were stored, which
  an interrupted run leaves behind, it panics.
\<close>

theorem initial_sync_sound:
  fixes J :: "'v serde" and view :: "'db \<Rightarrow> bytes \<Rightarrow> bytes option"
  assumes inv: "store_inv R S view (block_hash_of C) st" and empty: "headers (sync_headers st) = []"
    and got: "get_all_headers J C rpc t d = (Ok new, d')"
    and stored: "stored = stored_headers S (block_hash_of C) (plain S view (sync_db st))"
    and cf: "collision_free (block_hash_of C) (stored \<union> set new)"
  shows "\<exists>r st' hs. index_sync_headers J C rpc R S t (st, d) = Some (r, st', d') \<and>
    r = (if set new \<inter> stored = {} then Ok () else if set new \<subseteq> stored then Err TipNotEqual else Panic IndexOutOfBounds) \<and>
    map header hs = new \<and> wf_headers (block_hash_of C) hs \<and> chain_tip hs = t \<and>
    rows_ok S (block_hash_of C) (plain S view (sync_db st')) \<and> holds_chain S view (block_hash_of C) hs (sync_db st') \<and>
    (r \<noteq> Panic IndexOutOfBounds \<longrightarrow> headers (sync_headers st') = hs \<and> store_inv R S view (block_hash_of C) st')"
proof -
  have "follow_chain (block_hash_of C) all_zeros new = Some t"
    using get_all_headers_follow[OF got] ..
  from follow_chain_wf[OF this] obtain hs where hs: "wf_headers (block_hash_of C) hs"
    "map header hs = new" "chain_tip hs = t" by blast
  have new: "set new = header ` set hs" using hs(2) by auto
  with cf stored have cf': "collision_free (block_hash_of C)
      (stored_headers S (block_hash_of C) (plain S view (sync_db st)) \<union> header ` set hs)" by simp
  have k: "fork_point hs (headers (sync_headers st)) = 0"
    using fork_point(2)[of hs "headers (sync_headers st)"] empty by simp
  obtain r :: "('v sync_error, unit) outcome" and st' where run:
    "seq (embed_act (index_new_headers (block_hash_of C) R S (chain_tip hs) (map header hs)))
      (\<lambda>_. check_tip (block_hash_of C) R S (chain_tip hs)) st = (r, st')"
    and out: "run_outcome R S view (block_hash_of C) hs r st'"
    and r: "r = (case apply_headers (sync_headers st) (sync_headers_to_add st hs) of
         Ok hl \<Rightarrow> (if chain_tip hs = chain_tip (headers hl) then Ok () else Err TipNotEqual)
       | _ \<Rightarrow> Panic IndexOutOfBounds)"
    using index_run_exact[OF inv hs(1) cf', where ?'v = 'v] unfolding k drop_0 by blast
  have "index_sync_headers J C rpc R S t (st, d) = Some (r, st', d')"
    using got empty hs(2,3) run by (simp add: index_sync_headers_def get_new_headers_def)
  moreover have "r = (if set new \<inter> stored = {} then Ok () else if set new \<subseteq> stored then Err TipNotEqual
      else Panic IndexOutOfBounds)"
    unfolding new stored by (subst r, rule first_run_result[OF inv empty hs(1) cf'])
  moreover have "rows_ok S (block_hash_of C) (plain S view (sync_db st')) \<and>
      holds_chain S view (block_hash_of C) hs (sync_db st') \<and>
      (r \<noteq> Panic IndexOutOfBounds \<longrightarrow> headers (sync_headers st') = hs \<and> store_inv R S view (block_hash_of C) st')"
    using out by (cases r) (simp_all add: run_outcome_def)
  ultimately show ?thesis using hs by blast
qed

definition empty_store :: "(bytes, bytes) rbt store" where
  "empty_store = \<lparr>sync_db = RBT.empty, synced_blockhashes = {}, sync_headers = empty_list, reload = False\<rparr>"

theorem initial_sync_sound_witness:
  "\<exists>d' st'. index_sync_headers json_serde byte_codec
       (sample_node [sample_header 0 1 0, sample_header 1 2 0]) tree_rocks disk_codec 2
       (empty_store, sample_daemon) = Some (Ok (), st', d') \<and>
     map header (headers (sync_headers st')) = [sample_header 0 1 0, sample_header 1 2 0]"
proof -
  have bh: "block_hash_of byte_codec = sample_bh" by (simp add: byte_codec_def)
  have stored: "{} = stored_headers disk_codec (block_hash_of byte_codec)
      (plain disk_codec RBT.lookup (sync_db empty_store))"
    by (simp add: stored_headers_def empty_store_def)
  have inv: "store_inv tree_rocks disk_codec RBT.lookup (block_hash_of byte_codec) empty_store"
    by (simp add: store_inv_def bh empty_store_def rows_ok_empty done_hashes_def)
      (simp add: empty_list_def)
  have cf: "collision_free (block_hash_of byte_codec) ({} \<union> set [sample_header 0 1 0, sample_header 1 2 0])"
    unfolding bh by (simp add: collision_free_def sample_defs)
  obtain d' where "get_all_headers json_serde byte_codec
       (sample_node [sample_header 0 1 0, sample_header 1 2 0]) 2 sample_daemon =
     (Ok [sample_header 0 1 0, sample_header 1 2 0], d')" using sample_all_headers ..
  moreover have "headers (sync_headers empty_store) = []" by (simp add: empty_store_def empty_list_def)
  ultimately obtain r st' hs where
    "index_sync_headers json_serde byte_codec (sample_node [sample_header 0 1 0, sample_header 1 2 0])
       tree_rocks disk_codec 2 (empty_store, sample_daemon) = Some (r, st', d')" "r = Ok ()"
    "map header hs = [sample_header 0 1 0, sample_header 1 2 0]" "headers (sync_headers st') = hs"
    using initial_sync_sound[OF inv _ _ stored cf] by fastforce
  then show ?thesis by (intro exI[of _ d'] exI[of _ st']) simp
qed

end
