(* ===== verification/Chain_State.thy ===== *)
theory Chain_State
  imports Simple_Cache Daemon_Rpc Block_Store
begin

text \<open>
  The SPV check of a transaction, \<open>src/src/chainstate.rs\<close>: fetch the Merkle block of a
  transaction from the node's RPC, extract its root, take the block's header from the P2P
  client or from the shared response cache, and compare the roots.

  The P2P client is an argument, as are the partial Merkle tree and the JSON encoding of the
  P2P client's header type \<open>'hdr\<close>. The state of the operations is the pair of RPC clients and
  the cache.
\<close>

subsection \<open>Crates\<close>

text \<open>
  The P2P client: \<open>get_tip\<close>, \<open>get_block\<close> (height and header of a block hash) and
  \<open>get_block_by_height\<close>.
\<close>

record 'hdr p2p =
  p2p_get_tip :: "string + nat \<times> 'hdr"
  p2p_get_block :: "block_hash \<Rightarrow> string + (nat \<times> 'hdr) option"
  p2p_get_block_by_height :: "u64 \<Rightarrow> string + 'hdr option"

text \<open>
  \<open>extract_matches\<close> gives the root of the tree and the matched transactions; \<open>hash_to_vec\<close> is
  \<open>BlockHash::to_vec\<close>; the \<open>old\<close> functions are those of the P2P client's header type.
\<close>

record ('p, 'hdr, 'v) spv_libs =
  extract_matches :: "'p \<Rightarrow> string + block_hash \<times> block_hash list"
  ser_merkle_block :: "'p merkle_block \<Rightarrow> bytes"
  to_old_hash :: "block_hash \<Rightarrow> block_hash option"
  hash_to_vec :: "block_hash \<Rightarrow> bytes"
  old_hash_of :: "'hdr \<Rightarrow> block_hash"
  old_serialize :: "'hdr \<Rightarrow> bytes"
  old_to_value :: "'hdr \<Rightarrow> string + 'v"
  old_from_value :: "'v \<Rightarrow> string + 'hdr"
  hex_encode :: "bytes \<Rightarrow> string"

subsection \<open>State\<close>

record ('hdr, 'v) chains_state =
  btc_daemon :: "daemon option"
  doge_daemon :: "daemon option"
  btc_handle :: "'hdr p2p option"
  doge_handle :: "'hdr p2p option"
  response_cache :: "(bytes, 'v) simple_cache"

datatype 'v verify_error =
    DaemonFailed "'v rpc_error"
  | BlockhashMismatch block_hash block_hash
  | NotIncluded "block_hash list" block_hash string
  | CachedHeaderError string
  | P2pError string
  | BlockNotFound
  | ToValueError string
  | MerkleRootMismatch block_hash block_hash block_hash

subsection \<open>Operations\<close>

definition get_daemon :: "merkle_proof_param_chain \<Rightarrow> ('hdr, 'v) chains_state \<Rightarrow> daemon option" where
  "get_daemon c s = (case c of BitCoin \<Rightarrow> btc_daemon s | DogeCoin \<Rightarrow> doge_daemon s)"

definition set_daemon ::
    "merkle_proof_param_chain \<Rightarrow> daemon \<Rightarrow> ('hdr, 'v) chains_state \<Rightarrow> ('hdr, 'v) chains_state" where
  "set_daemon c d s =
     (case c of BitCoin \<Rightarrow> s\<lparr>btc_daemon := Some d\<rparr> | DogeCoin \<Rightarrow> s\<lparr>doge_daemon := Some d\<rparr>)"

definition get_handle :: "merkle_proof_param_chain \<Rightarrow> ('hdr, 'v) chains_state \<Rightarrow> 'hdr p2p option" where
  "get_handle c s = (case c of BitCoin \<Rightarrow> btc_handle s | DogeCoin \<Rightarrow> doge_handle s)"

text \<open>The header of the block: from the cache, or from the P2P client and then cached.\<close>

definition p2p_header ::
    "('p, 'hdr, 'v) spv_libs \<Rightarrow> merkle_proof_param_chain \<Rightarrow> block_hash
      \<Rightarrow> (('hdr, 'v) chains_state, 'v verify_error, 'hdr) action" where
  "p2p_header L c blockhash_old s =
     (case cache_get (response_cache s) (hash_to_vec L blockhash_old) of
        Some block \<Rightarrow> (map_err CachedHeaderError (of_sum (old_from_value L block)), s)
      | None \<Rightarrow>
          (case get_handle c s of
             None \<Rightarrow> (Panic UnwrapFailed, s)
           | Some handle \<Rightarrow>
               (case p2p_get_block handle blockhash_old of
                  Inl e \<Rightarrow> (Err (P2pError e), s)
                | Inr None \<Rightarrow> (Err BlockNotFound, s)
                | Inr (Some (_, header_p2p)) \<Rightarrow>
                    (case old_to_value L header_p2p of
                       Inl e \<Rightarrow> (Err (ToValueError e), s)
                     | Inr header_str \<Rightarrow>
                         (Ok header_p2p,
                          s\<lparr>response_cache :=
                              cache_insert (hash_to_vec L blockhash_old) header_str
                                (response_cache s)\<rparr>)))))"

text \<open>
  \<open>verify_txid\<close>. The comparison with the synced header list is under \<open>if false\<close> in the source
  and never runs.
\<close>

definition verify_txid ::
    "'p codec \<Rightarrow> ('p, 'hdr, 'v) spv_libs \<Rightarrow> 'p merkle_block \<Rightarrow> merkle_proof_param
      \<Rightarrow> (('hdr, 'v) chains_state, 'v verify_error, bytes) action" where
  "verify_txid C L mb param =
     (let mb_blockhash = block_hash_of C (mb_header mb) in
      seq (lift (case blockhash param of
             None \<Rightarrow> Ok ()
           | Some param_blockhash \<Rightarrow>
               (if param_blockhash \<noteq> mb_blockhash
                then Err (BlockhashMismatch param_blockhash mb_blockhash) else Ok ()))) (\<lambda>_.
      seq (lift (map_err (NotIncluded (txids param) mb_blockhash)
             (of_sum (extract_matches L (mb_txn mb))))) (\<lambda>(txroot, matches).
      seq (lift (unwrap_opt (to_old_hash L mb_blockhash))) (\<lambda>blockhash_old.
      seq (p2p_header L (chain param) blockhash_old) (\<lambda>header_p2p.
      seq (lift (unwrap_opt (deserialize_header C (old_serialize L header_p2p)))) (\<lambda>header_p2p.
        lift (if txroot \<noteq> merkle_root header_p2p
              then Err (MerkleRootMismatch txroot (merkle_root header_p2p) mb_blockhash)
              else Ok (ser_merkle_block L mb))))))))"

definition fetch_proof_and_verify ::
    "'v serde \<Rightarrow> 'p codec \<Rightarrow> ('p, 'hdr, 'v) spv_libs
      \<Rightarrow> (merkle_proof_param_chain \<Rightarrow> 'v \<Rightarrow> (string, 'v) outcome) \<Rightarrow> merkle_proof_param
      \<Rightarrow> (('hdr, 'v) chains_state, 'v verify_error, bytes) action" where
  "fetch_proof_and_verify J C L rpc param =
     seq (\<lambda>s. case get_daemon (chain param) s of
            None \<Rightarrow> (Panic UnwrapFailed, s)
          | Some d \<Rightarrow>
              (let (r, d') = gettxoutproof J C (rpc (chain param)) param d
               in (map_err DaemonFailed r, set_daemon (chain param) d' s)))
       (\<lambda>mb. verify_txid C L mb param)"

subsection \<open>Lemmas\<close>

text \<open>
  The header under a block hash is served by the P2P client of one of the two chains, or by
  the cache, which was filled from them: an entry under a block hash decodes to a header with
  that hash or does not decode.
\<close>

definition served_header :: "('hdr, 'v) chains_state \<Rightarrow> block_hash \<Rightarrow> 'hdr \<Rightarrow> bool" where
  "served_header s h x \<longleftrightarrow>
     (\<exists>c p n. get_handle c s = Some p \<and> p2p_get_block p h = Inr (Some (n, x)))"

definition cache_coherent :: "('p, 'hdr, 'v) spv_libs \<Rightarrow> ('hdr, 'v) chains_state \<Rightarrow> bool" where
  "cache_coherent L s \<longleftrightarrow>
     cache_inv (response_cache s) \<and>
     coherent cache_get (\<lambda>k v. \<forall>h x. k = hash_to_vec L h \<longrightarrow> old_from_value L v = Inr x \<longrightarrow> served_header s h x)
       (response_cache s)"

lemma get_handle_update [simp]:
  "get_handle c (s\<lparr>response_cache := x\<rparr>) = get_handle c s"
  "served_header (s\<lparr>response_cache := x\<rparr>) = served_header s"
  by (auto simp: get_handle_def served_header_def fun_eq_iff split: merkle_proof_param_chain.splits)

lemma p2p_header_served:
  assumes run: "p2p_header L c h s = (Ok x, s')" and co: "cache_coherent L s"
    and inj: "inj (hash_to_vec L)"
    and rt: "\<And>y v. old_to_value L y = Inr v \<Longrightarrow> old_from_value L v = Inr y"
  shows "served_header s h x" and "cache_coherent L s'"
proof -
  have "served_header s h x \<and> cache_coherent L s'"
  proof (cases "cache_get (response_cache s) (hash_to_vec L h)")
    case (Some block)
    then have "p2p_header L c h s = (map_err CachedHeaderError (of_sum (old_from_value L block)), s)"
      by (simp add: p2p_header_def)
    with run have "old_from_value L block = Inr x" "s' = s"
      by (simp_all add: map_err_Ok_iff of_sum_Ok_iff)
    moreover have "\<forall>h' x. hash_to_vec L h = hash_to_vec L h' \<longrightarrow> old_from_value L block = Inr x \<longrightarrow>
        served_header s h' x"
      using co Some unfolding cache_coherent_def coherent_def by blast
    ultimately show ?thesis using co by blast
  next
    case None
    then obtain p n v where x: "get_handle c s = Some p" "p2p_get_block p h = Inr (Some (n, x))"
      "old_to_value L x = Inr v"
      and s': "s' = s\<lparr>response_cache := cache_insert (hash_to_vec L h) v (response_cache s)\<rparr>"
      using run by (auto simp: p2p_header_def split: option.splits sum.splits prod.splits)
    have served: "served_header s h x" using x(1,2) by (auto simp: served_header_def)
    have inv: "cache_inv (response_cache s)" using co by (simp add: cache_coherent_def)
    have "cache_coherent L s'"
      unfolding cache_coherent_def s'
    proof (simp, intro conjI)
      show "cache_inv (cache_insert (hash_to_vec L h) v (response_cache s))"
        by (rule cache_inv_insert[OF inv])
      show "coherent cache_get (\<lambda>k v. \<forall>h. k = hash_to_vec L h \<longrightarrow> (\<forall>x. old_from_value L v = Inr x \<longrightarrow> served_header s h x))
          (cache_insert (hash_to_vec L h) v (response_cache s))"
      proof (rule sc.coherent_store[OF inv])
        show "coherent cache_get (\<lambda>k v. \<forall>h. k = hash_to_vec L h \<longrightarrow> (\<forall>x. old_from_value L v = Inr x \<longrightarrow> served_header s h x))
            (response_cache s)" using co by (simp add: cache_coherent_def)
        show "\<forall>h'. hash_to_vec L h = hash_to_vec L h' \<longrightarrow> (\<forall>x. old_from_value L v = Inr x \<longrightarrow> served_header s h' x)"
          using served rt[OF x(3)] injD[OF inj] by auto
      qed
    qed
    with served show ?thesis by simp
  qed
  then show "served_header s h x" "cache_coherent L s'" by simp_all
qed

lemma verify_txid_Ok:
  fixes L :: "('p, 'hdr, 'v) spv_libs"
  assumes "verify_txid C L mb param s = (Ok b, s')"
  shows "\<exists>root matches h x y. extract_matches L (mb_txn mb) = Inr (root, matches) \<and>
    (\<forall>ph. blockhash param = Some ph \<longrightarrow> ph = block_hash_of C (mb_header mb)) \<and>
    to_old_hash L (block_hash_of C (mb_header mb)) = Some h \<and>
    p2p_header L (chain param) h s = (Ok x, s') \<and>
    deserialize_header C (old_serialize L x) = Some y \<and> merkle_root y = root \<and>
    b = ser_merkle_block L mb"
proof -
  from assms obtain root matches h x y s1 u where v:
    "extract_matches L (mb_txn mb) = Inr (root, matches)"
    "(case blockhash param of None \<Rightarrow> Ok ()
      | Some ph \<Rightarrow> if ph \<noteq> block_hash_of C (mb_header mb)
          then Err (BlockhashMismatch ph (block_hash_of C (mb_header mb))) else Ok ()) =
      (Ok u :: ('v verify_error, unit) outcome)"
    "to_old_hash L (block_hash_of C (mb_header mb)) = Some h"
    "p2p_header L (chain param) h s = (Ok x, s1)"
    "deserialize_header C (old_serialize L x) = Some y"
    "(if root \<noteq> merkle_root y then Err (MerkleRootMismatch root (merkle_root y) (block_hash_of C (mb_header mb)))
      else Ok (ser_merkle_block L mb)) = (Ok b :: ('v verify_error, bytes) outcome)" "s1 = s'"
    unfolding verify_txid_def Let_def
    by (simp only: seq_Ok_iff lift_Ok_iff map_err_Ok_iff of_sum_Ok_iff unwrap_opt_Ok_iff split_paired_Ex prod.case)
      blast
  from v(6) have "merkle_root y = root" "b = ser_merkle_block L mb" by (simp_all split: if_splits)
  with v(1-5,7) show ?thesis by (auto split: option.splits if_splits)
qed

text \<open>
  On every path, verification changes at most the cache, by a header of the P2P client, and the
  daemon's message counter.
\<close>

definition header_cached :: "('p, 'hdr, 'v) spv_libs \<Rightarrow> ('hdr, 'v) chains_state \<Rightarrow> ('hdr, 'v) chains_state \<Rightarrow> bool" where
  "header_cached L s s' \<longleftrightarrow>
     s' = s \<or>
     (\<exists>c p h n x v. get_handle c s = Some p \<and> p2p_get_block p h = Inr (Some (n, x)) \<and> old_to_value L x = Inr v \<and>
        s' = s\<lparr>response_cache := cache_insert (hash_to_vec L h) v (response_cache s)\<rparr>)"

lemma header_cached_refl [simp]: "header_cached L s s"
  by (simp add: header_cached_def)

lemma header_cached_insert:
  "get_handle c s = Some p \<Longrightarrow> p2p_get_block p h = Inr (Some (n, x)) \<Longrightarrow> old_to_value L x = Inr v \<Longrightarrow>
   header_cached L s (s\<lparr>response_cache := cache_insert (hash_to_vec L h) v (response_cache s)\<rparr>)"
  unfolding header_cached_def by blast

lemma p2p_header_cached: "p2p_header L c h s = (r, s') \<Longrightarrow> header_cached L s s'"
  by (auto simp: p2p_header_def intro: header_cached_insert split: option.splits sum.splits)

lemma verify_txid_cached: "verify_txid C L mb param s = (r, s') \<Longrightarrow> header_cached L s s'"
proof -
  assume "verify_txid C L mb param s = (r, s')"
  then have "s' = s \<or> (\<exists>h r1. p2p_header L (chain param) h s = (r1, s'))"
    unfolding verify_txid_def Let_def
    by (auto dest!: seq_lift_state seq_only_lifts split: prod.splits)
  then show ?thesis by (auto intro: p2p_header_cached)
qed

lemma header_cached_coherent:
  assumes "header_cached L s s'" and co: "cache_coherent L s" and inj: "inj (hash_to_vec L)"
    and rt: "\<And>y v. old_to_value L y = Inr v \<Longrightarrow> old_from_value L v = Inr y"
  shows "cache_coherent L s'"
  using assms(1) unfolding header_cached_def
proof (elim disjE exE conjE)
  fix c p h n x v
  assume x: "get_handle c s = Some p" "p2p_get_block p h = Inr (Some (n, x))" "old_to_value L x = Inr v"
    and s': "s' = s\<lparr>response_cache := cache_insert (hash_to_vec L h) v (response_cache s)\<rparr>"
  let ?P = "\<lambda>k v. \<forall>h x. k = hash_to_vec L h \<longrightarrow> old_from_value L v = Inr x \<longrightarrow> served_header s h x"
  have inv: "cache_inv (response_cache s)" and P: "coherent cache_get ?P (response_cache s)"
    using co by (simp_all add: cache_coherent_def)
  have "served_header s h x" using x(1,2) by (auto simp: served_header_def)
  then have "?P (hash_to_vec L h) v" using rt[OF x(3)] injD[OF inj] by auto
  from sc.coherent_store[OF inv P this] sc.good_store[OF inv] show ?thesis
    unfolding s' by (simp add: cache_coherent_def)
qed (use co in simp)

text \<open>Entries that are not headers do no harm, and removing entries neither.\<close>

lemma foreign_entry_coherent:
  assumes co: "cache_coherent L (s\<lparr>response_cache := c\<rparr>)" and "\<forall>x. old_from_value L v \<noteq> Inr x"
  shows "cache_coherent L (s\<lparr>response_cache := cache_insert k v c\<rparr>)"
proof -
  let ?P = "\<lambda>k v. \<forall>h x. k = hash_to_vec L h \<longrightarrow> old_from_value L v = Inr x \<longrightarrow> served_header s h x"
  have inv: "cache_inv c" and P: "coherent cache_get ?P c"
    using co by (simp_all add: cache_coherent_def)
  have "?P k v" using assms(2) by simp
  from sc.coherent_store[OF inv P this] sc.good_store[OF inv] show ?thesis
    by (simp add: cache_coherent_def)
qed

lemma removed_entry_coherent:
  assumes co: "cache_coherent L (s\<lparr>response_cache := c\<rparr>)"
  shows "cache_coherent L (s\<lparr>response_cache := cache_remove k c\<rparr>)"
proof -
  let ?P = "\<lambda>k v. \<forall>h x. k = hash_to_vec L h \<longrightarrow> old_from_value L v = Inr x \<longrightarrow> served_header s h x"
  have inv: "cache_inv c" and P: "coherent cache_get ?P c"
    using co by (simp_all add: cache_coherent_def)
  from sc.coherent_discard[OF inv P] sc.good_discard[OF inv] show ?thesis
    by (simp add: cache_coherent_def)
qed

text \<open>What an accepted proof is anchored in.\<close>

lemma verify_txid_anchored:
  assumes "verify_txid C L mb param s = (Ok b, s')" and "cache_coherent L s"
    and "inj (hash_to_vec L)"
    and "\<forall>y v. old_to_value L y = Inr v \<longrightarrow> old_from_value L v = Inr y"
  shows "cache_coherent L s' \<and> b = ser_merkle_block L mb \<and>
    blockhash param \<in> {None, Some (block_hash_of C (mb_header mb))} \<and>
    (\<exists>h x y matches. to_old_hash L (block_hash_of C (mb_header mb)) = Some h \<and>
       served_header s h x \<and> deserialize_header C (old_serialize L x) = Some y \<and>
       extract_matches L (mb_txn mb) = Inr (merkle_root y, matches))"
proof -
  from verify_txid_Ok[OF assms(1)] obtain root matches h x y where v:
    "extract_matches L (mb_txn mb) = Inr (root, matches)"
    "\<forall>ph. blockhash param = Some ph \<longrightarrow> ph = block_hash_of C (mb_header mb)"
    "to_old_hash L (block_hash_of C (mb_header mb)) = Some h"
    "p2p_header L (chain param) h s = (Ok x, s')"
    "deserialize_header C (old_serialize L x) = Some y" "merkle_root y = root"
    "b = ser_merkle_block L mb" by blast
  note served = p2p_header_served[OF v(4) assms(2,3)]
  have "served_header s h x" "cache_coherent L s'" using served assms(4) by blast+
  with v show ?thesis by (cases "blockhash param") auto
qed

subsection \<open>A concrete chain\<close>

text \<open>
  Partial trees that are transaction numbers: tree \<open>n\<close> proves transaction \<open>n\<close> in a block with
  root 7, the root of the sample headers. The P2P client's headers are JSON arrays of numbers.
\<close>

fun json_header :: "json \<Rightarrow> string + block_header" where
  "json_header (JArr [JNum v, JNum p, JNum m, JNum t, JNum b, JNum n]) =
     Inr \<lparr>version = word_of_int v, prev_blockhash = word_of_int p, merkle_root = word_of_int m,
       time = word_of_int t, bits = word_of_int b, nonce = word_of_int n\<rparr>"
| "json_header _ = Inl ''invalid type''"

definition sample_libs :: "(nat, block_header, json) spv_libs" where
  "sample_libs = \<lparr>
     extract_matches = (\<lambda>n. if n = 0 then Inl ''bad tree'' else Inr (7, [word_of_nat n])),
     ser_merkle_block = (\<lambda>mb. [word_of_nat (mb_txn mb)]),
     to_old_hash = Some,
     hash_to_vec = le_bytes 32,
     old_hash_of = sample_bh,
     old_serialize = (\<lambda>h. [ucast (prev_blockhash h), ucast (nonce h)]),
     old_to_value = (\<lambda>h. Inr (JArr [JNum (uint (version h)), JNum (uint (prev_blockhash h)),
       JNum (uint (merkle_root h)), JNum (uint (time h)), JNum (uint (bits h)), JNum (uint (nonce h))])),
     old_from_value = json_header,
     hex_encode = map (\<lambda>b. char_of (unat b))\<rparr>"

lemma inj_le_bytes: "inj (le_bytes 32 :: block_hash \<Rightarrow> bytes)"
  by (rule inj_on_inverseI[of _ le_word]) (simp add: le_word_le_bytes)

lemma sample_libs_roundtrip: "old_to_value sample_libs y = Inr v \<Longrightarrow> old_from_value sample_libs v = Inr y"
  by (auto simp: sample_libs_def)

definition sample_p2p :: "block_header p2p" where
  "sample_p2p = \<lparr>
     p2p_get_tip = Inr (0, sample_header 0 1 0),
     p2p_get_block = (\<lambda>h. if h = 1 then Inr (Some (0, sample_header 0 1 0)) else Inr None),
     p2p_get_block_by_height = (\<lambda>n. if n = 0 then Inr (Some (sample_header 0 1 0)) else Inr None)\<rparr>"

definition sample_state :: "(block_header, json) chains_state" where
  "sample_state = \<lparr>btc_daemon = Some sample_daemon, doge_daemon = None, btc_handle = Some sample_p2p,
     doge_handle = None, response_cache = cache_new 10\<rparr>"

lemma sample_state_coherent: "cache_coherent sample_libs sample_state"
  by (simp add: cache_coherent_def sample_state_def cache_inv_new coherent_def)
    (simp add: cache_get_def cache_new_def)

definition sample_block :: "nat \<Rightarrow> nat merkle_block" where
  "sample_block n = \<lparr>mb_header = sample_header 0 1 0, mb_txn = n\<rparr>"

lemmas sample_verify_simps =
  verify_txid_def p2p_header_def sample_libs_def sample_state_def sample_p2p_def sample_block_def
  byte_codec_def sample_bh_def sample_header_def get_handle_def cache_get_def cache_new_def seq_def

text \<open>A node that answers every request for a proof with a proof of transaction 9.\<close>

definition lying_node :: "merkle_proof_param_chain \<Rightarrow> json \<Rightarrow> (string, json) outcome" where
  "lying_node c req =
     (case req of
        JArr [r] \<Rightarrow> Ok (JArr [JObj [(''result'', JStr (map char_of [0 :: nat, 1, 9])),
          (''id'', the (json_get r ''id''))]])
      | _ \<Rightarrow> Ok JNull)"

subsection \<open>Properties\<close>

text \<open>
  C5: an accepted proof is anchored in the P2P network. When \<open>verify_txid\<close> accepts, the block
  hash is the one asked for (if any), the partial tree is well formed, a header that a P2P
  client served for that hash has exactly its root, and the cache stays coherent.
\<close>

theorem verify_txid_sound:
  assumes "verify_txid C L mb param s = (Ok b, s')" and "cache_coherent L s"
    and "inj (hash_to_vec L)"
    and "\<forall>y v. old_to_value L y = Inr v \<longrightarrow> old_from_value L v = Inr y"
  shows "cache_coherent L s' \<and> b = ser_merkle_block L mb \<and>
    blockhash param \<in> {None, Some (block_hash_of C (mb_header mb))} \<and>
    (\<exists>h x y matches. to_old_hash L (block_hash_of C (mb_header mb)) = Some h \<and>
       served_header s h x \<and> deserialize_header C (old_serialize L x) = Some y \<and>
       extract_matches L (mb_txn mb) = Inr (merkle_root y, matches))"
  using assms by (rule verify_txid_anchored)

theorem verify_txid_sound_witness:
  "\<exists>s'. cache_coherent sample_libs s' \<and> [9] = ser_merkle_block sample_libs (sample_block 9) \<and>
    Some 1 \<in> {None, Some (block_hash_of byte_codec (mb_header (sample_block 9)))} \<and>
    (\<exists>h x y matches. to_old_hash sample_libs (block_hash_of byte_codec (mb_header (sample_block 9))) = Some h \<and>
       served_header sample_state h x \<and> deserialize_header byte_codec (old_serialize sample_libs x) = Some y \<and>
       extract_matches sample_libs (mb_txn (sample_block 9)) = Inr (merkle_root y, matches))"
proof -
  let ?param = "merkle_proof_param_new [9] (Some 1) BitCoin"
  have "\<exists>s'. verify_txid byte_codec sample_libs (sample_block 9) ?param sample_state = (Ok [9], s')"
    by (simp add: sample_verify_simps merkle_proof_param_new_def)
  then obtain s' where run: "verify_txid byte_codec sample_libs (sample_block 9) ?param sample_state = (Ok [9], s')" ..
  have inj: "inj (hash_to_vec sample_libs)" using inj_le_bytes by (simp add: sample_libs_def)
  have bh: "blockhash ?param = Some 1" by (simp add: merkle_proof_param_new_def)
  from verify_txid_sound[OF run sample_state_coherent inj, unfolded bh] sample_libs_roundtrip
  show ?thesis by blast
qed

text \<open>
  the transactions asked for play no role in the check. The matches of the partial tree are
  computed and dropped, so a proof is accepted for one list of transactions exactly when it is
  accepted for any other.
\<close>

lemma txids_ignored:
  "(verify_txid C L mb (param\<lparr>txids := ts\<rparr>) s = (Ok b, s')) = (verify_txid C L mb param s = (Ok b, s'))"
  by (auto simp: verify_txid_def Let_def seq_Ok_iff outcome_simps split: option.splits)

text \<open>The body of the HTTP request for a proof.\<close>

definition proof_request :: "'v serde \<Rightarrow> 'p codec \<Rightarrow> merkle_proof_param \<Rightarrow> daemon \<Rightarrow> 'v" where
  "proof_request J C param d =
     of_array J [make_request J ''gettxoutproof'' (message_id d + 1) (merkle_proof_param_to_value J C param)]"

lemma gettxoutproof_same_reply:
  assumes "rpc' (proof_request J C param' d) = rpc (proof_request J C param d)" and "chain param' = chain param"
  shows "gettxoutproof J C rpc' param' d = gettxoutproof J C rpc param d"
proof -
  have "send_chunks J f m i t [] = Ok" for f m i t by (rule ext) simp
  with assms show ?thesis
    by (simp add: gettxoutproof_def request_def handle_request_batch_def counter_next_def chunks_small
        proof_request_def seq_def cong: option.case_cong)
qed

text \<open>
  C36: a node can have any transactions verified. Let a proof be accepted for the request \<open>param\<close>.
  A node that, asked on the same chain and for the same block for any other list of transactions
  \<open>ts\<close>, sends the very reply it has for \<open>param\<close>, is believed: \<open>fetch_proof_and_verify\<close> accepts and
  returns the proof of the transactions of \<open>param\<close>.
\<close>

theorem foreign_proof_accepted:
  assumes "fetch_proof_and_verify J C L rpc param s = (Ok b, s')" and "get_daemon (chain param) s = Some d"
    and "rpc' (chain param) (proof_request J C (param\<lparr>txids := ts\<rparr>) d) = rpc (chain param) (proof_request J C param d)"
  shows "fetch_proof_and_verify J C L rpc' (param\<lparr>txids := ts\<rparr>) s = (Ok b, s')"
proof -
  have same: "gettxoutproof J C (rpc' (chain param)) (param\<lparr>txids := ts\<rparr>) d =
      gettxoutproof J C (rpc (chain param)) param d"
    by (rule gettxoutproof_same_reply) (simp_all add: assms(3))
  obtain r d' where r: "gettxoutproof J C (rpc (chain param)) param d = (r, d')" by fastforce
  from assms(1,2) r obtain mb where mb: "r = Ok mb"
    and accepted: "verify_txid C L mb param (set_daemon (chain param) d' s) = (Ok b, s')"
    by (cases r) (auto simp: fetch_proof_and_verify_def seq_def)
  have "verify_txid C L mb (param\<lparr>txids := ts\<rparr>) (set_daemon (chain param) d' s) = (Ok b, s')"
    using accepted by (simp only: txids_ignored)
  with assms(2) mb same r show ?thesis by (simp add: fetch_proof_and_verify_def seq_def)
qed

lemma sample_proof_accepted:
  "\<exists>s'. fetch_proof_and_verify json_serde byte_codec sample_libs lying_node
     (merkle_proof_param_new [9] None BitCoin) sample_state = (Ok [9], s')"
proof -
  have "\<exists>d'. gettxoutproof json_serde byte_codec (lying_node BitCoin) (merkle_proof_param_new [9] None BitCoin)
      sample_daemon = (Ok (sample_block 9), d')"
    by (simp add: gettxoutproof_def request_def handle_request_batch_def counter_next_def chunks_small
        make_request_def parse_jsonrpc_reply_def sample_node_defs merkleblock_of_chain_def seq_def
        merkleblock_from_value_def merkle_proof_param_new_def lying_node_def sample_block_def)
  then obtain d' where "gettxoutproof json_serde byte_codec (lying_node BitCoin)
      (merkle_proof_param_new [9] None BitCoin) sample_daemon = (Ok (sample_block 9), d')" ..
  moreover have "\<exists>s'. verify_txid byte_codec sample_libs (sample_block 9) (merkle_proof_param_new [9] None BitCoin)
      (sample_state\<lparr>btc_daemon := Some d'\<rparr>) = (Ok [9], s')"
    by (simp add: sample_verify_simps merkle_proof_param_new_def)
  ultimately show ?thesis
    by (simp add: fetch_proof_and_verify_def get_daemon_def set_daemon_def seq_def sample_state_def
        merkle_proof_param_new_def)
qed

text \<open>Here the tree of the accepted proof shows transaction 9, and 8 was asked for.\<close>

theorem foreign_proof_accepted_witness:
  "\<exists>s'. fetch_proof_and_verify json_serde byte_codec sample_libs lying_node
       (merkle_proof_param_new [8] None BitCoin) sample_state = (Ok [9], s') \<and>
     extract_matches sample_libs 9 = Inr (7, [9])"
proof -
  let ?p = "merkle_proof_param_new [9] None BitCoin"
  obtain s' where run: "fetch_proof_and_verify json_serde byte_codec sample_libs lying_node ?p sample_state = (Ok [9], s')"
    using sample_proof_accepted by blast
  have d: "get_daemon (chain ?p) sample_state = Some sample_daemon"
    by (simp add: get_daemon_def sample_state_def merkle_proof_param_new_def)
  have "lying_node (chain ?p) (proof_request json_serde byte_codec (?p\<lparr>txids := [8]\<rparr>) sample_daemon) =
      lying_node (chain ?p) (proof_request json_serde byte_codec ?p sample_daemon)"
    by (simp add: lying_node_def proof_request_def make_request_def json_serde_def)
  from foreign_proof_accepted[OF run d, of lying_node "[8]", OF this] show ?thesis
    by (intro exI[of _ s']) (simp add: merkle_proof_param_new_def sample_libs_def)
qed

end
