(* ===== verification/Btc_Rpc.thy ===== *)
theory Btc_Rpc
  imports Chain_State
begin

text \<open>
  The handlers of the bitcoin and dogecoin routes, \<open>src/src/btcrpc/mod.rs\<close> and
  \<open>src/src/btcrpc/proof.rs\<close>: the batch of header requests answered by the P2P client and the
  shared response cache, and the transaction verification route.

  The derived \<open>serde\<close> decoders, the standard string encodings and the enclave's response
  wrapper are arguments (\<open>btc_libs\<close>). The requests of one batch are handled in their order; a
  handler only waits for the cache's lock.
\<close>

subsection \<open>Requests and responses\<close>

record 'v btc_req =
  req_jsonrpc :: string
  req_method :: string
  req_params :: 'v
  req_id :: 'v

record 'v btc_resp =
  resp_error :: "string option"
  resp_id :: 'v
  resp_result :: "'v option"

text \<open>
  \<open>de_btc_req\<close> and \<open>de_btc_req_no_json_rpc\<close> are the derived decoders of the two request types
  (the second gives method, parameters and id), \<open>ser_btc_resps\<close> encodes the responses of a
  batch, \<open>show_value\<close> prints a JSON value, \<open>parse_old_hash\<close> is \<open>BlockHash::from_str\<close>,
  \<open>be_bytes\<close> is \<open>u64::to_be_bytes\<close>, \<open>show_u64\<close> its decimal form, \<open>sgx\<close> signs a response.
\<close>

record 'v btc_libs =
  de_btc_req :: "'v \<Rightarrow> string + 'v btc_req"
  de_btc_req_no_json_rpc :: "'v \<Rightarrow> string + string \<times> 'v \<times> 'v"
  ser_btc_resps :: "'v btc_resp list \<Rightarrow> string"
  show_value :: "'v \<Rightarrow> string"
  parse_old_hash :: "string \<Rightarrow> string + block_hash"
  be_bytes :: "u64 \<Rightarrow> bytes"
  show_u64 :: "u64 \<Rightarrow> string"
  sgx :: "string \<Rightarrow> string"

definition parse_request ::
    "'v serde \<Rightarrow> 'v btc_libs \<Rightarrow> 'v \<Rightarrow> (string \<times> 'v, 'v btc_req) outcome" where
  "parse_request J B req =
     (let i = (case get_field J req ''id'' of None \<Rightarrow> of_u64 J 1 | Some v \<Rightarrow> v) in
      if get_field J req ''jsonrpc'' \<noteq> None
      then map_err (\<lambda>e. (''deser error '' @ e, i)) (of_sum (de_btc_req B req))
      else and_then (map_err (\<lambda>e. (''deser error '' @ e, i)) (of_sum (de_btc_req_no_json_rpc B req)))
        (\<lambda>(method, params, rid).
           Ok \<lparr>req_jsonrpc = ''2.0'', req_method = method, req_params = params, req_id = rid\<rparr>))"

definition create_btc_response :: "string option \<Rightarrow> 'v \<Rightarrow> 'v option \<Rightarrow> 'v btc_resp" where
  "create_btc_response e i r = \<lparr>resp_error = e, resp_id = i, resp_result = r\<rparr>"

subsection \<open>Handlers\<close>

type_synonym 'v cache = "(bytes, 'v) simple_cache"

definition handle_getbestblockhash ::
    "'v serde \<Rightarrow> 'p codec \<Rightarrow> ('p, 'hdr, 'v) spv_libs \<Rightarrow> 'hdr p2p \<Rightarrow> 'v list \<Rightarrow> 'v \<Rightarrow> 'v btc_resp" where
  "handle_getbestblockhash J C L handle params i =
     (if params \<noteq> [] then create_btc_response (Some ''Invalid numbers of params'') i None
      else case p2p_get_tip handle of
        Inr (_, h) \<Rightarrow>
          create_btc_response None i (Some (of_str J (hash_to_string C (old_hash_of L h))))
      | Inl e \<Rightarrow> create_btc_response (Some e) i None)"

text \<open>The JSON form of a header with its height, or the hex string of its encoding.\<close>

definition header_response ::
    "'v serde \<Rightarrow> ('p, 'hdr, 'v) spv_libs \<Rightarrow> bool \<Rightarrow> nat \<Rightarrow> 'hdr \<Rightarrow> 'v panicky" where
  "header_response J L verbose ht h =
     (if verbose
      then and_then (unwrap_res (old_to_value L h))
             (\<lambda>v. Ok (set_field J v ''height'' (of_u64 J (of_nat ht))))
      else Ok (of_str J (hex_encode L (old_serialize L h))))"

definition handle_getblockheader ::
    "'v serde \<Rightarrow> ('p, 'hdr, 'v) spv_libs \<Rightarrow> 'v btc_libs \<Rightarrow> 'hdr p2p \<Rightarrow> 'v list \<Rightarrow> 'v
      \<Rightarrow> ('v cache, unit, 'v btc_resp) action" where
  "handle_getblockheader J L B handle params i cache =
     (case params of
        [] \<Rightarrow> (Ok (create_btc_response (Some ''invalid numbers of params'') i None), cache)
      | p0 # ps \<Rightarrow>
          (if length params > 2
           then (Ok (create_btc_response (Some ''invalid numbers of params'') i None), cache)
           else
             (let verbose = (case ps of
                               [] \<Rightarrow> True
                             | p1 # _ \<Rightarrow> (case as_bool J p1 of None \<Rightarrow> True | Some b \<Rightarrow> b)) in
              case as_str J p0 of
                None \<Rightarrow> (Ok (create_btc_response (Some ''params type wrong'') i None), cache)
              | Some hash_str \<Rightarrow>
                  (case parse_old_hash B hash_str of
                     Inl e \<Rightarrow> (Ok (create_btc_response (Some (''BlockHash error '' @ e)) i None), cache)
                   | Inr bhash \<Rightarrow>
                       (case cache_get cache (hash_to_vec L bhash) of
                          Some cached \<Rightarrow> (Ok (create_btc_response None i (Some cached)), cache)
                        | None \<Rightarrow>
                            (case p2p_get_block handle bhash of
                               Inl e \<Rightarrow> (Ok (create_btc_response (Some e) i None), cache)
                             | Inr None \<Rightarrow>
                                 (Ok (create_btc_response (Some ''header not found'') i None), cache)
                             | Inr (Some (ht, h)) \<Rightarrow>
                                 (case header_response J L verbose ht h of
                                    Ok header_str \<Rightarrow>
                                      (Ok (create_btc_response None i (Some header_str)),
                                       cache_insert (hash_to_vec L bhash) header_str cache)
                                  | Err e \<Rightarrow> (Err e, cache)
                                  | Panic p \<Rightarrow> (Panic p, cache))))))))"

definition handle_getblockhash ::
    "'v serde \<Rightarrow> 'p codec \<Rightarrow> ('p, 'hdr, 'v) spv_libs \<Rightarrow> 'v btc_libs \<Rightarrow> 'hdr p2p \<Rightarrow> 'v list \<Rightarrow> 'v
      \<Rightarrow> ('v cache, unit, 'v btc_resp) action" where
  "handle_getblockhash J C L B handle params i cache =
     (case params of
        [p0] \<Rightarrow>
          (case as_u64 J p0 of
             None \<Rightarrow>
               (Ok (create_btc_response (Some ''params type wrong, int is required'') i None), cache)
           | Some ht \<Rightarrow>
               (case cache_get cache (be_bytes B ht) of
                  Some cached \<Rightarrow> (Ok (create_btc_response None i (Some cached)), cache)
                | None \<Rightarrow>
                    (case p2p_get_block_by_height handle ht of
                       Inl e \<Rightarrow> (Ok (create_btc_response (Some e) i None), cache)
                     | Inr None \<Rightarrow>
                         (Ok (create_btc_response
                                (Some (''block height '' @ show_u64 B ht @ '' not found'')) i None), cache)
                     | Inr (Some h) \<Rightarrow>
                         (case old_to_value L h of
                            Inl e \<Rightarrow> (Panic UnwrapFailed, cache)
                          | Inr header_str \<Rightarrow>
                              (Ok (create_btc_response None i
                                     (Some (of_str J (hash_to_string C (old_hash_of L h))))),
                               cache_insert (be_bytes B ht) header_str cache)))))
      | _ \<Rightarrow> (Ok (create_btc_response (Some ''Invalid numbers of params'') i None), cache))"

text \<open>One request of a batch.\<close>

definition handle_request ::
    "'v serde \<Rightarrow> 'p codec \<Rightarrow> ('p, 'hdr, 'v) spv_libs \<Rightarrow> 'v btc_libs \<Rightarrow> 'hdr p2p \<Rightarrow> 'v
      \<Rightarrow> ('v cache, unit, 'v btc_resp) action" where
  "handle_request J C L B handle req cache =
     (case parse_request J B req of
        Err (e, i) \<Rightarrow>
          (Ok (create_btc_response (Some (''Invalid request '' @ e @ '' '' @ show_value B req)) i None), cache)
      | Panic p \<Rightarrow> (Panic p, cache)
      | Ok r \<Rightarrow>
          (case as_array J (req_params r) of
             None \<Rightarrow>
               (Ok (create_btc_response (Some ''Invalid params type, an array is required'') (req_id r) None), cache)
           | Some params \<Rightarrow>
               (if req_method r = ''getbestblockhash''
                then (Ok (handle_getbestblockhash J C L handle params (req_id r)), cache)
                else if req_method r = ''getblockheader''
                then handle_getblockheader J L B handle params (req_id r) cache
                else if req_method r = ''getblockhash''
                then handle_getblockhash J C L B handle params (req_id r) cache
                else (Ok (create_btc_response (Some (''method '' @ req_method r @ '' not support''))
                            (req_id r) None), cache))))"

fun handle_requests ::
    "'v serde \<Rightarrow> 'p codec \<Rightarrow> ('p, 'hdr, 'v) spv_libs \<Rightarrow> 'v btc_libs \<Rightarrow> 'hdr p2p \<Rightarrow> 'v list
      \<Rightarrow> ('v cache, unit, 'v btc_resp list) action" where
  "handle_requests J C L B handle [] = ret []"
| "handle_requests J C L B handle (req # reqs) =
     seq (handle_request J C L B handle req) (\<lambda>r.
     seq (handle_requests J C L B handle reqs) (\<lambda>rs. ret (r # rs)))"

definition handle_fetch_header ::
    "'v serde \<Rightarrow> 'p codec \<Rightarrow> ('p, 'hdr, 'v) spv_libs \<Rightarrow> 'v btc_libs \<Rightarrow> 'hdr p2p \<Rightarrow> 'v list
      \<Rightarrow> ('v cache, unit, string) action" where
  "handle_fetch_header J C L B handle payload =
     seq (handle_requests J C L B handle payload) (\<lambda>resps. ret (sgx B (ser_btc_resps B resps)))"

text \<open>The two routes: the handle of the chain is unwrapped, the cache is the shared one.\<close>

definition header_route ::
    "merkle_proof_param_chain \<Rightarrow> 'v serde \<Rightarrow> 'p codec \<Rightarrow> ('p, 'hdr, 'v) spv_libs \<Rightarrow> 'v btc_libs \<Rightarrow> 'v list
      \<Rightarrow> (('hdr, 'v) chains_state, unit, string) action" where
  "header_route c J C L B payload s =
     (case get_handle c s of
        None \<Rightarrow> (Panic UnwrapFailed, s)
      | Some handle \<Rightarrow>
          (let (r, cache) = handle_fetch_header J C L B handle payload (response_cache s)
           in (r, s\<lparr>response_cache := cache\<rparr>)))"

definition btc_route ::
    "'v serde \<Rightarrow> 'p codec \<Rightarrow> ('p, 'hdr, 'v) spv_libs \<Rightarrow> 'v btc_libs \<Rightarrow> 'v list
      \<Rightarrow> (('hdr, 'v) chains_state, unit, string) action" where
  "btc_route = header_route BitCoin"

definition doge_route ::
    "'v serde \<Rightarrow> 'p codec \<Rightarrow> ('p, 'hdr, 'v) spv_libs \<Rightarrow> 'v btc_libs \<Rightarrow> 'v list
      \<Rightarrow> (('hdr, 'v) chains_state, unit, string) action" where
  "doge_route = header_route DogeCoin"

subsection \<open>The verification route\<close>

definition proof_response :: "'v serde \<Rightarrow> bool \<Rightarrow> string \<Rightarrow> string" where
  "proof_response J err result =
     to_text J (of_object J [(''result'', of_str J result), (''error'', of_bool J err)])"

definition parse_txid :: "('txt \<Rightarrow> string + block_hash) \<Rightarrow> 'txt \<Rightarrow> (string, block_hash) outcome" where
  "parse_txid from_str txid = map_err (\<lambda>e. ''Invalid Txid: '' @ e) (of_sum (from_str txid))"

text \<open>\<open>show_error\<close> is the text of the error.\<close>

definition verify_transaction ::
    "'v serde \<Rightarrow> 'p codec \<Rightarrow> ('p, 'hdr, 'v) spv_libs \<Rightarrow> 'v btc_libs
      \<Rightarrow> (merkle_proof_param_chain \<Rightarrow> 'v \<Rightarrow> (string, 'v) outcome) \<Rightarrow> (string \<Rightarrow> string + block_hash)
      \<Rightarrow> ('v verify_error \<Rightarrow> string) \<Rightarrow> string \<Rightarrow> merkle_proof_param_chain
      \<Rightarrow> (('hdr, 'v) chains_state, unit, string) action" where
  "verify_transaction J C L B rpc txid_from_str show_error txid c s =
     (case parse_txid txid_from_str txid of
        Err e \<Rightarrow> (Ok (sgx B (proof_response J True e)), s)
      | Panic p \<Rightarrow> (Panic p, s)
      | Ok t \<Rightarrow>
          (case fetch_proof_and_verify J C L rpc (merkle_proof_param_new [t] None c) s of
             (Ok _, s') \<Rightarrow> (Ok (sgx B (proof_response J False (hash_to_string C t))), s')
           | (Err e, s') \<Rightarrow> (Ok (sgx B (proof_response J True (show_error e))), s')
           | (Panic p, s') \<Rightarrow> (Panic p, s')))"

definition verify_tx ::
    "'v serde \<Rightarrow> 'p codec \<Rightarrow> ('p, 'hdr, 'v) spv_libs \<Rightarrow> 'v btc_libs
      \<Rightarrow> (merkle_proof_param_chain \<Rightarrow> 'v \<Rightarrow> (string, 'v) outcome) \<Rightarrow> (string \<Rightarrow> string + block_hash)
      \<Rightarrow> ('v verify_error \<Rightarrow> string) \<Rightarrow> string \<Rightarrow> (('hdr, 'v) chains_state, unit, string) action" where
  "verify_tx J C L B rpc txid_from_str show_error txid =
     verify_transaction J C L B rpc txid_from_str show_error txid BitCoin"

definition verify_tx_doge ::
    "'v serde \<Rightarrow> 'p codec \<Rightarrow> ('p, 'hdr, 'v) spv_libs \<Rightarrow> 'v btc_libs
      \<Rightarrow> (merkle_proof_param_chain \<Rightarrow> 'v \<Rightarrow> (string, 'v) outcome) \<Rightarrow> (string \<Rightarrow> string + block_hash)
      \<Rightarrow> ('v verify_error \<Rightarrow> string) \<Rightarrow> string \<Rightarrow> (('hdr, 'v) chains_state, unit, string) action" where
  "verify_tx_doge J C L B rpc txid_from_str show_error txid =
     verify_transaction J C L B rpc txid_from_str show_error txid DogeCoin"

subsection \<open>What a handler does to the cache\<close>

text \<open>
  Every handler returns a response to the request's id, with either a result or an error, and
  leaves the cache alone or inserts one entry: under a block hash, a header of the P2P client
  for it in one of the two formats; under a height, the header at that height.
\<close>

definition answers :: "'v \<Rightarrow> 'v btc_resp \<Rightarrow> bool" where
  "answers i r \<longleftrightarrow> resp_id r = i \<and> (resp_error r = None \<longleftrightarrow> resp_result r \<noteq> None)"

definition fills ::
    "'v serde \<Rightarrow> ('p, 'hdr, 'v) spv_libs \<Rightarrow> 'v btc_libs \<Rightarrow> 'hdr p2p \<Rightarrow> 'v cache \<Rightarrow> 'v cache \<Rightarrow> bool" where
  "fills J L B handle cache cache' \<longleftrightarrow>
     cache' = cache \<or>
     (\<exists>h n x b v. p2p_get_block handle h = Inr (Some (n, x)) \<and> header_response J L b n x = Ok v \<and>
        cache' = cache_insert (hash_to_vec L h) v cache) \<or>
     (\<exists>n x v. p2p_get_block_by_height handle n = Inr (Some x) \<and> old_to_value L x = Inr v \<and>
        cache' = cache_insert (be_bytes B n) v cache)"

lemma answers_simps [simp]:
  "answers i (create_btc_response (Some e) j None) \<longleftrightarrow> j = i"
  "answers i (create_btc_response None j (Some v)) \<longleftrightarrow> j = i"
  by (simp_all add: answers_def create_btc_response_def)

lemma getblockheader_effect:
  assumes "\<forall>x. \<exists>v. old_to_value L x = Inr v"
  shows "\<exists>r cache'. handle_getblockheader J L B handle params i cache = (Ok r, cache') \<and>
    answers i r \<and> fills J L B handle cache cache'"
proof -
  have ok: "\<exists>v. header_response J L b n x = Ok v" for b n x
    using spec[OF assms, of x] by (auto simp: header_response_def)
  show ?thesis
  proof (cases params)
    case (Cons p0 ps)
    show ?thesis
    proof (cases "length params > 2 \<or> as_str J p0 = None")
      case False
      then obtain s where s: "as_str J p0 = Some s" "\<not> length params > 2" by auto
      show ?thesis
      proof (cases "parse_old_hash B s")
        case (Inr h)
        let ?verbose = "case ps of [] \<Rightarrow> True | p1 # _ \<Rightarrow> (case as_bool J p1 of None \<Rightarrow> True | Some b \<Rightarrow> b)"
        show ?thesis
        proof (cases "cache_get cache (hash_to_vec L h)")
          case None
          show ?thesis
          proof (cases "p2p_get_block handle h")
            case (Inr res)
            show ?thesis
            proof (cases res)
              case (Some nx)
              obtain n x where nx: "nx = (n, x)" by (cases nx)
              obtain v where "header_response J L ?verbose n x = Ok v" using ok by blast
              then have "handle_getblockheader J L B handle params i cache =
                  (Ok (create_btc_response None i (Some v)), cache_insert (hash_to_vec L h) v cache)"
                using Cons s \<open>parse_old_hash B s = Inr h\<close> None Inr Some nx
                by (simp add: handle_getblockheader_def Let_def)
              moreover have "fills J L B handle cache (cache_insert (hash_to_vec L h) v cache)"
                unfolding fills_def
                using Inr Some nx \<open>header_response J L ?verbose n x = Ok v\<close> by blast
              ultimately show ?thesis by simp
            qed (use Cons s \<open>parse_old_hash B s = Inr h\<close> None Inr in
                \<open>simp add: handle_getblockheader_def Let_def fills_def\<close>)
          qed (use Cons s Inr None in \<open>simp add: handle_getblockheader_def Let_def fills_def\<close>)
        qed (use Cons s Inr in \<open>simp add: handle_getblockheader_def Let_def fills_def\<close>)
      qed (use Cons s in \<open>simp add: handle_getblockheader_def Let_def fills_def\<close>)
    qed (use Cons in \<open>auto simp: handle_getblockheader_def Let_def fills_def\<close>)
  qed (simp add: handle_getblockheader_def fills_def)
qed

lemma getblockhash_effect:
  assumes "\<forall>x. \<exists>v. old_to_value L x = Inr v"
  shows "\<exists>r cache'. handle_getblockhash J C L B handle params i cache = (Ok r, cache') \<and>
    answers i r \<and> fills J L B handle cache cache'"
proof (cases "\<exists>p0 n x. params = [p0] \<and> as_u64 J p0 = Some n \<and> cache_get cache (be_bytes B n) = None \<and>
    p2p_get_block_by_height handle n = Inr (Some x)")
  case True
  then obtain p0 n x where p: "params = [p0]" "as_u64 J p0 = Some n" "cache_get cache (be_bytes B n) = None"
    "p2p_get_block_by_height handle n = Inr (Some x)" by blast
  obtain v where v: "old_to_value L x = Inr v" using assms by blast
  with p(4) have "fills J L B handle cache (cache_insert (be_bytes B n) v cache)"
    unfolding fills_def by blast
  with p v show ?thesis by (simp add: handle_getblockhash_def)
next
  case False
  then show ?thesis
    by (auto simp: handle_getblockhash_def fills_def split: list.splits option.splits sum.splits)
qed

definition request_id :: "'v serde \<Rightarrow> 'v btc_libs \<Rightarrow> 'v \<Rightarrow> 'v" where
  "request_id J B req =
     (case parse_request J B req of
        Ok r \<Rightarrow> req_id r | Err (_, i) \<Rightarrow> i | Panic _ \<Rightarrow> of_u64 J 1)"

lemma parse_request_no_panic: "parse_request J B req \<noteq> Panic p"
  by (cases "de_btc_req B req"; cases "de_btc_req_no_json_rpc B req") (auto simp: parse_request_def Let_def)

lemma handle_request_effect:
  assumes "\<forall>x. \<exists>v. old_to_value L x = Inr v"
  shows "\<exists>r cache'. handle_request J C L B handle req cache = (Ok r, cache') \<and>
    answers (request_id J B req) r \<and> fills J L B handle cache cache'"
proof (cases "parse_request J B req")
  case (Ok q)
  show ?thesis
  proof (cases "as_array J (req_params q)")
    case (Some params)
    have best: "answers i (handle_getbestblockhash J C L handle params i)" for i
      by (auto simp: handle_getbestblockhash_def split: sum.splits)
    from Ok Some best[of "req_id q"] getblockheader_effect[OF assms, of J B handle params "req_id q" cache]
      getblockhash_effect[OF assms, of J C B handle params "req_id q" cache]
    show ?thesis
      by (simp add: handle_request_def request_id_def fills_def[of J L B handle cache cache])
  qed (use Ok in \<open>simp add: handle_request_def request_id_def fills_def\<close>)
next
  case (Err e)
  then show ?thesis
    by (cases e) (simp add: handle_request_def request_id_def fills_def)
next
  case (Panic p)
  with parse_request_no_panic[of J B req p] show ?thesis by blast
qed

lemma handle_requests_effect:
  assumes "\<forall>x. \<exists>v. old_to_value L x = Inr v"
    and "Q cache" and "\<And>c c'. Q c \<Longrightarrow> fills J L B handle c c' \<Longrightarrow> Q c'"
  shows "\<exists>rs cache'. handle_requests J C L B handle payload cache = (Ok rs, cache') \<and>
    list_all2 (\<lambda>req r. answers (request_id J B req) r) payload rs \<and> Q cache'"
  using assms(2)
proof (induction payload arbitrary: cache)
  case (Cons req reqs)
  obtain r c1 where r: "handle_request J C L B handle req cache = (Ok r, c1)"
    "answers (request_id J B req) r" "fills J L B handle cache c1"
    using handle_request_effect[OF assms(1)] by blast
  obtain rs c2 where "handle_requests J C L B handle reqs c1 = (Ok rs, c2)"
    "list_all2 (\<lambda>req r. answers (request_id J B req) r) reqs rs" "Q c2"
    using Cons.IH[OF assms(3)[OF Cons.prems r(3)]] by blast
  with r show ?case by simp
qed simp

text \<open>
  What the crates give for the cached values: a cached header decodes to the header, with or
  without the added height, a string never does, and a height's key is never a hash's key.
\<close>

definition libs_ok :: "'v serde \<Rightarrow> ('p, 'hdr, 'v) spv_libs \<Rightarrow> 'v btc_libs \<Rightarrow> bool" where
  "libs_ok J L B \<longleftrightarrow>
     inj (hash_to_vec L) \<and>
     (\<forall>x. \<exists>v. old_to_value L x = Inr v \<and> old_from_value L v = Inr x \<and>
        (\<forall>w. old_from_value L (set_field J v ''height'' w) = Inr x)) \<and>
     (\<forall>s. \<exists>e. old_from_value L (of_str J s) = Inl e) \<and>
     (\<forall>n h. be_bytes B n \<noteq> hash_to_vec L h)"

lemma libs_okD:
  assumes "libs_ok J L B"
  shows "inj (hash_to_vec L)" and "\<forall>x. \<exists>v. old_to_value L x = Inr v"
    and "old_to_value L x = Inr v \<Longrightarrow> old_from_value L v = Inr x"
    and "old_to_value L x = Inr v \<Longrightarrow> old_from_value L (set_field J v ''height'' w) = Inr x"
    and "old_from_value L (of_str J s) \<noteq> Inr y" and "be_bytes B n \<noteq> hash_to_vec L h"
  using assms unfolding libs_ok_def by (metis sum.inject(2) sum.simps(4))+

lemma header_response_decodes:
  assumes "libs_ok J L B" and "header_response J L b n x = Ok v" and "old_from_value L v = Inr y"
  shows "y = x"
proof (cases b)
  case True
  obtain w where w: "old_to_value L x = Inr w" using libs_okD(2)[OF assms(1)] by blast
  with True assms(2) have "v = set_field J w ''height'' (of_u64 J (of_nat n))"
    by (simp add: header_response_def)
  with libs_okD(4)[OF assms(1) w] assms(3) show ?thesis by simp
next
  case False
  with assms(2) have "v = of_str J (hex_encode L (old_serialize L x))" by (simp add: header_response_def)
  with libs_okD(5)[OF assms(1)] assms(3) show ?thesis by simp
qed

lemma fills_coherent:
  assumes ok: "libs_ok J L B" and handle: "get_handle c s = Some handle"
    and co: "cache_coherent L (s\<lparr>response_cache := cache\<rparr>)" and fill: "fills J L B handle cache cache'"
  shows "cache_coherent L (s\<lparr>response_cache := cache'\<rparr>)"
proof -
  let ?P = "\<lambda>k v. \<forall>h x. k = hash_to_vec L h \<longrightarrow> old_from_value L v = Inr x \<longrightarrow> served_header s h x"
  have inv: "cache_inv cache" and P: "coherent cache_get ?P cache"
    using co by (simp_all add: cache_coherent_def)
  have ins: "cache_coherent L (s\<lparr>response_cache := cache_insert k v cache\<rparr>)" if "?P k v" for k v
  proof -
    have "coherent cache_get ?P (cache_insert k v cache)"
      by (rule sc.coherent_store[OF inv P that])
    then show ?thesis using cache_inv_insert[OF inv] by (simp add: cache_coherent_def)
  qed
  from fill show ?thesis
    unfolding fills_def
  proof (elim disjE exE conjE)
    assume "cache' = cache"
    with co show ?thesis by simp
  next
    fix h n x b v
    assume x: "p2p_get_block handle h = Inr (Some (n, x))" "header_response J L b n x = Ok v"
      and cache': "cache' = cache_insert (hash_to_vec L h) v cache"
    have "served_header s h x" using handle x(1) by (auto simp: served_header_def)
    then have "?P (hash_to_vec L h) v"
      using header_response_decodes[OF ok x(2)] injD[OF libs_okD(1)[OF ok]] by blast
    then show ?thesis unfolding cache' by (rule ins)
  next
    fix n x v assume cache': "cache' = cache_insert (be_bytes B n) v cache"
    have "?P (be_bytes B n) v" using libs_okD(6)[OF ok] by blast
    then show ?thesis unfolding cache' by (rule ins)
  qed
qed

lemma header_route_coherent:
  assumes "libs_ok J L B" and "cache_coherent L s"
  shows "cache_coherent L (snd (header_route c J C L B payload s))"
proof (cases "get_handle c s")
  case (Some handle)
  let ?Q = "\<lambda>cache. cache_coherent L (s\<lparr>response_cache := cache\<rparr>)"
  have start: "?Q (response_cache s)" using assms(2) by simp
  have step: "?Q k'" if "?Q k" "fills J L B handle k k'" for k k'
    using that by (rule fills_coherent[OF assms(1) Some])
  have "\<exists>rs cache'. handle_requests J C L B handle payload (response_cache s) = (Ok rs, cache') \<and>
      list_all2 (\<lambda>req r. answers (request_id J B req) r) payload rs \<and> ?Q cache'"
    by (rule handle_requests_effect[where Q = ?Q, OF libs_okD(2)[OF assms(1)] start]) (rule step)
  then obtain rs cache' where "handle_requests J C L B handle payload (response_cache s) = (Ok rs, cache')"
    "?Q cache'" by blast
  with Some show ?thesis
    by (simp add: header_route_def handle_fetch_header_def)
qed (use assms(2) in \<open>simp add: header_route_def\<close>)

subsection \<open>Concrete crates\<close>

definition sample_btc_libs :: "json btc_libs" where
  "sample_btc_libs = \<lparr>
     de_btc_req = (\<lambda>j. case (json_get j ''method'', json_get j ''params'', json_get j ''id'') of
        (Some (JStr m), Some p, Some i) \<Rightarrow>
          Inr \<lparr>req_jsonrpc = ''2.0'', req_method = m, req_params = p, req_id = i\<rparr>
      | _ \<Rightarrow> Inl ''missing field''),
     de_btc_req_no_json_rpc = (\<lambda>j. case (json_get j ''method'', json_get j ''params'', json_get j ''id'') of
        (Some (JStr m), Some p, Some i) \<Rightarrow> Inr (m, p, i)
      | _ \<Rightarrow> Inl ''missing field''),
     ser_btc_resps = (\<lambda>rs. ''responses''),
     show_value = (\<lambda>_. ''request''),
     parse_old_hash = (\<lambda>s. case s of [c] \<Rightarrow> Inr (word_of_nat (of_char c)) | _ \<Rightarrow> Inl ''bad hash''),
     be_bytes = le_bytes 8,
     show_u64 = (\<lambda>_. ''n''),
     sgx = (\<lambda>s. s)\<rparr>"

text \<open>Headers as the JSON arrays of \<open>sample_libs\<close> inside an object, so that a height can be added.\<close>

definition object_libs :: "(nat, block_header, json) spv_libs" where
  "object_libs = sample_libs\<lparr>
     old_to_value := (\<lambda>h. case old_to_value sample_libs h of
        Inr v \<Rightarrow> Inr (JObj [(''header'', v)]) | Inl e \<Rightarrow> Inl e),
     old_from_value := (\<lambda>j. case json_get j ''header'' of Some v \<Rightarrow> json_header v | None \<Rightarrow> Inl ''invalid type'')\<rparr>"

lemma object_libs_ok: "libs_ok json_serde object_libs sample_btc_libs"
proof -
  have "le_bytes 8 (n :: u64) \<noteq> le_bytes 32 (h :: block_hash)" for n h
    by (metis length_le_bytes numeral_eq_iff num.distinct(1) semiring_norm(83,85,87,88,89,90))
  then show ?thesis
    using inj_le_bytes
    by (auto simp: libs_ok_def object_libs_def sample_libs_def sample_btc_libs_def json_serde_def)
qed

text \<open>A request for the header of block 1, as a JSON string of one character.\<close>

definition header_request :: "bool \<Rightarrow> json" where
  "header_request verbose = JObj [(''jsonrpc'', JStr ''2.0''), (''method'', JStr ''getblockheader''),
     (''params'', JArr [JStr [CHR 0x01], JBool verbose]), (''id'', JNum 5)]"

definition object_state :: "(block_header, json) chains_state" where
  "object_state = sample_state"

lemma object_state_coherent: "cache_coherent object_libs object_state"
  by (simp add: cache_coherent_def object_state_def sample_state_def cache_inv_new coherent_def)
    (simp add: cache_get_def cache_new_def)

subsection \<open>Properties\<close>

text \<open>
  C27: a batch is answered request by request. Whatever the requests, the batch does not panic
  and gives one response per request, in order, each with the id of its request and with either
  a result or an error.
\<close>

theorem batch_answers_each:
  assumes "\<forall>x. \<exists>v. old_to_value L x = Inr v"
  shows "\<exists>rs cache'. handle_requests J C L B handle payload cache = (Ok rs, cache') \<and>
    list_all2 (\<lambda>req r. resp_id r = request_id J B req \<and> (resp_error r = None \<longleftrightarrow> resp_result r \<noteq> None))
      payload rs"
  using handle_requests_effect[OF assms, of "\<lambda>_. True" cache J B handle C payload]
  by (auto simp: answers_def)

theorem batch_answers_each_witness:
  "\<exists>rs cache'. handle_requests json_serde byte_codec object_libs sample_btc_libs sample_p2p
      [header_request True, JNull] (cache_new 10) = (Ok rs, cache') \<and>
    list_all2 (\<lambda>req r. resp_id r = request_id json_serde sample_btc_libs req \<and>
        (resp_error r = None \<longleftrightarrow> resp_result r \<noteq> None)) [header_request True, JNull] rs"
  by (rule batch_answers_each[OF libs_okD(2)[OF object_libs_ok]])

text \<open>
  C23: the header routes keep the cache sound for verification. Whatever batch is sent to the
  bitcoin or the dogecoin route, every cached entry under a block hash still is a header that a
  P2P client served for that hash, or a value that does not decode to a header at all; so a
  transaction is never verified against a header that no client served.
\<close>

theorem header_routes_keep_coherence:
  assumes "libs_ok J L B" and "cache_coherent L s"
  shows "cache_coherent L (snd (header_route c J C L B payload s))"
  using assms by (rule header_route_coherent)

theorem header_routes_keep_coherence_witness:
  "cache_coherent object_libs (snd (header_route BitCoin json_serde byte_codec object_libs sample_btc_libs
     [header_request False, header_request True] object_state))"
  by (rule header_routes_keep_coherence[OF object_libs_ok object_state_coherent])

text \<open>
  \<open>getblockhash\<close> does not repeat its answer. The first request for a height is answered
  with the block hash, but the entry it leaves in the cache is the header, and every request
  that hits the cache is answered with that header.
\<close>

theorem getblockhash_second_answer_is_header:
  assumes "cache_inv cache" and "as_u64 J p0 = Some n" and "cache_get cache (be_bytes B n) = None"
    and "p2p_get_block_by_height handle n = Inr (Some x)" and "old_to_value L x = Inr v"
  shows "\<exists>cache'. handle_getblockhash J C L B handle [p0] i cache =
      (Ok (create_btc_response None i (Some (of_str J (hash_to_string C (old_hash_of L x))))), cache') \<and>
    (\<forall>j. handle_getblockhash J C L B handle [p0] j cache' = (Ok (create_btc_response None j (Some v)), cache'))"
  using assms
  by (intro exI[of _ "cache_insert (be_bytes B n) v cache"])
    (simp add: handle_getblockhash_def sc.lookup_store_same)

theorem getblockhash_second_answer_is_header_witness:
  "\<exists>cache'. handle_getblockhash json_serde byte_codec sample_libs sample_btc_libs sample_p2p [JNum 0] (JNum 1)
        (cache_new 10) =
      (Ok (create_btc_response None (JNum 1) (Some (JStr (node_hash (sample_header 0 1 0))))), cache') \<and>
    (\<forall>j. handle_getblockhash json_serde byte_codec sample_libs sample_btc_libs sample_p2p [JNum 0] j cache' =
      (Ok (create_btc_response None j
        (Some (JArr [JNum 1, JNum 0, JNum 7, JNum 0, JNum 0, JNum 1]))), cache'))"
proof -
  have "cache_get (cache_new 10 :: (bytes, json) simple_cache) (be_bytes sample_btc_libs 0) = None"
    by (simp add: cache_get_def cache_new_def)
  moreover have "old_to_value sample_libs (sample_header 0 1 0) =
      Inr (JArr [JNum 1, JNum 0, JNum 7, JNum 0, JNum 0, JNum 1])"
    by (simp add: sample_libs_def sample_header_def)
  moreover have "p2p_get_block_by_height sample_p2p 0 = Inr (Some (sample_header 0 1 0))"
    "as_u64 json_serde (JNum 0) = Some 0"
    by (simp_all add: sample_p2p_def json_serde_def)
  moreover have "of_str json_serde (hash_to_string byte_codec (old_hash_of sample_libs (sample_header 0 1 0))) =
      JStr (node_hash (sample_header 0 1 0))"
    by (simp add: json_serde_def byte_codec_def sample_libs_def node_hash_def)
  ultimately show ?thesis
    using getblockhash_second_answer_is_header[OF cache_inv_new, of json_serde "JNum 0" 0 10 sample_btc_libs
        sample_p2p "sample_header 0 1 0" sample_libs _ byte_codec "JNum 1"]
    by simp
qed

text \<open>
  C37: a request for a raw header blocks the verification of its block. The hexadecimal header
  is cached under the block hash, the key under which the verification looks for the JSON
  header; as long as the entry stays, every proof for that block is refused with a decoding
  error, although the P2P client could serve the header.
\<close>

theorem raw_header_blocks_verification:
  assumes ok: "libs_ok J L B" and inv: "cache_inv (response_cache s)" and handle: "get_handle c s = Some handle"
    and req: "as_str J p0 = Some hash_str" "parse_old_hash B hash_str = Inr h" "as_bool J p1 = Some False"
    and miss: "cache_get (response_cache s) (hash_to_vec L h) = None"
    and block: "p2p_get_block handle h = Inr (Some (n, x))"
    and mb: "blockhash param = None" "extract_matches L (mb_txn mb) = Inr m"
      "to_old_hash L (block_hash_of C (mb_header mb)) = Some h"
  shows "\<exists>cache' e. handle_getblockheader J L B handle [p0, p1] i (response_cache s) =
      (Ok (create_btc_response None i (Some (of_str J (hex_encode L (old_serialize L x))))), cache') \<and>
    verify_txid C L mb param (s\<lparr>response_cache := cache'\<rparr>) =
      (Err (CachedHeaderError e), s\<lparr>response_cache := cache'\<rparr>)"
proof -
  let ?v = "of_str J (hex_encode L (old_serialize L x))"
  let ?cache = "cache_insert (hash_to_vec L h) ?v (response_cache s)"
  obtain e where e: "old_from_value L ?v = Inl e"
    using ok unfolding libs_ok_def by blast
  have "cache_get ?cache (hash_to_vec L h) = Some ?v" by (rule sc.lookup_store_same[OF inv])
  then have "p2p_header L (chain param) h (s\<lparr>response_cache := ?cache\<rparr>) =
      (Err (CachedHeaderError e), s\<lparr>response_cache := ?cache\<rparr>)"
    using e by (simp add: p2p_header_def)
  then have "verify_txid C L mb param (s\<lparr>response_cache := ?cache\<rparr>) =
      (Err (CachedHeaderError e), s\<lparr>response_cache := ?cache\<rparr>)"
    using mb by (cases m) (simp add: verify_txid_def)
  moreover have "handle_getblockheader J L B handle [p0, p1] i (response_cache s) =
      (Ok (create_btc_response None i (Some ?v)), ?cache)"
    using req miss block by (simp add: handle_getblockheader_def header_response_def)
  ultimately show ?thesis by blast
qed

theorem raw_header_blocks_verification_witness:
  "\<exists>cache' e. handle_getblockheader json_serde object_libs sample_btc_libs sample_p2p
        [JStr [CHR 0x01], JBool False] (JNum 5) (response_cache object_state) =
      (Ok (create_btc_response None (JNum 5)
        (Some (of_str json_serde (hex_encode object_libs (old_serialize object_libs (sample_header 0 1 0)))))), cache') \<and>
    verify_txid byte_codec object_libs (sample_block 9) (merkle_proof_param_new [9] None BitCoin)
      (object_state\<lparr>response_cache := cache'\<rparr>) =
      (Err (CachedHeaderError e), object_state\<lparr>response_cache := cache'\<rparr>)"
proof (rule raw_header_blocks_verification[OF object_libs_ok, where c = BitCoin and h = 1 and hash_str = "[CHR 0x01]"
      and n = 0 and m = "(7, [9])"])
  show "cache_inv (response_cache object_state)" by (simp add: object_state_def sample_state_def cache_inv_new)
qed (simp_all add: object_state_def sample_state_def get_handle_def sample_btc_libs_def json_serde_def
    cache_get_def cache_new_def sample_p2p_def merkle_proof_param_new_def object_libs_def sample_libs_def
    sample_block_def byte_codec_def sample_bh_def sample_header_def)

end
