(* ===== verification/Sol_Votes.thy ===== *)
theory Sol_Votes
  imports Prelude
begin

text \<open>
  How the Solana client of \<open>src/src/chains/sol.rs\<close> turns the answers of several RPC servers
  into one: the most frequent value (\<open>deal_get_account_res\<close>, \<open>deal_get_slot_res\<close>,
  \<open>deal_get_transaction_res\<close>), or the entries that all of them list
  (\<open>deal_get_program_accounts_res\<close>, \<open>deal_get_signatures_for_address_res\<close>).

  The order in which a hash map or hash set is iterated is not specified; it is an argument
  \<open>it\<close> that permutes the entries. The JSON encoding of the answers is an argument as well.
\<close>

datatype sol_client_error = Custom string | Internal string | TimeOut string

type_synonym url = string

subsection \<open>Counting\<close>

text \<open>\<open>counts.entry(k).and_modify(+1).or_insert(1)\<close>, in the order of the first occurrences.\<close>

fun bump :: "'a \<Rightarrow> ('a \<times> nat) list \<Rightarrow> ('a \<times> nat) list" where
  "bump k [] = [(k, 1)]"
| "bump k ((k', n) # rest) = (if k' = k then (k', n + 1) # rest else (k', n) # bump k rest)"

definition tally :: "'a list \<Rightarrow> ('a \<times> nat) list" where
  "tally votes = fold bump votes []"

text \<open>\<open>Iterator::max_by_key\<close> on the count: the last of the entries with the largest count.\<close>

fun max_by_count :: "('a \<times> nat) list \<Rightarrow> ('a \<times> nat) option" where
  "max_by_count [] = None"
| "max_by_count (x # xs) =
     (case max_by_count xs of None \<Rightarrow> Some x | Some y \<Rightarrow> Some (if snd x \<le> snd y then y else x))"

definition max_count :: "('a \<times> nat) list \<Rightarrow> nat" where
  "max_count counts = foldr max (map snd counts) 0"

text \<open>The body the three functions share; \<open>it\<close> is the iteration order of the counts.\<close>

definition most_frequent ::
    "(('a \<times> nat) list \<Rightarrow> ('a \<times> nat) list) \<Rightarrow> (nat \<Rightarrow> string) \<Rightarrow> string \<Rightarrow> 'a list
      \<Rightarrow> (sol_client_error, 'a) outcome" where
  "most_frequent it show_nat not_found votes =
     (let counts = tally votes;
          m = max_count counts;
          max_count_elements = length (filter (\<lambda>c. c = m) (map snd counts))
      in if max_count_elements > 1
         then Err (Custom (''Unexpected max_count_elements '' @ show_nat max_count_elements))
         else case max_by_count (it counts) of
           None \<Rightarrow> Err (Custom not_found)
         | Some (info, _) \<Rightarrow> Ok info)"

text \<open>The argument of the three functions is a set of pairs of a value and a server.\<close>

definition deal_get_slot_res ::
    "((u64 \<times> nat) list \<Rightarrow> (u64 \<times> nat) list) \<Rightarrow> (nat \<Rightarrow> string) \<Rightarrow> (u64 \<times> url) list
      \<Rightarrow> (sol_client_error, u64) outcome" where
  "deal_get_slot_res it show_nat slots =
     most_frequent it show_nat ''Can not find the most suitable slot'' (map fst slots)"

definition deal_get_account_res ::
    "((bytes \<times> nat) list \<Rightarrow> (bytes \<times> nat) list) \<Rightarrow> (nat \<Rightarrow> string) \<Rightarrow> (bytes \<Rightarrow> 'acct option option)
      \<Rightarrow> (bytes \<times> url) list \<Rightarrow> (sol_client_error, 'acct option) outcome" where
  "deal_get_account_res it show_nat from_slice accounts =
     and_then (most_frequent it show_nat ''Can not find the most suitable account'' (map fst accounts))
       (\<lambda>account. unwrap_opt (from_slice account))"

definition deal_get_transaction_res ::
    "((bytes \<times> nat) list \<Rightarrow> (bytes \<times> nat) list) \<Rightarrow> (nat \<Rightarrow> string) \<Rightarrow> (bytes \<Rightarrow> 'tx option)
      \<Rightarrow> (bytes \<times> url) list \<Rightarrow> (sol_client_error, 'tx) outcome" where
  "deal_get_transaction_res it show_nat from_slice txs =
     and_then (most_frequent it show_nat ''Can not find the most suitable tx'' (map fst txs))
       (\<lambda>tx. unwrap_opt (from_slice tx))"

subsection \<open>Entries listed by all\<close>

text \<open>
  The answers are a map from the server to its list. All their entries are counted; those
  counted as often as there are servers are decoded again.
\<close>

definition counted_exactly ::
    "((string \<times> nat) list \<Rightarrow> (string \<times> nat) list) \<Rightarrow> ('x \<Rightarrow> string) \<Rightarrow> (string \<Rightarrow> 'x option) \<Rightarrow> nat
      \<Rightarrow> 'x list \<Rightarrow> (sol_client_error, 'x list) outcome" where
  "counted_exactly it ser de n entries =
     try_map (\<lambda>(k, _). unwrap_opt (de k))
       (filter (\<lambda>(_, v). v = n) (it (tally (map ser entries))))"

definition deal_get_program_accounts_res ::
    "((string \<times> nat) list \<Rightarrow> (string \<times> nat) list) \<Rightarrow> ('x \<Rightarrow> string) \<Rightarrow> (string \<Rightarrow> 'x option)
      \<Rightarrow> (url \<times> 'x list) list \<Rightarrow> (sol_client_error, 'x list) outcome" where
  "deal_get_program_accounts_res it ser de accounts =
     (let members_num = length accounts in
      counted_exactly it ser de members_num (concat (map snd accounts)))"

definition deal_get_signatures_for_address_res ::
    "((string \<times> nat) list \<Rightarrow> (string \<times> nat) list) \<Rightarrow> ('x \<Rightarrow> string) \<Rightarrow> (string \<Rightarrow> 'x option)
      \<Rightarrow> (url \<times> 'x list) list \<Rightarrow> (sol_client_error, 'x list) outcome" where
  "deal_get_signatures_for_address_res it ser de signatures =
     (let from_num = length signatures in
      counted_exactly it ser de from_num (concat (map snd signatures)))"

subsection \<open>Lemmas on counts\<close>

lemma set_bump:
  "distinct (map fst cs) \<Longrightarrow> (x, n) \<in> set (bump k cs) \<longleftrightarrow>
     (if x = k then n = Suc (case map_of cs k of None \<Rightarrow> 0 | Some m \<Rightarrow> m) else (x, n) \<in> set cs)"
proof (induction k cs rule: bump.induct)
  case (2 k k' m rest)
  show ?case
  proof (cases "k' = k")
    case True
    with 2 show ?thesis by (auto simp: rev_image_eqI)
  next
    case False
    with 2 show ?thesis by auto
  qed
qed auto

lemma map_fst_bump: "map fst (bump k cs) = map fst cs @ (if k \<in> fst ` set cs then [] else [k])"
  by (induction k cs rule: bump.induct) auto

lemma map_of_bump: "map_of (bump k cs) x = (if x = k then Some (Suc (case map_of cs k of None \<Rightarrow> 0 | Some m \<Rightarrow> m))
    else map_of cs x)"
  by (induction k cs rule: bump.induct) auto

lemma tally_count:
  "distinct (map fst (tally votes)) \<and>
   map_of (tally votes) x = (if x \<in> set votes then Some (count_list votes x) else None)"
proof (induction votes arbitrary: x rule: rev_induct)
  case Nil
  then show ?case by (simp add: tally_def)
next
  case (snoc v votes)
  have t: "tally (votes @ [v]) = bump v (tally votes)" by (simp add: tally_def)
  have "distinct (map fst (tally votes))" using snoc.IH by blast
  then have "distinct (map fst (bump v (tally votes)))" by (simp add: map_fst_bump image_image)
  moreover have "map_of (bump v (tally votes)) x = (if x \<in> set (votes @ [v]) then Some (count_list (votes @ [v]) x) else None)"
    using snoc.IH[of x] snoc.IH[of v] by (simp add: map_of_bump count_list_0_iff)
  ultimately show ?case by (simp add: t)
qed

lemma distinct_tally [simp]: "distinct (map fst (tally votes))"
  using tally_count[of votes] by metis

lemma set_tally: "(x, n) \<in> set (tally votes) \<longleftrightarrow> x \<in> set votes \<and> n = count_list votes x"
  using tally_count[of votes x] by (metis map_of_eq_Some_iff option.distinct(1) option.inject)

lemma tally_Nil [simp]: "tally [] = []"
  by (simp add: tally_def)

lemma tally_Nil_iff [simp]: "tally votes = [] \<longleftrightarrow> votes = []"
proof
  assume "tally votes = []"
  then have "x \<notin> set votes" for x using set_tally[of x _ votes] by auto
  then show "votes = []" by (cases votes) auto
qed (simp add: tally_def)

lemma max_count_ge: "c \<in> set (map snd counts) \<Longrightarrow> c \<le> max_count counts"
  unfolding max_count_def by (induction counts) (auto simp: le_max_iff_disj)

lemma max_count_mem: "counts \<noteq> [] \<Longrightarrow> max_count counts \<in> set (map snd counts)"
proof -
  have "foldr max xs 0 \<in> set xs" if "xs \<noteq> []" for xs :: "nat list"
    using that by (induction xs rule: list_nonempty_induct) (auto simp: max_def)
  then show "counts \<noteq> [] \<Longrightarrow> max_count counts \<in> set (map snd counts)"
    unfolding max_count_def by (metis map_is_Nil_conv)
qed

lemma max_by_count_Some:
  assumes "max_by_count xs = Some y"
  shows "y \<in> set xs \<and> (\<forall>x \<in> set xs. snd x \<le> snd y)"
  using assms
proof (induction xs arbitrary: y)
  case (Cons x xs)
  show ?case
  proof (cases "max_by_count xs")
    case None
    then have "xs = []" by (cases xs) (auto split: option.splits)
    with Cons.prems show ?thesis by simp
  next
    case (Some z)
    have z: "z \<in> set xs" "\<forall>v \<in> set xs. snd v \<le> snd z" using Cons.IH[OF Some] by auto
    from Cons.prems Some have "y = (if snd x \<le> snd z then z else x)" by simp
    with z show ?thesis by (auto dest: bspec intro: order_trans)
  qed
qed simp

lemma max_by_count_None [simp]: "max_by_count xs = None \<longleftrightarrow> xs = []"
  by (cases xs) (auto split: option.splits)

text \<open>What an iteration order may do: permute the entries.\<close>

definition iteration :: "('a list \<Rightarrow> 'a list) \<Rightarrow> bool" where
  "iteration it \<longleftrightarrow> (\<forall>xs. mset (it xs) = mset xs)"

lemma iterationD:
  assumes "iteration it"
  shows "mset (it xs) = mset xs" and "set (it xs) = set xs" and "length (it xs) = length xs"
    and "it xs = [] \<longleftrightarrow> xs = []"
proof -
  show m: "mset (it xs) = mset xs" using assms by (simp add: iteration_def)
  show "set (it xs) = set xs" using m by (rule mset_eq_setD)
  show l: "length (it xs) = length xs" using m by (rule mset_eq_length)
  show "it xs = [] \<longleftrightarrow> xs = []" using l by auto
qed

lemma count_list_mset: "count_list xs x = count (mset xs) x"
  by (induction xs) auto

subsection \<open>The most frequent value\<close>

text \<open>\<open>v\<close> occurs more often than any other value.\<close>

definition strictly_most_frequent :: "'a list \<Rightarrow> 'a \<Rightarrow> bool" where
  "strictly_most_frequent votes v \<longleftrightarrow>
     v \<in> set votes \<and> (\<forall>w. w \<noteq> v \<longrightarrow> count_list votes w < count_list votes v)"

lemma unique_max:
  assumes "length (filter (\<lambda>c. c = max_count (tally votes)) (map snd (tally votes))) \<le> 1"
    and "(v, n) \<in> set (tally votes)" and "\<forall>x \<in> set (tally votes). snd x \<le> n"
  shows "strictly_most_frequent votes v"
proof -
  let ?t = "tally votes"
  have v: "v \<in> set votes" "n = count_list votes v" using assms(2) by (auto simp: set_tally)
  have max: "max_count ?t = n"
  proof (rule antisym)
    have "?t \<noteq> []" using assms(2) by auto
    from max_count_mem[OF this] show "max_count ?t \<le> n" using assms(3) by auto
    show "n \<le> max_count ?t" using assms(2) by (intro max_count_ge) force
  qed
  have "count_list votes w < n" if "w \<noteq> v" for w
  proof (rule ccontr)
    assume big: "\<not> count_list votes w < n"
    moreover have "n > 0" using v by (metis count_list_0_iff gr0I)
    ultimately have w: "w \<in> set votes" by (metis count_notin)
    then have "(w, count_list votes w) \<in> set ?t" by (simp add: set_tally)
    with assms(3) big have wn: "(w, n) \<in> set ?t" by force
    have "length (filter (\<lambda>x. snd x = n) ?t) \<le> 1"
      using assms(1) by (simp add: max filter_map comp_def)
    moreover have "{(v, n), (w, n)} \<subseteq> set (filter (\<lambda>x. snd x = n) ?t)"
      using assms(2) wn by auto
    then have "card {(v, n), (w, n)} \<le> length (filter (\<lambda>x. snd x = n) ?t)"
      by (meson card_length card_mono finite_set order_trans)
    ultimately show False using that by simp
  qed
  with v show ?thesis by (simp add: strictly_most_frequent_def)
qed

lemma most_frequent_Ok:
  assumes it: "iteration it"
  shows "most_frequent it show_nat e votes = Ok v \<longleftrightarrow> strictly_most_frequent votes v"
proof
  assume run: "most_frequent it show_nat e votes = Ok v"
  then obtain n where n: "length (filter (\<lambda>c. c = max_count (tally votes)) (map snd (tally votes))) \<le> 1"
    "max_by_count (it (tally votes)) = Some (v, n)"
    by (auto simp: most_frequent_def Let_def split: if_splits option.splits)
  from max_by_count_Some[OF n(2)] n(1) show "strictly_most_frequent votes v"
    by (intro unique_max) (auto simp: iterationD(2)[OF it])
next
  assume v: "strictly_most_frequent votes v"
  let ?t = "tally votes" and ?n = "count_list votes v"
  have mem: "(v, ?n) \<in> set ?t" using v by (simp add: strictly_most_frequent_def set_tally)
  have top: "x = (v, ?n)" if "x \<in> set ?t" "?n \<le> snd x" for x
  proof -
    obtain w m where x: "x = (w, m)" by (cases x)
    with that have "m = count_list votes w" by (simp add: set_tally)
    with that v x show ?thesis unfolding strictly_most_frequent_def by (cases "w = v") force+
  qed
  have max: "max_count ?t = ?n"
  proof -
    have "?t \<noteq> []" using mem by auto
    from max_count_mem[OF this] obtain x where x: "x \<in> set ?t" "snd x = max_count ?t" by auto
    have "?n \<le> max_count ?t" using mem by (intro max_count_ge) force
    with top[OF x(1)] x(2) show ?thesis by simp
  qed
  have "filter (\<lambda>x. snd x = ?n) ?t = filter ((=) (v, ?n)) ?t"
    using top by (intro filter_cong) (auto dest: top)
  moreover have "distinct ?t" using distinct_tally[of votes] by (simp only: distinct_map)
  then have "length (filter ((=) (v, ?n)) ?t) \<le> 1"
    by (simp add: distinct_length_filter card_le_Suc0_iff_eq)
  ultimately have one: "length (filter (\<lambda>c. c = max_count ?t) (map snd ?t)) \<le> 1"
    by (simp add: max filter_map comp_def)
  have "it ?t \<noteq> []" using mem by (auto simp: iterationD(4)[OF it])
  then obtain y where y: "max_by_count (it ?t) = Some y" by (cases "max_by_count (it ?t)") auto
  with max_by_count_Some[OF y] mem have "y = (v, ?n)"
    by (intro top) (auto simp: iterationD(2)[OF it])
  with y one show "most_frequent it show_nat e votes = Ok v"
    by (simp add: most_frequent_def Let_def)
qed

lemma most_frequent_no_panic: "most_frequent it show_nat e votes \<noteq> Panic p"
  by (auto simp: most_frequent_def Let_def split: option.splits)

lemma strictly_most_frequent_unique:
  "strictly_most_frequent votes v \<Longrightarrow> strictly_most_frequent votes w \<Longrightarrow> v = w"
  unfolding strictly_most_frequent_def by (metis less_asym)

text \<open>A majority is strictly most frequent.\<close>

lemma sum_counts_le: "v \<noteq> w \<Longrightarrow> count_list votes v + count_list votes w \<le> length votes"
  by (induction votes) auto

lemma majority_most_frequent:
  assumes "2 * count_list votes v > length votes"
  shows "strictly_most_frequent votes v"
proof -
  have "v \<in> set votes" using assms by (metis count_notin mult_0_right not_less0)
  moreover have "count_list votes w < count_list votes v" if "w \<noteq> v" for w
    using sum_counts_le[OF that, of votes] assms by simp
  ultimately show ?thesis by (simp add: strictly_most_frequent_def)
qed

subsection \<open>The interface of the three vote rules\<close>

text \<open>
  A vote rule decides on a set of votes, each a value and the server it comes from. The
  contract: it decides for a value exactly when the value occurs more often than any other.
\<close>

locale vote_rule =
  fixes decide :: "('a \<times> url) list \<Rightarrow> (sol_client_error, 'b) outcome"
    and decode :: "'a \<Rightarrow> 'b option"
    and order_ok :: bool
  assumes decides: "order_ok \<Longrightarrow>
      decide votes = Ok b \<longleftrightarrow> (\<exists>v. strictly_most_frequent (map fst votes) v \<and> decode v = Some b)"
begin

lemma from_some_server:
  assumes "order_ok" and "decide votes = Ok b"
  shows "\<exists>v from. (v, from) \<in> set votes \<and> decode v = Some b"
  using assms decides by (auto simp: strictly_most_frequent_def)

text \<open>The order of arrival does not matter.\<close>

lemma order_independent:
  assumes "order_ok" and "mset votes' = mset votes"
  shows "decide votes' = Ok b \<longleftrightarrow> decide votes = Ok b"
proof -
  have m: "mset (map fst votes') = mset (map fst votes)" using assms(2) by simp
  then have "count_list (map fst votes') = count_list (map fst votes)"
    by (simp only: count_list_mset fun_eq_iff simp_thms)
  moreover have "set (map fst votes') = set (map fst votes)" using m by (rule mset_eq_setD)
  ultimately show ?thesis by (simp add: decides[OF assms(1)] strictly_most_frequent_def)
qed

text \<open>When more than half of the servers are honest, their common answer is the decision.\<close>

lemma honest_majority:
  assumes "order_ok" and "2 * length (filter (\<lambda>(v, from). from \<in> honest) votes) > length votes"
    and "\<forall>(v, from) \<in> set votes. from \<in> honest \<longrightarrow> v = x" and "decode x = Some b"
  shows "decide votes = Ok b"
proof -
  have "length (filter (\<lambda>(v, from). from \<in> honest) votes) \<le> count_list (map fst votes) x"
    using assms(3) by (induction votes) auto
  with assms(2) have "2 * count_list (map fst votes) x > length (map fst votes)" by simp
  then have "strictly_most_frequent (map fst votes) x" by (rule majority_most_frequent)
  with decides[OF assms(1)] assms(4) show ?thesis by blast
qed

lemma unanimous:
  assumes "order_ok" and "votes \<noteq> []" and "\<forall>(v, from) \<in> set votes. v = x" and "decode x = Some b"
  shows "decide votes = Ok b"
proof (rule honest_majority[OF assms(1), where honest = UNIV and x = x])
  have "length votes > 0" using assms(2) by simp
  then show "2 * length (filter (\<lambda>(v, from). from \<in> UNIV) votes) > length votes"
    by (simp add: case_prod_unfold)
qed (use assms in auto)

end

interpretation slot_rule: vote_rule "deal_get_slot_res it show_nat" Some "iteration it"
  for it show_nat
  by unfold_locales (simp add: deal_get_slot_res_def most_frequent_Ok)

interpretation account_rule: vote_rule "deal_get_account_res it show_nat from_slice" from_slice "iteration it"
  for it show_nat from_slice
  by unfold_locales (simp add: deal_get_account_res_def outcome_simps most_frequent_Ok)

interpretation transaction_rule: vote_rule "deal_get_transaction_res it show_nat from_slice" from_slice "iteration it"
  for it show_nat from_slice
  by unfold_locales (simp add: deal_get_transaction_res_def outcome_simps most_frequent_Ok)

subsection \<open>Entries counted as often as there are servers\<close>

lemma count_list_map_inj: "inj f \<Longrightarrow> count_list (map f xs) (f x) = count_list xs x"
  by (induction xs) (auto dest: injD)

text \<open>Decoding after encoding loses nothing: what \<open>serde_json\<close> does on the answers' types.\<close>

definition json_exact :: "('x \<Rightarrow> string) \<Rightarrow> (string \<Rightarrow> 'x option) \<Rightarrow> bool" where
  "json_exact ser de \<longleftrightarrow> (\<forall>x. de (ser x) = Some x)"

lemma json_exact_inj: "json_exact ser de \<Longrightarrow> inj ser"
  unfolding json_exact_def inj_def by (metis option.inject)

lemma counted_exactly_Ok:
  assumes it: "iteration it" and js: "json_exact ser de"
  shows "\<exists>xs. counted_exactly it ser de n entries = Ok xs \<and> distinct xs \<and>
    set xs = {x \<in> set entries. count_list entries x = n}"
proof -
  let ?t = "it (tally (map ser entries))"
  let ?sel = "filter (\<lambda>(_, v). v = n) ?t"
  note inj = json_exact_inj[OF js]
  have mem: "(k, m) \<in> set ?t \<longleftrightarrow> (\<exists>x \<in> set entries. k = ser x \<and> m = count_list entries x)" for k m
    using count_list_map_inj[OF inj, of entries] by (auto simp: iterationD(2)[OF it] set_tally)
  define dec where "dec k = the (de k)" for k
  have dec: "dec (ser x) = x" for x using js by (simp add: dec_def json_exact_def)
  have run: "counted_exactly it ser de n entries = Ok (map (\<lambda>(k, _). dec k) ?sel)"
    unfolding counted_exactly_def
  proof (rule try_map_Ok, rule ballI)
    fix y assume "y \<in> set ?sel"
    then obtain x where "y = (ser x, n)" by (auto simp: mem)
    then show "(case y of (k, _) \<Rightarrow> unwrap_opt (de k)) = Ok (case y of (k, _) \<Rightarrow> dec k)"
      using js by (simp add: json_exact_def dec_def)
  qed
  have dt: "distinct (map fst ?t)"
  proof -
    have "mset (map fst ?t) = mset (map fst (tally (map ser entries)))"
      using iterationD(1)[OF it, of "tally (map ser entries)"] by simp
    then show ?thesis using distinct_tally mset_eq_imp_distinct_iff by blast
  qed
  have "distinct (map (\<lambda>(k, _). dec k) ?sel)"
  proof -
    have "inj_on (\<lambda>(k, _). dec k) (set ?sel)"
      by (auto simp: inj_on_def mem dec)
    moreover have "distinct ?sel" using dt by (simp add: distinct_map)
    ultimately show ?thesis by (simp add: distinct_map)
  qed
  moreover have "set (map (\<lambda>(k, _). dec k) ?sel) = {x \<in> set entries. count_list entries x = n}"
    by (force simp: mem dec)
  ultimately show ?thesis using run by blast
qed

lemma count_list_concat: "count_list (concat ls) x = sum_list (map (\<lambda>l. count_list l x) ls)"
  by (induction ls) auto

lemma count_concat_distinct:
  assumes "\<forall>l \<in> set ls. distinct l"
  shows "count_list (concat ls) x = length (filter (\<lambda>l. x \<in> set l) ls)"
  using assms by (induction ls) (auto simp: distinct_count_atmost_1 count_list_mset count_mset_0_iff
      distinct_count_atmost_1[unfolded count_mset])

lemma counted_by_all:
  assumes "\<forall>l \<in> set ls. distinct l" and "ls \<noteq> []"
  shows "x \<in> set (concat ls) \<and> count_list (concat ls) x = length ls \<longleftrightarrow> (\<forall>l \<in> set ls. x \<in> set l)"
proof -
  have "length (filter (\<lambda>l. x \<in> set l) ls) = length ls \<longleftrightarrow> (\<forall>l \<in> set ls. x \<in> set l)"
    by (metis filter_True length_filter_less less_irrefl)
  with assms count_concat_distinct[OF assms(1), of x] show ?thesis
    by (cases ls) auto
qed

text \<open>Servers that send the same list: its order is kept.\<close>

lemma bump_append: "k \<notin> fst ` set as \<Longrightarrow> bump k (as @ bs) = as @ bump k bs"
  by (induction as) auto

lemma fold_bump_round:
  assumes "distinct (ps @ qs)"
  shows "fold bump qs (map (\<lambda>y. (y, Suc m)) ps @ map (\<lambda>y. (y, m)) qs) = map (\<lambda>y. (y, Suc m)) (ps @ qs)"
  using assms
proof (induction qs arbitrary: ps)
  case (Cons q qs)
  have "fold bump (q # qs) (map (\<lambda>y. (y, Suc m)) ps @ map (\<lambda>y. (y, m)) (q # qs)) =
      fold bump qs (map (\<lambda>y. (y, Suc m)) (ps @ [q]) @ map (\<lambda>y. (y, m)) qs)"
    using Cons.prems by (simp add: bump_append image_image)
  also have "\<dots> = map (\<lambda>y. (y, Suc m)) ((ps @ [q]) @ qs)"
    by (rule Cons.IH) (use Cons.prems in simp)
  finally show ?case by simp
qed simp

lemma fold_bump_new:
  assumes "distinct (ps @ qs)"
  shows "fold bump qs (map (\<lambda>y. (y, 1)) ps) = map (\<lambda>y. (y, 1)) (ps @ qs)"
  using assms
proof (induction qs arbitrary: ps)
  case (Cons q qs)
  have "bump q (map (\<lambda>y. (y, 1)) ps) = map (\<lambda>y. (y, 1)) (ps @ [q])"
    using Cons.prems bump_append[of q "map (\<lambda>y. (y, 1)) ps" "[]"] by (simp add: image_image)
  with Cons.IH[of "ps @ [q]"] Cons.prems show ?case by simp
qed simp

lemma tally_repeat:
  assumes "distinct ys"
  shows "tally (concat (replicate (Suc m) ys)) = map (\<lambda>y. (y, Suc m)) ys"
proof (induction m)
  case 0
  with fold_bump_new[of "[]" ys] assms show ?case by (simp add: tally_def)
next
  case (Suc m)
  have "tally (concat (replicate (Suc (Suc m)) ys)) = fold bump ys (tally (concat (replicate (Suc m) ys)))"
  proof -
    have "replicate (Suc (Suc m)) ys = replicate (Suc m) ys @ [ys]"
      by (simp add: replicate_append_same)
    then show ?thesis by (simp add: tally_def del: replicate.simps)
  qed
  with Suc fold_bump_round[of "[]" ys "Suc m"] assms show ?case by simp
qed

lemma listed_by_all:
  assumes "iteration it" and "json_exact ser de"
    and "\<forall>(from, l) \<in> set accounts. distinct l" and "accounts \<noteq> []"
  shows "\<exists>xs. deal_get_program_accounts_res it ser de accounts = Ok xs \<and> distinct xs \<and>
    set xs = {x. \<forall>(from, l) \<in> set accounts. x \<in> set l}"
proof -
  let ?ls = "map snd accounts"
  obtain xs where xs: "counted_exactly it ser de (length accounts) (concat ?ls) = Ok xs" "distinct xs"
    "set xs = {x \<in> set (concat ?ls). count_list (concat ?ls) x = length accounts}"
    using counted_exactly_Ok[OF assms(1,2)] by blast
  have "x \<in> set (concat ?ls) \<and> count_list (concat ?ls) x = length ?ls \<longleftrightarrow> (\<forall>l \<in> set ?ls. x \<in> set l)" for x
    by (rule counted_by_all) (use assms(3,4) in auto)
  then have "set xs = {x. \<forall>l \<in> set ?ls. x \<in> set l}" using xs(3) by simp
  also have "\<dots> = {x. \<forall>(from, l) \<in> set accounts. x \<in> set l}" by auto
  finally show ?thesis using xs(1,2) by (auto simp: deal_get_program_accounts_res_def)
qed

text \<open>The predicate only depends on how often each value occurs.\<close>

lemma strictly_most_frequent_mset:
  "mset votes' = mset votes \<Longrightarrow> strictly_most_frequent votes' v \<longleftrightarrow> strictly_most_frequent votes v"
  unfolding strictly_most_frequent_def count_list_mset by (simp flip: set_mset_mset)

lemma strictly_most_frequent_inj:
  assumes "inj g" and "strictly_most_frequent (map g votes) (g v)"
  shows "strictly_most_frequent votes v"
proof -
  have "count_list votes w < count_list votes v" if "w \<noteq> v" for w
    using assms that count_list_map_inj[OF assms(1)]
    by (metis injD strictly_most_frequent_def)
  moreover have "v \<in> set votes"
    using assms by (auto simp: strictly_most_frequent_def dest: injD)
  ultimately show ?thesis by (simp add: strictly_most_frequent_def)
qed

subsection \<open>Properties\<close>

text \<open>
  the slot rule is exactly plurality. Whatever the order in which the hash map is iterated,
  it decides for a slot if and only if that slot was reported strictly more often than every
  other; in particular a tie, like no report at all, gives an error.
\<close>

theorem slot_rule_is_plurality:
  assumes "iteration it"
  shows "deal_get_slot_res it show_nat slots = Ok s \<longleftrightarrow> strictly_most_frequent (map fst slots) s"
  using slot_rule.decides[OF assms] by simp

theorem slot_rule_is_plurality_witness:
  "deal_get_slot_res rev (\<lambda>_. ''n'') [(7, ''a''), (8, ''b''), (7, ''c'')] = Ok 7 \<longleftrightarrow>
   strictly_most_frequent (map fst [(7 :: u64, ''a''), (8, ''b''), (7, ''c'')]) 7"
  by (rule slot_rule_is_plurality) (simp add: iteration_def)

text \<open>
  C26: an honest majority decides. When more than half of the servers that voted are honest and
  report the same account \<open>x\<close>, the account rule returns \<open>x\<close>, whatever the others report and in
  whatever order the answers arrive.
\<close>

theorem account_honest_majority:
  assumes "iteration it"
    and "2 * length (filter (\<lambda>(v, from). from \<in> honest) votes) > length votes"
    and "\<forall>(v, from) \<in> set votes. from \<in> honest \<longrightarrow> v = x" and "from_slice x = Some b"
    and "mset votes' = mset votes"
  shows "deal_get_account_res it show_nat from_slice votes' = Ok b"
  using account_rule.honest_majority[where honest = honest and votes = votes and x = x
      and from_slice = from_slice, OF assms(1-4)]
    account_rule.order_independent[OF assms(1,5)] by blast

theorem account_honest_majority_witness:
  "deal_get_account_res rev (\<lambda>_. ''n'') (\<lambda>bs. Some (if bs = [] then None else Some bs))
     [([9], ''c''), ([5], ''a''), ([5], ''b'')] = Ok (Some [5])"
  by (rule account_honest_majority[where honest = "{''a'', ''b''}" and x = "[5]"
        and votes = "[([5], ''a''), ([5], ''b''), ([9], ''c'')]"])
    (auto simp: iteration_def)

text \<open>
  an odd number of servers does not make the decision a majority. Of five servers, two
  that collude prevail as soon as the other three disagree among themselves.
\<close>

theorem two_of_five_prevail:
  "deal_get_slot_res (\<lambda>cs. cs) show_nat
     [(9, ''a''), (9, ''b''), (1, ''c''), (2, ''d''), (3, ''e'')] = Ok 9 \<and>
   \<not> 2 * count_list [9, 9, 1, 2, 3 :: u64] 9 > length [9, 9, 1, 2, 3 :: u64]"
  by (simp add: deal_get_slot_res_def most_frequent_def tally_def max_count_def)

text \<open>
  program accounts are those all servers list. If no server repeats an entry, the rule
  returns each entry that every server lists, once, and nothing else.
\<close>

theorem program_accounts_agreed:
  assumes "iteration it" and "json_exact ser de"
    and "\<forall>(from, l) \<in> set accounts. distinct l" and "accounts \<noteq> []"
  shows "\<exists>xs. deal_get_program_accounts_res it ser de accounts = Ok xs \<and> distinct xs \<and>
    set xs = {x. \<forall>(from, l) \<in> set accounts. x \<in> set l}"
  using assms by (rule listed_by_all)

theorem program_accounts_agreed_witness:
  "\<exists>xs. deal_get_program_accounts_res rev (\<lambda>s. s) Some
       [(''a'', [''x'', ''y'']), (''b'', [''y'', ''z''])] = Ok xs \<and> distinct xs \<and>
    set xs = {x. \<forall>(from, l) \<in> set [(''a'', [''x'', ''y'']), (''b'', [''y'', ''z''])]. x \<in> set l}"
  by (rule program_accounts_agreed) (auto simp: iteration_def json_exact_def)

text \<open>
  the rule counts entries, not servers. A server that repeats an entry once per server makes
  it agreed although no other server lists it.
\<close>

theorem repeated_entry_forges_agreement:
  "deal_get_program_accounts_res (\<lambda>cs. cs) (\<lambda>s. s) Some
     [(''evil'', [''x'', ''x'', ''x'']), (''b'', [''y'']), (''c'', [''y''])] = Ok [''x'']"
  by (simp add: deal_get_program_accounts_res_def counted_exactly_def tally_def)

text \<open>
  signatures keep their order. The counts are an insertion-ordered map; when all servers send
  the same list without repetitions, the rule returns that list.
\<close>

theorem signatures_unanimous:
  assumes "json_exact ser de" and "distinct sigs" and "signatures \<noteq> []"
    and "\<forall>(from, l) \<in> set signatures. l = sigs"
  shows "deal_get_signatures_for_address_res (\<lambda>cs. cs) ser de signatures = Ok sigs"
proof -
  obtain m where m: "length signatures = Suc m" using assms(3) by (cases signatures) auto
  have "map snd signatures = replicate (Suc m) sigs"
    using assms(4) m by (intro replicate_eqI) auto
  then have "map ser (concat (map snd signatures)) = concat (replicate (Suc m) (map ser sigs))"
    by (simp add: map_concat del: replicate.simps)
  moreover have "distinct (map ser sigs)"
    using assms(2) json_exact_inj[OF assms(1)] by (simp add: distinct_map inj_on_def)
  ultimately have t: "tally (map ser (concat (map snd signatures))) = map (\<lambda>x. (ser x, Suc m)) sigs"
    by (simp only: tally_repeat map_map comp_def)
  have "try_map (\<lambda>(k, _). unwrap_opt (de k)) (map (\<lambda>x. (ser x, Suc m)) sigs) =
      (Ok (map (\<lambda>(k, _). the (de k)) (map (\<lambda>x. (ser x, Suc m)) sigs)) :: (sol_client_error, _) outcome)"
    by (rule try_map_Ok) (use assms(1) in \<open>auto simp: json_exact_def\<close>)
  also have "map (\<lambda>(k, _). the (de k)) (map (\<lambda>x. (ser x, Suc m)) sigs) = sigs"
    using assms(1) by (simp add: json_exact_def comp_def)
  finally show ?thesis
    by (simp add: deal_get_signatures_for_address_res_def counted_exactly_def t m)
qed

theorem signatures_unanimous_witness:
  "deal_get_signatures_for_address_res (\<lambda>cs. cs) (\<lambda>s. s) Some
     [(''a'', [''x'', ''y'']), (''b'', [''x'', ''y''])] = Ok [''x'', ''y'']"
  by (rule signatures_unanimous) (auto simp: json_exact_def)

end
