(* ===== verification/Sol_Client.thy ===== *)
theory Sol_Client
  imports Sol_Votes Types_Config "HOL-Library.AList" "HOL-Library.Sublist"
begin

text \<open>
  The cross-checked Solana client of \<open>src/src/chains/sol.rs\<close>: the start-up checks on the
  configured servers, the workers that query one server each, the dispatcher that gathers the
  workers' messages and applies a vote rule, and the five calls that compare the result with
  the answer of the judge server.

  The RPC methods of a server are functions of the number of the attempt; a worker's message is
  a result with the server's address. What the dispatcher receives, one entry per second of
  waiting, is a list of events: a message with the seconds since the start, or silence. \<open>None\<close>
  is the result of waiting for ever.
\<close>

subsection \<open>Servers\<close>

record ('q, 'c, 'a, 'e) rpc_method =
  call :: "'q \<Rightarrow> nat \<Rightarrow> 'e + 'a"
  call_with_config :: "'q \<Rightarrow> 'c \<Rightarrow> nat \<Rightarrow> 'e + 'a"

text \<open>An error of \<open>get_account\<close>: the transaction error it carries, if any, and its text.\<close>

record account_error =
  transaction_error :: "string option"
  debug_text :: string

definition contains :: "string \<Rightarrow> string \<Rightarrow> bool" where
  "contains s p \<longleftrightarrow> list_ex (prefix p) (suffixes s)"

text \<open>\<open>impl Display for SolClientError\<close>.\<close>

fun show_sol_error :: "sol_client_error \<Rightarrow> string" where
  "show_sol_error (Custom err) = err"
| "show_sol_error (Internal _) = ''InternalError''"
| "show_sol_error (TimeOut _) = ''TimeOut''"

subsection \<open>Start-up\<close>

text \<open>
  \<open>urls\<close> is the configured list; the iteration order \<open>it\<close> of the set of its members is not
  specified. The client keeps the extra servers and the judge.
\<close>

record sol_client =
  sol_extra_rpc :: "url list"
  sol_judge_rpc :: url

definition is_all_client_available :: "(url \<Rightarrow> bool) \<Rightarrow> url list \<Rightarrow> bool" where
  "is_all_client_available healthy clients \<longleftrightarrow> fold (\<lambda>c all_available. if healthy c then all_available else False) clients True"

definition initialize_sol_client ::
    "(url list \<Rightarrow> url list) \<Rightarrow> (url \<Rightarrow> bool) \<Rightarrow> bool \<Rightarrow> service \<Rightarrow> string \<Rightarrow> url
      \<Rightarrow> (string, sol_client option) outcome" where
  "initialize_sol_client it healthy enable_single service sol_extra_rpcs judge_url =
     (if sol service
      then
        (let unique_urls = it (remdups (split_on (CHR '','') sol_extra_rpcs)) in
         if \<not> enable_single \<and> length unique_urls < 3
         then Err ''sol urls num mut >= 3''
         else if \<not> enable_single \<and> length unique_urls mod 2 = 0
         then Err ''urls num mut be odd number''
         else if \<not> is_all_client_available healthy (unique_urls @ [judge_url])
         then Err ''sol clients are not all available''
         else Ok (Some \<lparr>sol_extra_rpc = unique_urls, sol_judge_rpc = judge_url\<rparr>))
      else Ok None)"

subsection \<open>Workers\<close>

text \<open>The loop \<open>for _ in 0..3\<close> around a query, from attempt \<open>k\<close> on.\<close>

fun retry :: "nat \<Rightarrow> (nat \<Rightarrow> 'e + 'a) \<Rightarrow> nat \<Rightarrow> 'a option" where
  "retry 0 get k = None"
| "retry (Suc n) get k = (case get k of Inr a \<Rightarrow> Some a | Inl _ \<Rightarrow> retry n get (Suc k))"

type_synonym 'a message = "(sol_client_error + 'a) \<times> url"

definition client_worker_do_get_program_accounts ::
    "('pk, 'c, 'x list, string) rpc_method \<Rightarrow> ('pk \<Rightarrow> string) \<Rightarrow> 'c option \<Rightarrow> url \<Rightarrow> 'pk \<Rightarrow> 'x list message" where
  "client_worker_do_get_program_accounts client show_pk config url pubkey =
     (let get = (\<lambda>k. case config of
                      None \<Rightarrow> call client pubkey k
                    | Some config \<Rightarrow> call_with_config client pubkey config k) in
      case retry 3 get 0 of
        Some accounts \<Rightarrow> (Inr accounts, url)
      | None \<Rightarrow> (Inl (Internal (''failed to get program_accounts '' @ show_pk pubkey @ '' from '' @ url @
                  '', retry limited'')), url))"

definition client_worker_do_get_signatures_for_address ::
    "('pk, 'c, 'x list, string) rpc_method \<Rightarrow> 'c option \<Rightarrow> url \<Rightarrow> 'pk \<Rightarrow> 'x list message" where
  "client_worker_do_get_signatures_for_address client config url pubkey =
     (let get = (\<lambda>k. case config of
                      None \<Rightarrow> call client pubkey k
                    | Some config \<Rightarrow> call_with_config client pubkey config k) in
      case retry 3 get 0 of
        Some signatures \<Rightarrow> (Inr signatures, url)
      | None \<Rightarrow> (Inl (Internal (''failed to get signatures from '' @ url @ '', retry limited'')), url))"

text \<open>
  An account that is not found is a result of its own without a configuration; with one the
  answer has it as \<open>None\<close> already.
\<close>

record ('pk, 'c, 'acct) account_method =
  get_account :: "'pk \<Rightarrow> nat \<Rightarrow> account_error + 'acct"
  get_account_with_config :: "'pk \<Rightarrow> 'c \<Rightarrow> nat \<Rightarrow> account_error + 'acct option"

definition client_worker_do_get_account ::
    "('pk, 'c, 'acct) account_method \<Rightarrow> 'c option \<Rightarrow> url \<Rightarrow> 'pk \<Rightarrow> 'acct option message" where
  "client_worker_do_get_account client config url pubkey =
     (let get = (\<lambda>k. case config of
          None \<Rightarrow>
            (case get_account client pubkey k of
               Inr account \<Rightarrow> Inr (Some account)
             | Inl err \<Rightarrow>
                 (case transaction_error err of
                    Some err_s \<Rightarrow> (if contains err_s ''AccountNotFound'' then Inr None else Inl err_s)
                  | None \<Rightarrow> Inl (debug_text err)))
        | Some config \<Rightarrow>
            (case get_account_with_config client pubkey config k of
               Inr value \<Rightarrow> Inr value
             | Inl err \<Rightarrow> Inl (debug_text err))) in
      case retry 3 get 0 of
        Some account \<Rightarrow> (Inr account, url)
      | None \<Rightarrow> (Inl (Internal (''failed to get account from '' @ url @ '', retry limited'')), url))"

definition client_worker_do_get_slot ::
    "(unit, 'c, u64, string) rpc_method \<Rightarrow> 'c option \<Rightarrow> url \<Rightarrow> u64 message" where
  "client_worker_do_get_slot client commitment_config url =
     (let get = (\<lambda>k. case commitment_config of
                      None \<Rightarrow> call client () k
                    | Some config \<Rightarrow> call_with_config client () config k) in
      case retry 3 get 0 of
        Some slot \<Rightarrow> (Inr slot, url)
      | None \<Rightarrow> (Inl (Internal (''failed to get slot from '' @ url @ '', retry limited'')), url))"

definition client_worker_do_get_transaction ::
    "('sg, 'c, 'tx, string) rpc_method \<Rightarrow> 'c option \<Rightarrow> 'sg \<Rightarrow> url \<Rightarrow> 'tx message" where
  "client_worker_do_get_transaction client tx_config signature url =
     (let get = (\<lambda>k. case tx_config of
                      None \<Rightarrow> call client signature k
                    | Some config \<Rightarrow> call_with_config client signature config k) in
      case retry 3 get 0 of
        Some tx \<Rightarrow> (Inr tx, url)
      | None \<Rightarrow> (Inl (Internal (''failed to get transaction from '' @ url @ '', retry limited'')), url))"

lemma retry_Some:
  "retry n get k = Some a \<longleftrightarrow> (\<exists>i < n. get (k + i) = Inr a \<and> (\<forall>j < i. \<exists>e. get (k + j) = Inl e))"
proof (induction n get k rule: retry.induct)
  case (2 n get k)
  show ?case
  proof (cases "get k")
    case (Inl e)
    with 2 have "retry (Suc n) get k = Some a \<longleftrightarrow>
        (\<exists>i < n. get (Suc (k + i)) = Inr a \<and> (\<forall>j < i. \<exists>e. get (Suc (k + j)) = Inl e))" by simp
    also have "\<dots> \<longleftrightarrow> (\<exists>i < Suc n. get (k + i) = Inr a \<and> (\<forall>j < i. \<exists>e. get (k + j) = Inl e))"
      using Inl by (simp add: Ex_less_Suc2 All_less_Suc2)
    finally show ?thesis .
  next
    case (Inr b)
    then show ?thesis by (auto simp: Ex_less_Suc2 All_less_Suc2)
  qed
qed simp

lemma retry_None: "retry n get k = None \<longleftrightarrow> (\<forall>i < n. \<exists>e. get (k + i) = Inl e)"
  by (induction n get k rule: retry.induct) (auto simp: All_less_Suc2 split: sum.split)

subsection \<open>The servers as a whole\<close>

record ('sg, 'cc) signatures_config =
  before :: "'sg option"
  until :: "'sg option"
  limit :: "nat option"
  commitment :: "'cc option"

text \<open>The methods of one \<open>RpcClient\<close>.\<close>

record ('pk, 'sg, 'tx, 'acct, 'si, 'ctx, 'cc, 'cacct, 'cpa) rpc_client =
  client_url :: url
  rpc_transaction :: "('sg, 'ctx, 'tx, string) rpc_method"
  rpc_slot :: "(unit, 'cc, u64, string) rpc_method"
  rpc_account :: "('pk, 'cacct, 'acct) account_method"
  rpc_signatures :: "('pk, ('sg, 'cc) signatures_config, 'si list, string) rpc_method"
  rpc_program_accounts :: "('pk, 'cpa, ('pk \<times> 'acct) list, string) rpc_method"

datatype ('pk, 'sg, 'ctx, 'cc, 'cacct, 'cpa) task_event =
    GetTransaction 'sg "'ctx option"
  | GetSlot "'cc option"
  | GetAccountInfo 'pk "'cacct option"
  | GetSignaturesForAddress 'pk "('sg, 'cc) signatures_config option"
  | GetProgramAccounts 'pk "'cpa option"

text \<open>The broadcast task; the configuration of a signature query travels as a tuple.\<close>

type_synonym ('sg, 'cc) signatures_tuple = "'sg option \<times> 'sg option \<times> nat option \<times> 'cc option"

datatype ('pk, 'sg, 'ctx, 'cc, 'cacct, 'cpa) inner_task_event =
    IGetTransaction 'sg "'ctx option"
  | IGetSlot "'cc option"
  | IGetAccountInfo 'pk "'cacct option"
  | IGetSignaturesForAddress 'pk "('sg, 'cc) signatures_tuple option"
  | IGetProgramAccounts 'pk "'cpa option"

fun inner_task ::
    "('pk, 'sg, 'ctx, 'cc, 'cacct, 'cpa) task_event \<Rightarrow> ('pk, 'sg, 'ctx, 'cc, 'cacct, 'cpa) inner_task_event" where
  "inner_task (GetTransaction signature tx_config) = IGetTransaction signature tx_config"
| "inner_task (GetSlot commitment_config) = IGetSlot commitment_config"
| "inner_task (GetAccountInfo pubkey config) = IGetAccountInfo pubkey config"
| "inner_task (GetSignaturesForAddress pubkey config) =
     IGetSignaturesForAddress pubkey
       (map_option (\<lambda>c. (before c, until c, limit c, commitment c)) config)"
| "inner_task (GetProgramAccounts pubkey config) = IGetProgramAccounts pubkey config"

text \<open>The message a worker sends on the channel of its task.\<close>

datatype ('tx, 'acct, 'si, 'pacc) worker_message =
    MTransaction "'tx message"
  | MSlot "u64 message"
  | MAccountInfo "'acct option message"
  | MSignatures "'si list message"
  | MProgramAccounts "'pacc list message"

fun client_worker ::
    "('pk \<Rightarrow> string) \<Rightarrow> ('pk, 'sg, 'tx, 'acct, 'si, 'ctx, 'cc, 'cacct, 'cpa) rpc_client
      \<Rightarrow> ('pk, 'sg, 'ctx, 'cc, 'cacct, 'cpa) inner_task_event
      \<Rightarrow> ('tx, 'acct, 'si, 'pk \<times> 'acct) worker_message" where
  "client_worker show_pk client (IGetTransaction signature tx_config) =
     MTransaction (client_worker_do_get_transaction (rpc_transaction client) tx_config signature (client_url client))"
| "client_worker show_pk client (IGetSlot commitment_config) =
     MSlot (client_worker_do_get_slot (rpc_slot client) commitment_config (client_url client))"
| "client_worker show_pk client (IGetAccountInfo pubkey config) =
     MAccountInfo (client_worker_do_get_account (rpc_account client) config (client_url client) pubkey)"
| "client_worker show_pk client (IGetSignaturesForAddress pubkey config) =
     MSignatures (client_worker_do_get_signatures_for_address (rpc_signatures client)
       (map_option (\<lambda>(b, u, l, c). \<lparr>before = b, until = u, limit = l, commitment = c\<rparr>) config)
       (client_url client) pubkey)"
| "client_worker show_pk client (IGetProgramAccounts pubkey config) =
     MProgramAccounts (client_worker_do_get_program_accounts (rpc_program_accounts client) show_pk config
       (client_url client) pubkey)"

subsection \<open>The dispatcher\<close>

datatype ('tx, 'acct, 'sig, 'pacc) response_event =
    RGetTransaction "sol_client_error + 'tx"
  | RGetSlot "sol_client_error + u64"
  | RGetAccountInfo "sol_client_error + 'acct option"
  | RGetSignaturesForAddress "sol_client_error + 'sig list"
  | RGetProgramAccounts "sol_client_error + 'pacc list"

datatype 'a recv = Silence | Message nat "'a message"

text \<open>The result of a vote rule as a response.\<close>

fun respond :: "(sol_client_error + 'a \<Rightarrow> 'r) \<Rightarrow> (sol_client_error, 'a) outcome \<Rightarrow> 'r panicky" where
  "respond mk (Ok a) = Ok (mk (Inr a))"
| "respond mk (Err e) = Ok (mk (Inl e))"
| "respond mk (Panic p) = Panic p"

text \<open>
  The loop of the five \<open>deal\<close> functions. They differ in how an answer is recorded
  (\<open>HashMap::insert\<close> by server or \<open>HashSet::insert\<close> of a pair) and in the responses they make.
\<close>

record ('a, 'x, 'r) dealing =
  add_answer :: "'a \<Rightarrow> url \<Rightarrow> 'x list \<Rightarrow> 'x list panicky"
  on_error :: "sol_client_error \<Rightarrow> url \<Rightarrow> 'r"
  on_complete :: "'x list \<Rightarrow> 'r panicky"
  on_timeout :: "'x list \<Rightarrow> 'r"

text \<open>
  One iteration with a message, \<open>t\<close> seconds after the start: the loop goes on with the answers
  so far (\<open>Inl\<close>) or ends with a response.
\<close>

fun on_message ::
    "('a, 'x, 'r) dealing \<Rightarrow> nat \<Rightarrow> nat \<Rightarrow> 'a message \<Rightarrow> 'x list \<Rightarrow> 'x list + 'r panicky" where
  "on_message d rpc_num t (result, from) res =
     (case result of
        Inl err \<Rightarrow> Inr (Ok (on_error d err from))
      | Inr a \<Rightarrow>
          (case add_answer d a from res of
             Ok res' \<Rightarrow>
               (if length res' = rpc_num then Inr (on_complete d res')
                else if t \<ge> 60 then Inr (Ok (on_timeout d res'))
                else Inl res')
           | Err e \<Rightarrow> Inr (Err e)
           | Panic p \<Rightarrow> Inr (Panic p)))"

text \<open>The age of the task is only looked at after a message: a silent second changes nothing.\<close>

fun gather ::
    "('a, 'x, 'r) dealing \<Rightarrow> nat \<Rightarrow> 'x list \<Rightarrow> 'a recv list \<Rightarrow> 'r panicky option" where
  "gather d rpc_num res [] = None"
| "gather d rpc_num res (Silence # events) = gather d rpc_num res events"
| "gather d rpc_num res (Message t m # events) =
     (case on_message d rpc_num t m res of
        Inl res' \<Rightarrow> gather d rpc_num res' events
      | Inr r \<Rightarrow> Some r)"

text \<open>\<open>dispatched\<close> is the result of the broadcast: \<open>Some err\<close> when it failed.\<close>

definition deal ::
    "(sol_client_error + 'v \<Rightarrow> 'r) \<Rightarrow> ('a, 'x, 'r) dealing \<Rightarrow> nat \<Rightarrow> string option \<Rightarrow> 'a recv list
      \<Rightarrow> 'r panicky option" where
  "deal mk d rpc_num dispatched events =
     (case dispatched of
        Some err \<Rightarrow> Some (Ok (mk (Inl (Internal err))))
      | None \<Rightarrow> gather d rpc_num [] events)"

definition add_by_server :: "'a \<Rightarrow> url \<Rightarrow> (url \<times> 'a) list \<Rightarrow> (url \<times> 'a) list panicky" where
  "add_by_server a from res = Ok (AList.update from a res)"

definition add_pair :: "('a \<Rightarrow> 'b option) \<Rightarrow> 'a \<Rightarrow> url \<Rightarrow> ('b \<times> url) list \<Rightarrow> ('b \<times> url) list panicky" where
  "add_pair to_vec a from res =
     and_then (unwrap_opt (to_vec a)) (\<lambda>v. Ok (List.insert (v, from) res))"

text \<open>
  What the rules use of hash maps, \<open>serde_json\<close> and formatting: the iteration order of a map of
  counts for each type of key and of the map of signature lists, the encodings of the answers, and the debug text of the answers
  so far.
\<close>

record ('tx, 'acct, 'si, 'pacc) sol_env =
  order_u64 :: "(u64 \<times> nat) list \<Rightarrow> (u64 \<times> nat) list"
  order_bytes :: "(bytes \<times> nat) list \<Rightarrow> (bytes \<times> nat) list"
  order_string :: "(string \<times> nat) list \<Rightarrow> (string \<times> nat) list"
  order_answers :: "(url \<times> 'si list) list \<Rightarrow> (url \<times> 'si list) list"
  show_nat :: "nat \<Rightarrow> string"
  tx_to_vec :: "'tx \<Rightarrow> bytes option"
  tx_from_slice :: "bytes \<Rightarrow> 'tx option"
  account_to_vec :: "'acct option \<Rightarrow> bytes option"
  account_from_slice :: "bytes \<Rightarrow> 'acct option option"
  sig_ser :: "'si \<Rightarrow> string"
  sig_de :: "string \<Rightarrow> 'si option"
  pacc_ser :: "'pacc \<Rightarrow> string"
  pacc_de :: "string \<Rightarrow> 'pacc option"
  show_urls :: "url list \<Rightarrow> string"
  show_program_accounts :: "'pacc list list \<Rightarrow> string"
  show_signatures :: "'si list list \<Rightarrow> string"

definition program_accounts_dealing ::
    "('tx, 'acct, 'si, 'pacc) sol_env
      \<Rightarrow> ('pacc list, url \<times> 'pacc list, ('tx, 'acct, 'si, 'pacc) response_event) dealing" where
  "program_accounts_dealing E = \<lparr>
     add_answer = add_by_server,
     on_error = (\<lambda>err from. RGetProgramAccounts (Inl (Internal
       (''GetAccountInfo received error from '' @ from @ '': '' @ show_sol_error err)))),
     on_complete = (\<lambda>res. respond RGetProgramAccounts
       (deal_get_program_accounts_res (order_string E) (pacc_ser E) (pacc_de E) res)),
     on_timeout = (\<lambda>res. RGetProgramAccounts (Inl (TimeOut
       (''GetProgramAccounts cancelled, took more than 60s, received from: '' @
        show_program_accounts E (map snd res)))))\<rparr>"

definition deal_get_program_accounts ::
    "('tx, 'acct, 'si, 'pacc) sol_env \<Rightarrow> nat \<Rightarrow> string option \<Rightarrow> 'pacc list recv list
      \<Rightarrow> ('tx, 'acct, 'si, 'pacc) response_event panicky option" where
  "deal_get_program_accounts E = deal RGetProgramAccounts (program_accounts_dealing E)"

definition signatures_dealing ::
    "('tx, 'acct, 'si, 'pacc) sol_env
      \<Rightarrow> ('si list, url \<times> 'si list, ('tx, 'acct, 'si, 'pacc) response_event) dealing" where
  "signatures_dealing E = \<lparr>
     add_answer = add_by_server,
     on_error = (\<lambda>err from. RGetSignaturesForAddress (Inl (Internal
       (''GetSignaturesForAddress received error from '' @ from @ '': '' @ show_sol_error err)))),
     on_complete = (\<lambda>res. respond RGetSignaturesForAddress
       (deal_get_signatures_for_address_res (\<lambda>counts. counts) (sig_ser E) (sig_de E) (order_answers E res))),
     on_timeout = (\<lambda>res. RGetSignaturesForAddress (Inl (TimeOut
       (''GetSignaturesForAddress cancelled, took more than 60s, received from: '' @
        show_signatures E (map snd res)))))\<rparr>"

definition deal_get_signatures_for_address ::
    "('tx, 'acct, 'si, 'pacc) sol_env \<Rightarrow> nat \<Rightarrow> string option \<Rightarrow> 'si list recv list
      \<Rightarrow> ('tx, 'acct, 'si, 'pacc) response_event panicky option" where
  "deal_get_signatures_for_address E = deal RGetSignaturesForAddress (signatures_dealing E)"

text \<open>The error of a server is answered with a slot response here.\<close>

definition account_dealing ::
    "('tx, 'acct, 'si, 'pacc) sol_env
      \<Rightarrow> ('acct option, bytes \<times> url, ('tx, 'acct, 'si, 'pacc) response_event) dealing" where
  "account_dealing E = \<lparr>
     add_answer = add_pair (account_to_vec E),
     on_error = (\<lambda>err from. RGetSlot (Inl (Internal
       (''GetAccountInfo received error from '' @ from @ '': '' @ show_sol_error err)))),
     on_complete = (\<lambda>res. respond RGetAccountInfo
       (deal_get_account_res (order_bytes E) (show_nat E) (account_from_slice E) res)),
     on_timeout = (\<lambda>res. RGetAccountInfo (Inl (TimeOut
       (''GetAccountInfo cancelled, took more than 60s, received from: '' @ show_urls E (map snd res)))))\<rparr>"

definition deal_get_account_info ::
    "('tx, 'acct, 'si, 'pacc) sol_env \<Rightarrow> nat \<Rightarrow> string option \<Rightarrow> 'acct option recv list
      \<Rightarrow> ('tx, 'acct, 'si, 'pacc) response_event panicky option" where
  "deal_get_account_info E = deal RGetAccountInfo (account_dealing E)"

definition slot_dealing ::
    "('tx, 'acct, 'si, 'pacc) sol_env
      \<Rightarrow> (u64, u64 \<times> url, ('tx, 'acct, 'si, 'pacc) response_event) dealing" where
  "slot_dealing E = \<lparr>
     add_answer = add_pair Some,
     on_error = (\<lambda>err from. RGetSlot (Inl (Internal
       (''GetSlot received error from '' @ from @ '': '' @ show_sol_error err)))),
     on_complete = (\<lambda>res. respond RGetSlot (deal_get_slot_res (order_u64 E) (show_nat E) res)),
     on_timeout = (\<lambda>res. RGetSlot (Inl (TimeOut
       (''GetSlot cancelled, took more than 60s, received from: '' @ show_urls E (map snd res)))))\<rparr>"

definition deal_get_slot ::
    "('tx, 'acct, 'si, 'pacc) sol_env \<Rightarrow> nat \<Rightarrow> string option \<Rightarrow> u64 recv list
      \<Rightarrow> ('tx, 'acct, 'si, 'pacc) response_event panicky option" where
  "deal_get_slot E = deal RGetSlot (slot_dealing E)"

definition transaction_dealing ::
    "('tx, 'acct, 'si, 'pacc) sol_env
      \<Rightarrow> ('tx, bytes \<times> url, ('tx, 'acct, 'si, 'pacc) response_event) dealing" where
  "transaction_dealing E = \<lparr>
     add_answer = add_pair (tx_to_vec E),
     on_error = (\<lambda>err from. RGetTransaction (Inl (Internal
       (''GetTransaction received error from '' @ from @ '': '' @ show_sol_error err)))),
     on_complete = (\<lambda>res. respond RGetTransaction
       (deal_get_transaction_res (order_bytes E) (show_nat E) (tx_from_slice E) res)),
     on_timeout = (\<lambda>res. RGetTransaction (Inl (TimeOut
       (''GetTransaction cancelled, took more than 60s, received from: '' @ show_urls E (map snd res)))))\<rparr>"

definition deal_get_transaction ::
    "('tx, 'acct, 'si, 'pacc) sol_env \<Rightarrow> nat \<Rightarrow> string option \<Rightarrow> 'tx recv list
      \<Rightarrow> ('tx, 'acct, 'si, 'pacc) response_event panicky option" where
  "deal_get_transaction E = deal RGetTransaction (transaction_dealing E)"

subsection \<open>A concrete environment\<close>

definition sample_env :: "(bytes, u8, string, string \<times> u8) sol_env" where
  "sample_env = \<lparr>
     order_u64 = rev, order_bytes = rev, order_string = rev, order_answers = rev,
     show_nat = (\<lambda>n. [char_of n]),
     tx_to_vec = Some, tx_from_slice = Some,
     account_to_vec = (\<lambda>a. Some (case a of None \<Rightarrow> [] | Some x \<Rightarrow> [x])),
     account_from_slice = (\<lambda>bs. Some (case bs of [] \<Rightarrow> None | x # _ \<Rightarrow> Some x)),
     sig_ser = (\<lambda>s. s), sig_de = Some,
     pacc_ser = (\<lambda>(pk, x). char_of (unat x) # pk),
     pacc_de = (\<lambda>s. case s of [] \<Rightarrow> None | c # pk \<Rightarrow> Some (pk, word_of_nat (of_char c))),
     show_urls = concat, show_program_accounts = (\<lambda>_. ''[]''), show_signatures = (\<lambda>_. ''[]'')\<rparr>"

lemma sample_env_exact: "json_exact (pacc_ser sample_env) (pacc_de sample_env)"
  "json_exact (sig_ser sample_env) (sig_de sample_env)"
proof -
  have "unat x mod 256 = unat x" for x :: u8
    using unsigned_less[of x, where 'a = nat] by simp
  then show "json_exact (pacc_ser sample_env) (pacc_de sample_env)"
    by (simp add: json_exact_def sample_env_def)
qed (simp add: json_exact_def sample_env_def)

subsection \<open>Properties\<close>

text \<open>
  a worker answers exactly once, after at most three attempts. Its message carries the server's
  address and the first successful answer among attempts 0, 1 and 2; it is an error only when all
  three fail.
\<close>

theorem slot_worker_message:
  assumes "client_worker_do_get_slot client config url = (result, addr)"
    and "attempt = (case config of None \<Rightarrow> call client () | Some c \<Rightarrow> call_with_config client () c)"
  shows "addr = url \<and>
    (case result of
       Inr slot \<Rightarrow> \<exists>k < 3. attempt k = Inr slot \<and> (\<forall>j < k. \<exists>e. attempt j = Inl e)
     | Inl err \<Rightarrow> (\<forall>k < 3. \<exists>e. attempt k = Inl e) \<and> (\<exists>msg. err = Internal msg))"
proof -
  have get: "(\<lambda>k. case config of None \<Rightarrow> call client () k | Some c \<Rightarrow> call_with_config client () c k) = attempt"
    using assms(2) by (auto split: option.splits)
  show ?thesis
  proof (cases "retry 3 attempt 0")
    case None
    with assms(1) show ?thesis
      by (auto simp: client_worker_do_get_slot_def get retry_None)
  next
    case (Some slot)
    then obtain i where "i < 3" "attempt i = Inr slot" "\<forall>j < i. \<exists>e. attempt j = Inl e"
      by (auto simp: retry_Some)
    moreover have "result = Inr slot" "addr = url"
      using assms(1) Some by (auto simp: client_worker_do_get_slot_def get)
    ultimately show ?thesis by auto
  qed
qed

definition busy_twice :: "nat \<Rightarrow> string + u64" where
  "busy_twice k = (if k < 2 then Inl ''busy'' else Inr 5)"

theorem slot_worker_message_witness:
  "\<exists>k. k < 3 \<and> busy_twice k = Inr 5"
proof -
  let ?client = "\<lparr>call = (\<lambda>_. busy_twice), call_with_config = (\<lambda>_ _. busy_twice)\<rparr>"
  have "client_worker_do_get_slot ?client None ''a'' = (Inr 5, ''a'')"
    by (simp add: client_worker_do_get_slot_def busy_twice_def numeral_3_eq_3)
  from slot_worker_message[OF this, of busy_twice] show ?thesis by auto
qed

text \<open>
  C38: what start-up guarantees. A client is only initialised when the service is enabled; its extra
  servers are the configured ones, each once and at least one, and all of them and the judge were
  healthy. Unless the variable \<open>ENABLE_SINGLE_SOL_RPC\<close> is set (\<open>enable_single\<close>), their number is odd
  and at least three; with it any number is accepted.
\<close>

theorem initialize_sol_client_sound:
  assumes "iteration it"
    and "initialize_sol_client it healthy enable_single service urls judge = Ok (Some client)"
  shows "sol service \<and> distinct (sol_extra_rpc client) \<and> sol_extra_rpc client \<noteq> [] \<and>
    set (sol_extra_rpc client) = set (split_on (CHR '','') urls) \<and>
    sol_judge_rpc client = judge \<and> (\<forall>u \<in> set (sol_extra_rpc client) \<union> {judge}. healthy u) \<and>
    (enable_single \<or> odd (length (sol_extra_rpc client)) \<and> 3 \<le> length (sol_extra_rpc client))"
proof -
  let ?urls = "it (remdups (split_on (CHR '','') urls))"
  have av: "fold (\<lambda>c all_available. if healthy c then all_available else False) us b \<longleftrightarrow>
      b \<and> (\<forall>u \<in> set us. healthy u)" for us b by (induction us arbitrary: b) auto
  have "distinct ?urls"
    using iterationD(1)[OF assms(1)] distinct_remdups mset_eq_imp_distinct_iff by blast
  moreover have urls: "set ?urls = set (split_on (CHR '','') urls)"
    using iterationD(2)[OF assms(1)] by simp
  moreover have "?urls \<noteq> []" using urls split_on_not_Nil by (metis empty_set set_empty)
  ultimately show ?thesis
    using assms(2) by (auto simp: initialize_sol_client_def Let_def is_all_client_available_def av
        odd_iff_mod_2_eq_one split: if_splits)
qed

text \<open>The judge may be one of the extra servers: only those are compared with each other.\<close>

theorem initialize_sol_client_sound_witness:
  "odd (length [''a'', ''b'', ''c'']) \<and> 3 \<le> length [''a'', ''b'', ''c''] \<and>
    set [''a'', ''b'', ''c''] = set (split_on (CHR '','') ''a,b,c'') \<and>
    set [''a''] = set (split_on (CHR '','') ''a'')"
proof -
  have it: "iteration (\<lambda>us :: url list. us)" by (simp add: iteration_def)
  have "initialize_sol_client (\<lambda>us. us) (\<lambda>_. True) False (service_default\<lparr>sol := True\<rparr>) ''a,b,c'' ''a'' =
      Ok (Some \<lparr>sol_extra_rpc = [''a'', ''b'', ''c''], sol_judge_rpc = ''a''\<rparr>)"
    by (simp add: initialize_sol_client_def is_all_client_available_def Let_def)
  note odd_servers = initialize_sol_client_sound[OF it this]
  have "initialize_sol_client (\<lambda>us. us) (\<lambda>_. True) True (service_default\<lparr>sol := True\<rparr>) ''a'' ''a'' =
      Ok (Some \<lparr>sol_extra_rpc = [''a''], sol_judge_rpc = ''a''\<rparr>)"
    by (simp add: initialize_sol_client_def is_all_client_available_def Let_def)
  note one_server = initialize_sol_client_sound[OF it this]
  from odd_servers one_server show ?thesis unfolding sol_client.simps by blast
qed

end
