(* ===== verification/Sol_Round.thy ===== *)
theory Sol_Round
  imports Sol_Client
begin

text \<open>
  One task of the Solana client as a step relation: the workers that have not sent their message
  yet, the channel, the clock and the dispatcher's loop run interleaved. The answers of the
  dispatcher are tied to \<open>gather\<close>, the loop of \<open>src/src/chains/sol.rs\<close> on a list of events, and
  from there to the vote rules: what a response says about the workers' messages, that the rule's
  decision is sent when all of them answered in time, and that no response ever comes when one
  worker stays silent.
\<close>

subsection \<open>The loop as a fold\<close>

fun absorb ::
    "('a, 'x, 'r) dealing \<Rightarrow> nat \<Rightarrow> 'a recv \<Rightarrow> 'x list + 'r panicky \<Rightarrow> 'x list + 'r panicky" where
  "absorb d n ev (Inr r) = Inr r"
| "absorb d n Silence (Inl res) = Inl res"
| "absorb d n (Message t m) (Inl res) = on_message d n t m res"

lemma fold_absorb_Inr [simp]: "fold (absorb d n) events (Inr r) = Inr r"
  by (induction events) auto

lemma gather_fold:
  "gather d n res events =
     (case fold (absorb d n) events (Inl res) of Inr r \<Rightarrow> Some r | Inl _ \<Rightarrow> None)"
  by (induction d n res events rule: gather.induct) (auto split: sum.split simp del: on_message.simps)

lemma gather_silence: "gather d n res (replicate k Silence) = None"
  by (induction k) auto

subsection \<open>Steps\<close>

record ('a, 'x, 'r) round_state =
  waiting :: "'a message list"
  channel :: "'a message list"
  clock :: nat
  collected :: "'x list"
  answer :: "'r panicky option"

definition start_round :: "'a message list \<Rightarrow> ('a, 'x, 'r) round_state" where
  "start_round ms = \<lparr>waiting = ms, channel = [], clock = 0, collected = [], answer = None\<rparr>"

inductive round_step ::
    "('a, 'x, 'r) dealing \<Rightarrow> nat \<Rightarrow> ('a, 'x, 'r) round_state \<Rightarrow> ('a, 'x, 'r) round_state \<Rightarrow> bool"
  for d :: "('a, 'x, 'r) dealing" and n :: nat where
  send: "m \<in> set (waiting s) \<Longrightarrow>
    round_step d n s (s\<lparr>waiting := remove1 m (waiting s), channel := channel s @ [m]\<rparr>)"
| tick: "round_step d n s (s\<lparr>clock := Suc (clock s)\<rparr>)"
| receive: "answer s = None \<Longrightarrow> channel s = m # ms \<Longrightarrow>
    on_message d n (clock s) m (collected s) = Inl res \<Longrightarrow>
    round_step d n s (s\<lparr>channel := ms, collected := res\<rparr>)"
| respond_once: "answer s = None \<Longrightarrow> channel s = m # ms \<Longrightarrow>
    on_message d n (clock s) m (collected s) = Inr r \<Longrightarrow>
    round_step d n s (s\<lparr>channel := ms, answer := Some r\<rparr>)"

abbreviation reaches ::
    "('a, 'x, 'r) dealing \<Rightarrow> nat \<Rightarrow> ('a, 'x, 'r) round_state \<Rightarrow> ('a, 'x, 'r) round_state \<Rightarrow> bool" where
  "reaches d n \<equiv> (round_step d n)\<^sup>*\<^sup>*"

subsection \<open>Runs of the steps are runs of the loop\<close>

fun messages :: "'a recv list \<Rightarrow> 'a message list" where
  "messages [] = []"
| "messages (Silence # events) = messages events"
| "messages (Message t m # events) = m # messages events"

lemma messages_append [simp]: "messages (events @ events') = messages events @ messages events'"
  by (induction events rule: messages.induct) auto

definition outcome_so_far :: "('a, 'x, 'r) round_state \<Rightarrow> 'x list + 'r panicky" where
  "outcome_so_far s = (case answer s of Some r \<Rightarrow> Inr r | None \<Rightarrow> Inl (collected s))"

lemma outcome_so_far_frame [simp]:
  "outcome_so_far (s\<lparr>waiting := w, channel := c\<rparr>) = outcome_so_far s"
  "outcome_so_far (s\<lparr>clock := t\<rparr>) = outcome_so_far s"
  by (cases "answer s"; simp add: outcome_so_far_def)+

lemma outcome_so_far_receive [simp]:
  "answer s = None \<Longrightarrow> outcome_so_far s = Inl (collected s)"
  "answer s = None \<Longrightarrow> outcome_so_far (s\<lparr>channel := c, collected := res\<rparr>) = Inl res"
  "outcome_so_far (s\<lparr>channel := c, answer := Some r\<rparr>) = Inr r"
  by (simp_all add: outcome_so_far_def)

text \<open>Every message is waiting, in the channel or received, and the loop has seen the latter.\<close>

definition round_inv ::
    "('a, 'x, 'r) dealing \<Rightarrow> nat \<Rightarrow> 'a message list \<Rightarrow> ('a, 'x, 'r) round_state \<Rightarrow> bool" where
  "round_inv d n ms s \<longleftrightarrow>
     (\<exists>events. fold (absorb d n) events (Inl []) = outcome_so_far s \<and>
        mset ms = mset (waiting s) + mset (channel s) + mset (messages events) \<and>
        (\<forall>t m. Message t m \<in> set events \<longrightarrow> t \<le> clock s))"

lemma round_inv_start: "round_inv d n ms (start_round ms)"
  unfolding round_inv_def by (rule exI[of _ "[]"]) (simp add: start_round_def outcome_so_far_def)

lemma round_inv_step:
  assumes "round_step d n s s'" and "round_inv d n ms s"
  shows "round_inv d n ms s'"
proof -
  obtain events where run: "fold (absorb d n) events (Inl []) = outcome_so_far s"
    and all: "mset ms = mset (waiting s) + mset (channel s) + mset (messages events)"
    and times: "\<forall>t m. Message t m \<in> set events \<longrightarrow> t \<le> clock s"
    using assms(2) unfolding round_inv_def by blast
  from assms(1) show ?thesis
  proof cases
    case (send m)
    then show ?thesis unfolding round_inv_def
      by (intro exI[of _ events]) (use run all times in \<open>auto simp del: on_message.simps\<close>)
  next
    case tick
    then show ?thesis unfolding round_inv_def
      by (intro exI[of _ events]) (use run all times in \<open>auto simp: le_SucI\<close>)
  next
    case (receive m ms' res)
    then show ?thesis unfolding round_inv_def
      by (intro exI[of _ "events @ [Message (clock s) m]"])
        (use run all times in \<open>auto simp del: on_message.simps\<close>)
  next
    case (respond_once m ms' r)
    then show ?thesis unfolding round_inv_def
      by (intro exI[of _ "events @ [Message (clock s) m]"])
        (use run all times in \<open>auto simp del: on_message.simps\<close>)
  qed
qed

lemma round_inv_reaches: "reaches d n (start_round ms) s \<Longrightarrow> round_inv d n ms s"
  by (induction rule: rtranclp_induct) (auto intro: round_inv_start round_inv_step)

lemma clock_mono: "reaches d n s s' \<Longrightarrow> clock s \<le> clock s'"
  by (induction rule: rtranclp_induct) (auto elim!: round_step.cases)

text \<open>A round whose further messages are never sent does what the round without them does.\<close>

lemma reaches_more_waiting:
  assumes "reaches d n s s'" and "mset w = mset (waiting s) + extra"
  shows "\<exists>w'. reaches d n (s\<lparr>waiting := w\<rparr>) (s'\<lparr>waiting := w'\<rparr>) \<and> mset w' = mset (waiting s') + extra"
  using assms(1)
proof (induction rule: rtranclp_induct)
  case base
  then show ?case using assms(2) by (intro exI[of _ w]) simp
next
  case (step s1 s2)
  then obtain w1 where run: "reaches d n (s\<lparr>waiting := w\<rparr>) (s1\<lparr>waiting := w1\<rparr>)"
    and w1: "mset w1 = mset (waiting s1) + extra" by blast
  have "\<exists>w2. round_step d n (s1\<lparr>waiting := w1\<rparr>) (s2\<lparr>waiting := w2\<rparr>) \<and> mset w2 = mset (waiting s2) + extra"
    using step.hyps(2)
  proof cases
    case (send m)
    then have "m \<in> set w1" using w1 by (metis set_mset_mset union_iff)
    then have "round_step d n (s1\<lparr>waiting := w1\<rparr>) (s1\<lparr>waiting := remove1 m w1, channel := channel s1 @ [m]\<rparr>)"
      using round_step.send[of m "s1\<lparr>waiting := w1\<rparr>" d n] by simp
    moreover have "s2\<lparr>waiting := remove1 m w1\<rparr> = s1\<lparr>waiting := remove1 m w1, channel := channel s1 @ [m]\<rparr>"
      unfolding send(1) by (cases s1) simp
    ultimately have "round_step d n (s1\<lparr>waiting := w1\<rparr>) (s2\<lparr>waiting := remove1 m w1\<rparr>)" by metis
    moreover have "mset (remove1 m w1) = mset (waiting s2) + extra" using send w1 by simp
    ultimately show ?thesis by blast
  next
    case tick
    with round_step.tick[of d n "s1\<lparr>waiting := w1\<rparr>"] w1 show ?thesis by (cases s1) (intro exI[of _ w1], simp)
  next
    case (receive m ms res)
    with round_step.receive[of "s1\<lparr>waiting := w1\<rparr>" m ms d n res] w1 show ?thesis
      by (cases s1) (intro exI[of _ w1], simp)
  next
    case (respond_once m ms r)
    with round_step.respond_once[of "s1\<lparr>waiting := w1\<rparr>" m ms d n r] w1 show ?thesis
      by (cases s1) (intro exI[of _ w1], simp)
  qed
  with run show ?case by (meson rtranclp.rtrancl_into_rtrancl)
qed

text \<open>An answered round is a run of the loop of the source.\<close>

lemma reaches_deal:
  assumes "reaches d n (start_round ms) s" and "answer s = Some r"
  shows "\<exists>events. deal mk d n None events = Some r"
proof -
  from round_inv_reaches[OF assms(1)] obtain events where
    "fold (absorb d n) events (Inl []) = outcome_so_far s" unfolding round_inv_def by blast
  with assms(2) show ?thesis
    by (intro exI[of _ events]) (simp add: deal_def gather_fold outcome_so_far_def)
qed

subsection \<open>What the loop records\<close>

text \<open>The message of a worker that has an answer.\<close>

definition answered :: "'a \<times> url \<Rightarrow> 'a message" where
  "answered = (\<lambda>(a, from). (Inr a, from))"

lemma answered_simps [simp]: "answered (a, from) = (Inr a, from)" "snd (answered v) = snd v"
  by (simp_all add: answered_def split: prod.split)

lemma answered_not_error [simp]: "(Inl err, from) \<noteq> answered v" "answered v \<noteq> (Inl err, from)"
  by (cases v; simp)+

lemma distinct_sub_mset: "mset xs \<subseteq># mset ys \<Longrightarrow> distinct ys \<Longrightarrow> distinct xs"
  by (metis distinct_count_atmost_1 mset_subset_eq_count set_mset_mset count_greater_zero_iff
      le_antisym leI less_one subseteq_mset_def count_eq_zero_iff le_zero_eq)

subsection \<open>Idle rounds\<close>

text \<open>Everything the workers sent has been received, and the loop waits for more.\<close>

definition idle :: "('a, 'x, 'r) round_state \<Rightarrow> bool" where
  "idle s \<longleftrightarrow> waiting s = [] \<and> channel s = [] \<and> answer s = None"

lemma idle_step: "round_step d n s s' \<Longrightarrow> idle s \<Longrightarrow> idle s'"
  by (cases rule: round_step.cases) (auto simp: idle_def)

lemma idle_unanswered:
  assumes "idle s" and "reaches d n s s'"
  shows "answer s' = None"
proof -
  from assms(2,1) have "idle s'" by (induction rule: rtranclp_induct) (auto intro: idle_step)
  then show ?thesis by (simp add: idle_def)
qed

text \<open>
  Fewer than \<open>n\<close> servers, those of \<open>votes\<close>, have answered; their messages have been received within
  the first minute, and no other is on its way.
\<close>

definition silent_server ::
    "('a, 'x, 'r) dealing \<Rightarrow> nat \<Rightarrow> ('a \<times> url) list \<Rightarrow> ('a, 'x, 'r) round_state \<Rightarrow> bool" where
  "silent_server d n votes s \<longleftrightarrow> distinct (map snd votes) \<and> length votes < n \<and>
     reaches d n (start_round (map answered votes)) s \<and> waiting s = [] \<and> channel s = [] \<and> clock s < 60"

text \<open>
  The contract of the ways to record an answer: an answer of a server not seen before adds one
  entry. \<open>total\<close> says that the answers can be encoded.
\<close>

locale recording =
  fixes d :: "('a, 'x, 'r) dealing" and entry :: "'a \<times> url \<Rightarrow> 'x" and server :: "'x \<Rightarrow> url"
    and total :: bool
  assumes server_entry: "server (entry v) = snd v"
    and adds: "total \<Longrightarrow> from \<notin> server ` set res \<Longrightarrow>
      \<exists>res'. add_answer d a from res = Ok res' \<and> mset res' = add_mset (entry (a, from)) (mset res)"
begin

lemma servers_of_entries: "mset res = mset (map entry votes) \<Longrightarrow> server ` set res = snd ` set votes"
  by (drule arg_cong[of _ _ set_mset]) (simp add: image_image server_entry)

lemma loop_goes_on:
  assumes total and "distinct (map snd (messages events))"
    and "fold (absorb d n) events (Inl []) = Inl res"
  shows "\<exists>votes. messages events = map answered votes \<and> mset res = mset (map entry votes) \<and>
    (votes = [] \<or> length votes \<noteq> n)"
  using assms(2,3)
proof (induction events arbitrary: res rule: rev_induct)
  case (snoc ev events)
  then obtain res0 where r0: "fold (absorb d n) events (Inl []) = Inl res0"
    by (cases "fold (absorb d n) events (Inl [])") auto
  have "distinct (map snd (messages events))" using snoc.prems(1) by simp
  from snoc.IH[OF this r0] obtain votes where votes: "messages events = map answered votes"
    "mset res0 = mset (map entry votes)" "votes = [] \<or> length votes \<noteq> n" by blast
  show ?case
  proof (cases ev)
    case Silence
    with snoc.prems(2) r0 votes show ?thesis by auto
  next
    case (Message t m)
    obtain result "from" where m: "m = (result, from)" by (cases m)
    have "from \<notin> snd ` set votes"
      using snoc.prems(1) Message m votes(1) by (auto simp: image_image)
    then have "from \<notin> server ` set res0" by (simp add: servers_of_entries[OF votes(2)])
    moreover obtain a where a: "result = Inr a"
      using snoc.prems(2) Message m r0 by (cases result) auto
    ultimately obtain res' where res': "add_answer d a from res0 = Ok res'"
      "mset res' = add_mset (entry (a, from)) (mset res0)" using adds[OF assms(1)] by blast
    from snoc.prems(2) Message m r0 a res'(1) have "res = res'" "length res' \<noteq> n"
      by (auto split: if_splits)
    moreover have "length res' = length (votes @ [(a, from)])"
      using res'(2) votes(2) by (metis (no_types) length_append_singleton length_map mset_eq_length
          mset.simps(2) size_add_mset size_mset)
    ultimately show ?thesis
      using Message m a votes(1,2) res'(2)
      by (intro exI[of _ "votes @ [(a, from)]"]) auto
  qed
qed simp

lemma loop_ends:
  assumes total and "distinct (map snd (messages events))"
    and "fold (absorb d n) events (Inl []) = Inr r"
  shows "(\<exists>err from. (Inl err, from) \<in> set (messages events) \<and> r = Ok (on_error d err from)) \<or>
    (\<exists>votes rest res. messages events = map answered votes @ rest \<and> length votes = n \<and>
       mset res = mset (map entry votes) \<and> r = on_complete d res) \<or>
    (\<exists>t m res. Message t m \<in> set events \<and> 60 \<le> t \<and> r = Ok (on_timeout d res))"
  using assms(2,3)
proof (induction events rule: rev_induct)
  case (snoc ev events)
  have dist: "distinct (map snd (messages events))" using snoc.prems(1) by simp
  show ?case
  proof (cases "fold (absorb d n) events (Inl [])")
    case (Inr r')
    with snoc.prems(2) have "r' = r" by simp
    from snoc.IH[OF dist] Inr \<open>r' = r\<close>
    consider err "from" where "(Inl err, from) \<in> set (messages events)" "r = Ok (on_error d err from)"
      | votes rest res where "messages events = map answered votes @ rest" "length votes = n"
        "mset res = mset (map entry votes)" "r = on_complete d res"
      | t m res where "Message t m \<in> set events" "60 \<le> t" "r = Ok (on_timeout d res)" by blast
    then show ?thesis
    proof cases
      case (2 votes rest res)
      then show ?thesis
        by (intro disjI2 disjI1 exI[of _ votes] exI[of _ "rest @ messages [ev]"] exI[of _ res]) simp
    next
      case (3 t m res)
      then show ?thesis
        by (intro disjI2 exI[of _ t] exI[of _ m] exI[of _ res]) simp
    qed auto
  next
    case (Inl res0)
    from loop_goes_on[OF assms(1) dist Inl] obtain votes where votes:
      "messages events = map answered votes" "mset res0 = mset (map entry votes)" by blast
    from snoc.prems(2) Inl obtain t m where ev: "ev = Message t m" by (cases ev) auto
    obtain result "from" where m: "m = (result, from)" by (cases m)
    have step: "on_message d n t (result, from) res0 = Inr r"
      using snoc.prems(2) Inl ev m by (simp del: on_message.simps)
    show ?thesis
    proof (cases result)
      case (Inl err)
      with step ev m show ?thesis by auto
    next
      case (Inr a)
      have "from \<notin> snd ` set votes"
        using snoc.prems(1) ev m votes(1) by (auto simp: image_image)
      then have "from \<notin> server ` set res0" by (simp add: servers_of_entries[OF votes(2)])
      then obtain res' where res': "add_answer d a from res0 = Ok res'"
        "mset res' = add_mset (entry (a, from)) (mset res0)" using adds[OF assms(1)] by blast
      have len: "length res' = length (votes @ [(a, from)])"
        using res'(2) votes(2) by (metis (no_types) length_append_singleton length_map mset_eq_length
            mset.simps(2) size_add_mset size_mset)
      show ?thesis
      proof (cases "length res' = n")
        case True
        with step Inr res' have "r = on_complete d res'" by simp
        with True len votes res'(2) ev m Inr show ?thesis
          by (intro disjI2 disjI1 exI[of _ "votes @ [(a, from)]"] exI[of _ "[]"] exI[of _ res']) auto
      next
        case False
        with step Inr res' have "60 \<le> t \<and> r = Ok (on_timeout d res')" by (auto split: if_splits)
        with ev show ?thesis
          by (intro disjI2 exI[of _ t] exI[of _ m] exI[of _ res']) simp
      qed
    qed
  qed
qed simp

subsubsection \<open>Rounds\<close>

text \<open>Where a response comes from.\<close>

lemma round_response:
  assumes total and "distinct (map snd ms)" and "length ms = n"
    and "reaches d n (start_round ms) s" and "answer s = Some r"
  shows "(\<exists>err from. (Inl err, from) \<in> set ms \<and> r = Ok (on_error d err from)) \<or>
    (\<exists>votes res. mset ms = mset (map answered votes) \<and> mset res = mset (map entry votes) \<and>
       r = on_complete d res) \<or>
    (\<exists>res. 60 \<le> clock s \<and> r = Ok (on_timeout d res))"
proof -
  from round_inv_reaches[OF assms(4)] obtain events where
    run: "fold (absorb d n) events (Inl []) = outcome_so_far s"
    and all: "mset ms = mset (waiting s) + mset (channel s) + mset (messages events)"
    and times: "\<forall>t m. Message t m \<in> set events \<longrightarrow> t \<le> clock s" unfolding round_inv_def by blast
  have sub: "mset (messages events) \<subseteq># mset ms" by (simp add: all)
  have "mset (map snd (messages events)) \<subseteq># mset (map snd ms)"
    using image_mset_subseteq_mono[OF sub, of snd] by simp
  then have dist: "distinct (map snd (messages events))"
    using assms(2) by (rule distinct_sub_mset)
  have in_ms: "set (messages events) \<subseteq> set ms" using sub by (metis set_mset_mono set_mset_mset)
  have ended: "fold (absorb d n) events (Inl []) = Inr r"
    using run assms(5) by (simp add: outcome_so_far_def)
  from loop_ends[OF assms(1) dist ended]
  consider err "from" where "(Inl err, from) \<in> set (messages events)" "r = Ok (on_error d err from)"
    | votes rest res where "messages events = map answered votes @ rest" "length votes = n"
      "mset res = mset (map entry votes)" "r = on_complete d res"
    | t m res where "Message t m \<in> set events" "60 \<le> t" "r = Ok (on_timeout d res)" by blast
  then show ?thesis
  proof cases
    case 1
    with in_ms show ?thesis by blast
  next
    case (2 votes rest res)
    have "mset (map answered votes) \<subseteq># mset ms" using sub 2(1)
      by (metis mset_append mset_subset_eq_add_left subset_mset.order_trans)
    moreover have "size (mset (map answered votes)) = size (mset ms)" using 2(2) assms(3) by simp
    ultimately have "mset ms = mset (map answered votes)" by (metis less_irrefl mset_subset_size subset_mset.le_imp_less_or_eq)
    with 2 show ?thesis by blast
  next
    case (3 t m res)
    with times have "60 \<le> clock s" by (meson order_trans)
    with 3 show ?thesis by blast
  qed
qed

text \<open>
  Once all messages have been received within the minute and none is an error, the response is
  the one for the answers of all servers.
\<close>

lemma round_answers:
  assumes total and "distinct (map snd votes)" and "length votes = n" and "n > 0"
    and "reaches d n (start_round (map answered votes)) s"
    and "waiting s = []" and "channel s = []" and "clock s < 60"
  shows "\<exists>res. mset res = mset (map entry votes) \<and> answer s = Some (on_complete d res)"
proof -
  have dist: "distinct (map snd (map answered votes))" using assms(2) by (simp add: comp_def)
  from round_inv_reaches[OF assms(5)] obtain events where
    run: "fold (absorb d n) events (Inl []) = outcome_so_far s"
    and all: "mset (map answered votes) = mset (messages events)"
    and times: "\<forall>t m. Message t m \<in> set events \<longrightarrow> t \<le> clock s"
    unfolding round_inv_def using assms(6,7) by auto
  have dist': "distinct (map snd (messages events))"
    using dist all by (metis mset_eq_imp_distinct_iff mset_map)
  obtain r where r: "answer s = Some r"
  proof (cases "answer s")
    case None
    then have "fold (absorb d n) events (Inl []) = Inl (collected s)"
      using run by (simp add: outcome_so_far_def)
    from loop_goes_on[OF assms(1) dist' this] obtain votes' where
      "messages events = map answered votes'" "votes' = [] \<or> length votes' \<noteq> n" by blast
    moreover have "length (messages events) = n" using all assms(3) by (metis length_map size_mset)
    ultimately show thesis using assms(4) by auto
  qed
  have "length (map answered votes) = n" using assms(3) by simp
  from round_response[OF assms(1) dist this assms(5) r] show ?thesis
  proof (elim disjE exE conjE)
    fix votes' res
    assume v: "mset (map answered votes) = mset (map answered votes')"
      and res: "mset res = mset (map entry votes')" "r = on_complete d res"
    have "inj answered" by (auto simp: inj_def answered_def)
    with v have "mset votes = mset votes'" by (metis injD multiset.inj_map mset_map)
    with res r show ?thesis by (metis mset_map)
  qed (use assms(8) in auto)
qed

text \<open>When a server stays silent and the others have answered in time, the round is idle.\<close>

lemma silent_idle:
  assumes total and "silent_server d n votes s"
  shows "idle s"
proof -
  note silent = assms(2)[unfolded silent_server_def]
  have dist: "distinct (map snd (map answered votes))" using silent by (simp add: comp_def)
  from silent round_inv_reaches[of d n "map answered votes" s] obtain events where
    run: "fold (absorb d n) events (Inl []) = outcome_so_far s"
    and all: "mset (map answered votes) = mset (messages events)"
    and times: "\<forall>t m. Message t m \<in> set events \<longrightarrow> t \<le> clock s"
    unfolding round_inv_def by auto
  have dist': "distinct (map snd (messages events))"
    using dist all by (metis mset_eq_imp_distinct_iff mset_map)
  have "length votes < n" using silent by blast
  then have len: "length (messages events) < n" using all by (metis length_map size_mset)
  have "answer s = None"
  proof (rule ccontr)
    assume "answer s \<noteq> None"
    then obtain r where "fold (absorb d n) events (Inl []) = Inr r"
      using run by (auto simp: outcome_so_far_def)
    from loop_ends[OF assms(1) dist' this] show False
    proof (elim disjE exE conjE)
      fix err "from" assume "(Inl err, from) \<in> set (messages events)"
      then have "(Inl err, from) \<in> set (map answered votes)" using all by (metis set_mset_mset)
      then show False by auto
    next
      fix t m res assume "Message t m \<in> set events" "(60 :: nat) \<le> t"
      with times silent show False by fastforce
    qed (use len in auto)
  qed
  with silent show ?thesis by (simp add: idle_def)
qed

end

lemma add_pair_new:
  assumes "to_vec a = Some v" and "from \<notin> snd ` set res"
  shows "\<exists>res'. add_pair to_vec a from res = Ok res' \<and> mset res' = add_mset (v, from) (mset res)"
proof -
  have "(v, from) \<notin> set res" using assms(2) by force
  with assms(1) show ?thesis by (simp add: add_pair_def)
qed

interpretation slot_recording: recording "slot_dealing E" "\<lambda>v. v" snd True
  for E
  by unfold_locales (simp_all add: slot_dealing_def add_pair_new)

interpretation account_recording:
  recording "account_dealing E" "\<lambda>(a, from). (the (account_to_vec E a), from)" snd
    "\<forall>a. account_to_vec E a \<noteq> None"
  for E
  by unfold_locales (simp_all add: account_dealing_def add_pair_new split: prod.split)

interpretation transaction_recording:
  recording "transaction_dealing E" "\<lambda>(a, from). (the (tx_to_vec E a), from)" snd
    "\<forall>a. tx_to_vec E a \<noteq> None"
  for E
  by unfold_locales (simp_all add: transaction_dealing_def add_pair_new split: prod.split)

lemma update_new: "from \<notin> fst ` set res \<Longrightarrow> AList.update from a res = res @ [(from, a)]"
  by (induction res) auto

interpretation program_accounts_recording:
  recording "program_accounts_dealing E" "\<lambda>(a, from). (from, a)" fst True
  for E
  by unfold_locales (auto simp: program_accounts_dealing_def add_by_server_def update_new)

interpretation signatures_recording: recording "signatures_dealing E" "\<lambda>(a, from). (from, a)" fst True
  for E
  by unfold_locales (auto simp: signatures_dealing_def add_by_server_def update_new)

lemmas completions = slot_dealing_def account_dealing_def transaction_dealing_def
  program_accounts_dealing_def signatures_dealing_def

lemma respond_case:
  "respond mk m = (case m of Ok a \<Rightarrow> Ok (mk (Inr a)) | Err e \<Rightarrow> Ok (mk (Inl e)) | Panic p \<Rightarrow> Panic p)"
  by (cases m) auto

lemma respond_Ok_iff [simp]:
  "respond RGetSlot m1 = Ok (RGetSlot (Inr slot)) \<longleftrightarrow> m1 = Ok slot"
  "respond RGetAccountInfo m2 = Ok (RGetAccountInfo (Inr account)) \<longleftrightarrow> m2 = Ok account"
  "respond RGetTransaction m3 = Ok (RGetTransaction (Inr tx)) \<longleftrightarrow> m3 = Ok tx"
  "respond RGetProgramAccounts m4 = Ok (RGetProgramAccounts (Inr accounts)) \<longleftrightarrow> m4 = Ok accounts"
  "respond RGetSignaturesForAddress m5 = Ok (RGetSignaturesForAddress (Inr sigs)) \<longleftrightarrow> m5 = Ok sigs"
  by (simp_all add: respond_case split: outcome.splits)

lemma Ok_eq_respond_iff [simp]:
  "Ok (RGetSlot (Inr slot)) = respond RGetSlot m1 \<longleftrightarrow> m1 = Ok slot"
  "Ok (RGetAccountInfo (Inr account)) = respond RGetAccountInfo m2 \<longleftrightarrow> m2 = Ok account"
  "Ok (RGetTransaction (Inr tx)) = respond RGetTransaction m3 \<longleftrightarrow> m3 = Ok tx"
  "Ok (RGetProgramAccounts (Inr accounts)) = respond RGetProgramAccounts m4 \<longleftrightarrow> m4 = Ok accounts"
  "Ok (RGetSignaturesForAddress (Inr sigs)) = respond RGetSignaturesForAddress m5 \<longleftrightarrow> m5 = Ok sigs"
  by (metis respond_Ok_iff)+

text \<open>Which response is which; \<open>on_error\<close> of an account task is not an account response.\<close>

lemma dealing_sel [simp]:
  "add_answer (slot_dealing E) = add_pair Some"
  "on_complete (slot_dealing E) slots = respond RGetSlot (deal_get_slot_res (order_u64 E) (show_nat E) slots)"
  "on_complete (account_dealing E) accts = respond RGetAccountInfo
     (deal_get_account_res (order_bytes E) (show_nat E) (account_from_slice E) accts)"
  "on_complete (transaction_dealing E) txs = respond RGetTransaction
     (deal_get_transaction_res (order_bytes E) (show_nat E) (tx_from_slice E) txs)"
  "on_complete (program_accounts_dealing E) paccs = respond RGetProgramAccounts
     (deal_get_program_accounts_res (order_string E) (pacc_ser E) (pacc_de E) paccs)"
  by (simp_all add: completions)

lemma dealing_other [simp]:
  "RGetSlot (Inr slot) \<noteq> on_error (slot_dealing E) err addr"
  "RGetSlot (Inr slot) \<noteq> on_timeout (slot_dealing E) slots"
  "RGetAccountInfo (Inr acct) \<noteq> on_error (account_dealing E) err addr"
  "RGetAccountInfo (Inr acct) \<noteq> on_timeout (account_dealing E) accts"
  "RGetTransaction (Inr tx) \<noteq> on_error (transaction_dealing E) err addr"
  "RGetTransaction (Inr tx) \<noteq> on_timeout (transaction_dealing E) txs"
  "RGetProgramAccounts (Inr pa) \<noteq> on_error (program_accounts_dealing E) err addr"
  "RGetProgramAccounts (Inr pa) \<noteq> on_timeout (program_accounts_dealing E) paccs"
  by (simp_all add: completions)

subsection \<open>Concrete runs\<close>

definition received ::
    "'a message list \<Rightarrow> 'x list \<Rightarrow> 'r panicky option \<Rightarrow> ('a, 'x, 'r) round_state" where
  "received rest res ans =
     \<lparr>waiting = [], channel = rest, clock = 0, collected = res, answer = ans\<rparr>"

lemma received_simps [simp]:
  "waiting (received rest res ans) = []" "channel (received rest res ans) = rest"
  "clock (received rest res ans) = 0" "collected (received rest res ans) = res"
  "answer (received rest res ans) = ans"
  by (simp_all add: received_def)

lemma run_sends:
  fixes d :: "('a, 'x, 'r) dealing"
  shows "reaches d n \<lparr>waiting = ms, channel = ch, clock = 0, collected = [], answer = None\<rparr>
     (received (ch @ ms) [] None)"
proof (induction ms arbitrary: ch)
  case Nil
  then show ?case by (simp add: received_def)
next
  case (Cons m ms)
  let ?s = "\<lparr>waiting = m # ms, channel = ch, clock = 0, collected = [], answer = None\<rparr> :: ('a, 'x, 'r) round_state"
  have "round_step d n ?s (?s\<lparr>waiting := remove1 m (waiting ?s), channel := channel ?s @ [m]\<rparr>)"
    by (rule round_step.send[of m ?s d n]) simp
  with Cons.IH[of "ch @ [m]"] show ?case by (simp add: converse_rtranclp_into_rtranclp)
qed

lemma run_start: "reaches d n (start_round ms) (received ms [] None)"
  using run_sends[of d n ms "[]"] by (simp add: start_round_def)

lemma run_receive:
  assumes "reaches d n s (received (m # ms) res None)" and "on_message d n 0 m res = Inl res'"
  shows "reaches d n s (received ms res' None)"
  using assms(1)
  by (rule rtranclp.rtrancl_into_rtrancl)
    (use assms(2) round_step.receive[of "received (m # ms) res None" m ms d n res'] in
      \<open>simp add: received_def del: on_message.simps\<close>)

lemma run_respond:
  assumes "reaches d n s (received (m # ms) res None)" and "on_message d n 0 m res = Inr r"
  shows "reaches d n s (received ms res (Some r))"
  using assms(1)
  by (rule rtranclp.rtrancl_into_rtrancl)
    (use assms(2) round_step.respond_once[of "received (m # ms) res None" m ms d n r] in
      \<open>simp add: received_def del: on_message.simps\<close>)

lemma sample_slot_round:
  "reaches (slot_dealing sample_env) 3 (start_round (map answered [(7, ''a''), (8, ''b''), (7, ''c'')]))
     (received [] [(8, ''b''), (7, ''a'')] (Some (Ok (RGetSlot (Inr 7)))))"
proof -
  let ?d = "slot_dealing sample_env"
  have "reaches ?d 3 (start_round (map answered [(7, ''a''), (8, ''b''), (7, ''c'')]))
     (received (map answered [(7, ''a''), (8, ''b''), (7, ''c'')]) [] None)" by (rule run_start)
  then have "reaches ?d 3 (start_round (map answered [(7, ''a''), (8, ''b''), (7, ''c'')]))
     (received [answered (8, ''b''), answered (7, ''c'')] [(7, ''a'')] None)"
    unfolding list.map by (rule run_receive) (simp add: add_pair_def)
  then have "reaches ?d 3 (start_round (map answered [(7, ''a''), (8, ''b''), (7, ''c'')]))
     (received [answered (7, ''c'')] [(8, ''b''), (7, ''a'')] None)"
    by (rule run_receive) (simp add: add_pair_def)
  then show ?thesis
    by (rule run_respond) (simp add: add_pair_def sample_env_def deal_get_slot_res_def
        most_frequent_def tally_def max_count_def)
qed

lemma sample_silent_round:
  "reaches (slot_dealing sample_env) 2 (start_round (map answered [(7, ''a'')]))
     (received [] [(7, ''a'')] None)"
  using run_start[of "slot_dealing sample_env" 2 "map answered [(7, ''a'')]"] unfolding list.map
  by (rule run_receive) (simp add: add_pair_def)

subsection \<open>Properties\<close>

text \<open>
  C18: a slot response is the plurality of all servers. In every reachable state of a slot round
  with one worker per server, if the dispatcher has answered with a slot, then every server
  answered and more servers reported this slot than any other.
\<close>

theorem slot_round_sound:
  assumes "iteration (order_u64 E)" and "distinct (map snd ms)" and "length ms = n"
    and "reaches (slot_dealing E) n (start_round ms) s" and "answer s = Some (Ok (RGetSlot (Inr slot)))"
  shows "\<exists>votes. mset ms = mset (map answered votes) \<and> strictly_most_frequent (map fst votes) slot"
proof -
  from slot_recording.round_response[OF TrueI assms(2-5)] obtain votes res where
    "mset ms = mset (map answered votes)" and res: "mset res = mset votes"
    "on_complete (slot_dealing E) res = Ok (RGetSlot (Inr slot))"
    by auto
  moreover from res(2) have "deal_get_slot_res (order_u64 E) (show_nat E) res = Ok slot" by simp
  then have "deal_get_slot_res (order_u64 E) (show_nat E) votes = Ok slot"
    using slot_rule.order_independent[OF assms(1) res(1)] by blast
  then have "strictly_most_frequent (map fst votes) slot"
    using slot_rule.decides[OF assms(1)] by auto
  ultimately show ?thesis by blast
qed

theorem slot_round_sound_witness:
  "\<exists>votes. mset (map answered [(7, ''a''), (8, ''b''), (7, ''c'')]) = mset (map answered votes) \<and>
    strictly_most_frequent (map fst votes) (7 :: u64)"
  by (rule slot_round_sound[where E = sample_env and n = 3, OF _ _ _ sample_slot_round])
    (simp_all add: sample_env_def iteration_def)

text \<open>
  C17: the answer comes. When no worker fails and all messages have been received within the first
  minute, the dispatcher has answered, and if some slot was reported more often than any other,
  the answer is that slot - in whatever order the messages arrived.
\<close>

theorem slot_round_live:
  assumes "iteration (order_u64 E)" and "distinct (map snd votes)" and "length votes = n"
    and "reaches (slot_dealing E) n (start_round (map answered votes)) s"
    and "waiting s = []" and "channel s = []" and "clock s < 60"
    and "strictly_most_frequent (map fst votes) slot"
  shows "answer s = Some (Ok (RGetSlot (Inr slot)))"
proof -
  have "n > 0" using assms(3,8) by (cases votes) (auto simp: strictly_most_frequent_def)
  from slot_recording.round_answers[OF TrueI assms(2,3) this assms(4-7)] obtain res where
    res: "mset res = mset votes" "answer s = Some (on_complete (slot_dealing E) res)" by auto
  have "deal_get_slot_res (order_u64 E) (show_nat E) votes = Ok slot"
    using slot_rule.decides[OF assms(1)] assms(8) by blast
  then have "deal_get_slot_res (order_u64 E) (show_nat E) res = Ok slot"
    using slot_rule.order_independent[OF assms(1) res(1)] by blast
  with res(2) show ?thesis by simp
qed

theorem slot_round_live_witness:
  "answer (received [] [(8, ''b''), (7, ''a'')] (Some (Ok (RGetSlot (Inr 7)))) ::
      (u64, u64 \<times> url, (bytes, u8, string, string \<times> u8) response_event) round_state) =
    Some (Ok (RGetSlot (Inr 7)))"
  by (rule slot_round_live[where E = sample_env and n = 3, OF _ _ _ sample_slot_round])
    (simp_all add: sample_env_def iteration_def strictly_most_frequent_def)

text \<open>
  C31: the sixty seconds are no bound. Let some server never send its message (its worker missed
  the broadcast, or its request hangs), and let the messages of the others all be answers, received
  within the first minute. Then no response comes, in whatever state one looks later: the age of a
  task is only checked after a message. This holds for the rounds of all five tasks; transactions
  and accounts have to be encodable, as a failing encoding is a panic. An error of a server, or a
  message from the sixtieth second on, would end the round.
\<close>

theorem silent_server_blocks:
  assumes "\<forall>tx. tx_to_vec E tx \<noteq> None" and "\<forall>acct. account_to_vec E acct \<noteq> None"
  shows "(silent_server (slot_dealing E) n slots s1 \<and> reaches (slot_dealing E) n s1 s1' \<longrightarrow> answer s1' = None) \<and>
    (silent_server (account_dealing E) n accts s2 \<and> reaches (account_dealing E) n s2 s2' \<longrightarrow> answer s2' = None) \<and>
    (silent_server (transaction_dealing E) n txs s3 \<and> reaches (transaction_dealing E) n s3 s3' \<longrightarrow> answer s3' = None) \<and>
    (silent_server (program_accounts_dealing E) n paccs s4 \<and> reaches (program_accounts_dealing E) n s4 s4' \<longrightarrow>
       answer s4' = None) \<and>
    (silent_server (signatures_dealing E) n sigs s5 \<and> reaches (signatures_dealing E) n s5 s5' \<longrightarrow> answer s5' = None)"
proof (intro conjI impI; elim conjE)
  show "answer s1' = None" if "silent_server (slot_dealing E) n slots s1" "reaches (slot_dealing E) n s1 s1'"
    using slot_recording.silent_idle[OF TrueI that(1)] that(2) by (rule idle_unanswered)
  show "answer s2' = None" if "silent_server (account_dealing E) n accts s2" "reaches (account_dealing E) n s2 s2'"
    using account_recording.silent_idle[OF assms(2) that(1)] that(2) by (rule idle_unanswered)
  show "answer s3' = None" if "silent_server (transaction_dealing E) n txs s3" "reaches (transaction_dealing E) n s3 s3'"
    using transaction_recording.silent_idle[OF assms(1) that(1)] that(2) by (rule idle_unanswered)
  show "answer s4' = None"
    if "silent_server (program_accounts_dealing E) n paccs s4" "reaches (program_accounts_dealing E) n s4 s4'"
    using program_accounts_recording.silent_idle[OF TrueI that(1)] that(2) by (rule idle_unanswered)
  show "answer s5' = None" if "silent_server (signatures_dealing E) n sigs s5" "reaches (signatures_dealing E) n s5 s5'"
    using signatures_recording.silent_idle[OF TrueI that(1)] that(2) by (rule idle_unanswered)
qed

lemma sample_silent_server:
  "silent_server (slot_dealing sample_env) 2 [(7, ''a'')] (received [] [(7, ''a'')] None)"
  using sample_silent_round by (simp add: silent_server_def)

lemma later_tick: "reaches d n s (s\<lparr>clock := clock s + k\<rparr>)"
proof (induction k)
  case (Suc k)
  from round_step.tick[of d n "s\<lparr>clock := clock s + k\<rparr>"] have
    "round_step d n (s\<lparr>clock := clock s + k\<rparr>) (s\<lparr>clock := clock s + Suc k\<rparr>)" by simp
  with Suc show ?case by (rule rtranclp.rtrancl_into_rtrancl)
qed simp

theorem silent_server_blocks_witness:
  "answer ((received [] [(7, ''a'')] None ::
      (u64, u64 \<times> url, (bytes, u8, string, string \<times> u8) response_event) round_state)\<lparr>clock := 3600\<rparr>) = None"
proof -
  let ?s = "received [] [(7, ''a'')] None ::
      (u64, u64 \<times> url, (bytes, u8, string, string \<times> u8) response_event) round_state"
  have "reaches (slot_dealing sample_env) 2 ?s (?s\<lparr>clock := 3600\<rparr>)"
    using later_tick[of "slot_dealing sample_env" 2 ?s 3600] by simp
  moreover have "\<forall>tx. tx_to_vec sample_env tx \<noteq> None" "\<forall>acct. account_to_vec sample_env acct \<noteq> None"
    by (simp_all add: sample_env_def)
  note silent_server_blocks[OF this, THEN conjunct1, of 2 "[(7, ''a'')]" ?s "?s\<lparr>clock := 3600\<rparr>"]
  ultimately show ?thesis using sample_silent_server by blast
qed

end
