(* ===== verification/Sol_Calls.thy ===== *)
theory Sol_Calls
  imports Sol_Round
begin

text \<open>
  The five calls of the Solana client (\<open>src/src/chains/sol.rs\<close>): each asks the judge server once,
  has the dispatcher ask the other servers, and compares. The lemmas connect
  the calls with the rounds of \<open>Sol_Round\<close>: what a caller may conclude from an answer about the
  servers' own messages, and where the comparison can be evaded.
\<close>

subsection \<open>Waiting for the dispatcher\<close>

text \<open>
  What a caller sees of its task: sending it failed, no answer ever comes, the response channel
  is closed, or an event. Which of them it is, is derived from the steps of the dispatcher in
  \<open>Sol_Dispatcher\<close>; here it is an argument of the calls.
\<close>

datatype 'r reply = SendFailed string | NoAnswer | Closed | Answered 'r

text \<open>The rest of a call once its task has been sent; \<open>None\<close> when it never returns.\<close>

fun await ::
    "'r reply \<Rightarrow> sol_client_error \<Rightarrow> ('r \<Rightarrow> (sol_client_error, 'a) outcome)
      \<Rightarrow> (sol_client_error, 'a) outcome option" where
  "await (SendFailed err) not_found k = Some (Err (Internal err))"
| "await NoAnswer not_found k = None"
| "await Closed not_found k = Some (Err not_found)"
| "await (Answered event) not_found k = Some (k event)"

subsection \<open>The five calls\<close>

text \<open>
  \<open>ask\<close> sends a task to the dispatcher. The judge is asked once, at attempt 0. Equality of
  accounts and transactions is that of their data.
\<close>

definition ask_judge ::
    "('q, 'c, 'a, string) rpc_method \<Rightarrow> 'q \<Rightarrow> 'c option \<Rightarrow> (sol_client_error, 'a) outcome" where
  "ask_judge m q config =
     map_err Custom (of_sum (case config of None \<Rightarrow> call m q 0 | Some config \<Rightarrow> call_with_config m q config 0))"

definition get_slot ::
    "(u64 \<Rightarrow> string) \<Rightarrow> ('pk, 'sg, 'tx, 'acct, 'si, 'ctx, 'cc, 'cacct, 'cpa) rpc_client
      \<Rightarrow> (('pk, 'sg, 'ctx, 'cc, 'cacct, 'cpa) task_event \<Rightarrow> ('tx, 'acct, 'si, 'pacc) response_event reply)
      \<Rightarrow> 'cc option \<Rightarrow> (sol_client_error, u64) outcome option" where
  "get_slot show_slot judge ask commitment_config =
     (case ask_judge (rpc_slot judge) () commitment_config of
        Ok judge_slot \<Rightarrow>
          await (ask (GetSlot commitment_config)) (Custom ''slot not found'')
            (\<lambda>event. case event of
               RGetSlot (Inr slot) \<Rightarrow>
                 (if judge_slot \<le> slot then Ok judge_slot
                  else Err (Custom (''slot '' @ show_slot slot @ '' is not same with judge '' @
                         show_slot judge_slot)))
             | RGetSlot (Inl err) \<Rightarrow> Err err
             | _ \<Rightarrow> Panic Unreachable)
      | Err e \<Rightarrow> Some (Err e)
      | Panic p \<Rightarrow> Some (Panic p))"

definition judge_account ::
    "('pk, 'cacct, 'acct) account_method \<Rightarrow> 'pk \<Rightarrow> 'cacct option \<Rightarrow> (sol_client_error, 'acct option) outcome" where
  "judge_account judge pubkey config =
     (case config of
        None \<Rightarrow>
          (case get_account judge pubkey 0 of
             Inr account \<Rightarrow> Ok (Some account)
           | Inl err \<Rightarrow> Err (Custom (debug_text err)))
      | Some config \<Rightarrow>
          (case get_account_with_config judge pubkey config 0 of
             Inr value \<Rightarrow> Ok value
           | Inl err \<Rightarrow> Err (Custom (debug_text err))))"

definition get_account_info ::
    "('pk, 'sg, 'tx, 'acct, 'si, 'ctx, 'cc, 'cacct, 'cpa) rpc_client
      \<Rightarrow> (('pk, 'sg, 'ctx, 'cc, 'cacct, 'cpa) task_event \<Rightarrow> ('tx, 'acct, 'si, 'pacc) response_event reply)
      \<Rightarrow> 'pk \<Rightarrow> 'cacct option \<Rightarrow> (sol_client_error, 'acct option) outcome option" where
  "get_account_info judge ask pubkey config =
     (case judge_account (rpc_account judge) pubkey config of
        Ok expected \<Rightarrow>
          await (ask (GetAccountInfo pubkey config)) (Custom ''account not found'')
            (\<lambda>event. case event of
               RGetAccountInfo (Inr account) \<Rightarrow>
                 (if account = expected then Ok account
                  else Err (Custom ''account is not same with judge''))
             | RGetAccountInfo (Inl err) \<Rightarrow> Err err
             | _ \<Rightarrow> Panic Unreachable)
      | Err e \<Rightarrow> Some (Err e)
      | Panic p \<Rightarrow> Some (Panic p))"

definition get_transaction ::
    "('sg \<Rightarrow> string) \<Rightarrow> ('pk, 'sg, 'tx, 'acct, 'si, 'ctx, 'cc, 'cacct, 'cpa) rpc_client
      \<Rightarrow> (('pk, 'sg, 'ctx, 'cc, 'cacct, 'cpa) task_event \<Rightarrow> ('tx, 'acct, 'si, 'pacc) response_event reply)
      \<Rightarrow> 'sg \<Rightarrow> 'ctx option \<Rightarrow> (sol_client_error, 'tx) outcome option" where
  "get_transaction show_sg judge ask signature tx_config =
     (case ask_judge (rpc_transaction judge) signature tx_config of
        Ok judge_tx \<Rightarrow>
          await (ask (GetTransaction signature tx_config)) (Custom (''tx '' @ show_sg signature @ '' not found''))
            (\<lambda>event. case event of
               RGetTransaction (Inr tx) \<Rightarrow>
                 (if tx = judge_tx then Ok tx
                  else Err (Custom (''tx '' @ show_sg signature @
                         '' from extra rpcs is not same as which from judge rpc'')))
             | RGetTransaction (Inl err) \<Rightarrow> Err err
             | _ \<Rightarrow> Panic Unreachable)
      | Err e \<Rightarrow> Some (Err e)
      | Panic p \<Rightarrow> Some (Panic p))"

definition get_program_accounts ::
    "('tx, 'acct, 'si, 'pk \<times> 'acct) sol_env
      \<Rightarrow> ('pk, 'sg, 'tx, 'acct, 'si, 'ctx, 'cc, 'cacct, 'cpa) rpc_client
      \<Rightarrow> (('pk, 'sg, 'ctx, 'cc, 'cacct, 'cpa) task_event \<Rightarrow> ('tx, 'acct, 'si, 'pk \<times> 'acct) response_event reply)
      \<Rightarrow> 'pk \<Rightarrow> 'cpa option \<Rightarrow> (sol_client_error, ('pk \<times> 'acct) list) outcome option" where
  "get_program_accounts E judge ask pubkey config =
     (case ask_judge (rpc_program_accounts judge) pubkey config of
        Ok judge_program_accounts \<Rightarrow>
          await (ask (GetProgramAccounts pubkey config)) (Custom ''account not found'')
            (\<lambda>event. case event of
               RGetProgramAccounts (Inr accounts) \<Rightarrow>
                 counted_exactly (order_string E) (pacc_ser E) (pacc_de E) 2 (judge_program_accounts @ accounts)
             | RGetProgramAccounts (Inl err) \<Rightarrow> Err err
             | _ \<Rightarrow> Panic Unreachable)
      | Err e \<Rightarrow> Some (Err e)
      | Panic p \<Rightarrow> Some (Panic p))"

text \<open>
  The first signature of the judge becomes the \<open>before\<close> of the query to the other servers and is
  put back in front of the result. The counts keep the order of insertion.
\<close>

definition config_to_send ::
    "'sg \<Rightarrow> ('sg, 'cc) signatures_config option \<Rightarrow> ('sg, 'cc) signatures_config option" where
  "config_to_send before_signature config =
     (case config of
        None \<Rightarrow> Some \<lparr>before = Some before_signature, until = None, limit = None, commitment = None\<rparr>
      | Some c \<Rightarrow> Some (c\<lparr>before := Some before_signature\<rparr>))"

definition get_signatures_for_address ::
    "('tx, 'acct, 'si, 'pacc) sol_env \<Rightarrow> ('si \<Rightarrow> string) \<Rightarrow> (string \<Rightarrow> 'sg option)
      \<Rightarrow> ('pk, 'sg, 'tx, 'acct, 'si, 'ctx, 'cc, 'cacct, 'cpa) rpc_client
      \<Rightarrow> (('pk, 'sg, 'ctx, 'cc, 'cacct, 'cpa) task_event \<Rightarrow> ('tx, 'acct, 'si, 'pacc) response_event reply)
      \<Rightarrow> 'pk \<Rightarrow> ('sg, 'cc) signatures_config option \<Rightarrow> (sol_client_error, 'si list) outcome option" where
  "get_signatures_for_address E signature_of from_str judge ask pubkey config =
     (case ask_judge (rpc_signatures judge) pubkey config of
        Ok [] \<Rightarrow> Some (Ok [])
      | Ok (first_member # judge_signatures) \<Rightarrow>
          (case from_str (signature_of first_member) of
             None \<Rightarrow> Some (Panic UnwrapFailed)
           | Some before_signature \<Rightarrow>
               await (ask (GetSignaturesForAddress pubkey (config_to_send before_signature config)))
                 (Custom ''signatures not found'')
                 (\<lambda>event. case event of
                    RGetSignaturesForAddress (Inr sigs) \<Rightarrow>
                      and_then (counted_exactly (\<lambda>counts. counts) (sig_ser E) (sig_de E) 2 (judge_signatures @ sigs))
                        (\<lambda>res. Ok (first_member # res))
                  | RGetSignaturesForAddress (Inl err) \<Rightarrow> Err err
                  | _ \<Rightarrow> Panic Unreachable))
      | Err e \<Rightarrow> Some (Err e)
      | Panic p \<Rightarrow> Some (Panic p))"

subsection \<open>Lemmas on the calls\<close>

lemma await_Some_Ok:
  "await reply not_found k = Some (Ok a) \<longleftrightarrow> (\<exists>event. reply = Answered event \<and> k event = Ok a)"
  by (cases reply) auto

lemma event_Ok_iff:
  "(case event of RGetSlot (Inr v) \<Rightarrow> k_slot v | RGetSlot (Inl err) \<Rightarrow> Err err | _ \<Rightarrow> Panic Unreachable) = Ok a_slot \<longleftrightarrow>
     (\<exists>v. event = RGetSlot (Inr v) \<and> k_slot v = Ok a_slot)"
  "(case event of RGetAccountInfo (Inr v) \<Rightarrow> k_account v | RGetAccountInfo (Inl err) \<Rightarrow> Err err | _ \<Rightarrow> Panic Unreachable) = Ok a_account \<longleftrightarrow>
     (\<exists>v. event = RGetAccountInfo (Inr v) \<and> k_account v = Ok a_account)"
  "(case event of RGetTransaction (Inr v) \<Rightarrow> k_tx v | RGetTransaction (Inl err) \<Rightarrow> Err err | _ \<Rightarrow> Panic Unreachable) = Ok a_tx \<longleftrightarrow>
     (\<exists>v. event = RGetTransaction (Inr v) \<and> k_tx v = Ok a_tx)"
  "(case event of RGetProgramAccounts (Inr v) \<Rightarrow> k_accounts v | RGetProgramAccounts (Inl err) \<Rightarrow> Err err | _ \<Rightarrow> Panic Unreachable) = Ok a_accounts \<longleftrightarrow>
     (\<exists>v. event = RGetProgramAccounts (Inr v) \<and> k_accounts v = Ok a_accounts)"
  "(case event of RGetSignaturesForAddress (Inr v) \<Rightarrow> k_sigs v | RGetSignaturesForAddress (Inl err) \<Rightarrow> Err err | _ \<Rightarrow> Panic Unreachable) = Ok a_sigs \<longleftrightarrow>
     (\<exists>v. event = RGetSignaturesForAddress (Inr v) \<and> k_sigs v = Ok a_sigs)"
  by (auto split: response_event.split sum.split)

lemma judged_Ok_iff:
  "(case m of Ok a \<Rightarrow> k a | Err e \<Rightarrow> Some (Err e) | Panic p \<Rightarrow> Some (Panic p)) = Some (Ok b) \<longleftrightarrow>
     (\<exists>a. m = Ok a \<and> k a = Some (Ok b))"
  by (cases m) auto

lemmas call_Ok_iffs = judged_Ok_iff await_Some_Ok event_Ok_iff

lemma get_slot_Ok:
  "get_slot show_slot judge ask config = Some (Ok s) \<longleftrightarrow>
     ask_judge (rpc_slot judge) () config = Ok s \<and>
     (\<exists>slot. ask (GetSlot config) = Answered (RGetSlot (Inr slot)) \<and> s \<le> slot)"
  unfolding get_slot_def call_Ok_iffs by (auto split: if_splits)

lemma get_account_info_Ok:
  "get_account_info judge ask pk config = Some (Ok acct) \<longleftrightarrow>
     judge_account (rpc_account judge) pk config = Ok acct \<and>
     ask (GetAccountInfo pk config) = Answered (RGetAccountInfo (Inr acct))"
  unfolding get_account_info_def call_Ok_iffs by (auto split: if_splits)

lemma get_transaction_Ok:
  "get_transaction show_sg judge ask sig config = Some (Ok tx) \<longleftrightarrow>
     ask_judge (rpc_transaction judge) sig config = Ok tx \<and>
     ask (GetTransaction sig config) = Answered (RGetTransaction (Inr tx))"
  unfolding get_transaction_def call_Ok_iffs by (auto split: if_splits)

lemma get_program_accounts_Ok:
  "get_program_accounts E judge ask pk config = Some (Ok xs) \<longleftrightarrow>
     (\<exists>js accounts. ask_judge (rpc_program_accounts judge) pk config = Ok js \<and>
        ask (GetProgramAccounts pk config) = Answered (RGetProgramAccounts (Inr accounts)) \<and>
        counted_exactly (order_string E) (pacc_ser E) (pacc_de E) 2 (js @ accounts) = Ok xs)"
  unfolding get_program_accounts_def call_Ok_iffs by auto

subsection \<open>The workers' messages\<close>

text \<open>The messages the workers send on a task, one per extra server.\<close>

definition worker_messages ::
    "('pk \<Rightarrow> string) \<Rightarrow> ('pk, 'sg, 'tx, 'acct, 'si, 'ctx, 'cc, 'cacct, 'cpa) rpc_client list
      \<Rightarrow> ('pk, 'sg, 'ctx, 'cc, 'cacct, 'cpa) task_event
      \<Rightarrow> ('tx, 'acct, 'si, 'pk \<times> 'acct) worker_message list" where
  "worker_messages show_pk clients task = map (\<lambda>client. client_worker show_pk client (inner_task task)) clients"

lemma worker_url [simp]:
  "snd (client_worker_do_get_slot m sc url) = url"
  "snd (client_worker_do_get_account am acc url pk) = url"
  "snd (client_worker_do_get_transaction tm tc sg url) = url"
  "snd (client_worker_do_get_program_accounts pm show_pk pc url pk) = url"
  "snd (client_worker_do_get_signatures_for_address sm sgc url pk) = url"
  by (simp_all add: client_worker_do_get_slot_def client_worker_do_get_account_def
      client_worker_do_get_transaction_def client_worker_do_get_program_accounts_def
      client_worker_do_get_signatures_for_address_def Let_def split: option.split)

lemma map_constructor_eq:
  assumes "inj K"
  shows "map K ms = map (\<lambda>c. K (w c)) cs \<longleftrightarrow> ms = map w cs"
proof -
  have "map (\<lambda>c. K (w c)) cs = map K (map w cs)" by simp
  then show ?thesis using assms by (simp only: inj_map_eq_map)
qed

lemma slot_messages_eq:
  "map MSlot ms = worker_messages show_pk clients (GetSlot config) \<longleftrightarrow>
     ms = map (\<lambda>c. client_worker_do_get_slot (rpc_slot c) config (client_url c)) clients"
  by (simp add: worker_messages_def map_constructor_eq[of MSlot] inj_def)

lemma account_messages_eq:
  "map MAccountInfo ms = worker_messages show_pk clients (GetAccountInfo pk config) \<longleftrightarrow>
     ms = map (\<lambda>c. client_worker_do_get_account (rpc_account c) config (client_url c) pk) clients"
  by (simp add: worker_messages_def map_constructor_eq[of MAccountInfo] inj_def)

lemma program_accounts_messages_eq:
  "map MProgramAccounts ms = worker_messages show_pk clients (GetProgramAccounts pk config) \<longleftrightarrow>
     ms = map (\<lambda>c. client_worker_do_get_program_accounts (rpc_program_accounts c) show_pk config
       (client_url c) pk) clients"
  by (simp add: worker_messages_def map_constructor_eq[of MProgramAccounts] inj_def)

text \<open>When the messages are a permutation of answers, every server has answered.\<close>

lemma all_answered:
  assumes "mset (map w clients) = mset (map answered votes)"
    and "\<forall>c \<in> set clients. snd (w c) = client_url c"
  shows "\<exists>f. (\<forall>c \<in> set clients. w c = (Inr (f c), client_url c)) \<and>
    mset (map (\<lambda>c. (f c, client_url c)) clients) = mset votes"
proof -
  define f where "f c = projr (fst (w c))" for c
  have w: "w c = (Inr (f c), client_url c)" if "c \<in> set clients" for c
  proof -
    have "w c \<in> set (map answered votes)" using that assms(1) by (metis image_eqI list.set_map mset_eq_setD)
    then obtain a "from" where "w c = (Inr a, from)" by auto
    with assms(2) that show ?thesis by (auto simp: f_def)
  qed
  have "map (\<lambda>c. (f c, client_url c)) clients = map (\<lambda>m. (projr (fst m), snd m)) (map w clients)"
    using w by simp
  also have "mset \<dots> = mset (map (\<lambda>m. (projr (fst m), snd m)) (map answered votes))"
    using assms(1) by (simp only: mset_map)
  also have "map (\<lambda>m. (projr (fst m), snd m)) (map answered votes) = votes"
    by (simp add: answered_def comp_def case_prod_unfold)
  finally show ?thesis using w by blast
qed

subsection \<open>What an answered round says about the servers\<close>

text \<open>
  \<open>answers_from d n ms reply\<close>: an answer to the caller is the response of a round with the
  messages \<open>ms\<close>.
\<close>

definition answers_from ::
    "('a, 'x, 'r) dealing \<Rightarrow> 'a message list \<Rightarrow> 'r reply \<Rightarrow> bool" where
  "answers_from d ms reply \<longleftrightarrow>
     (\<forall>event. reply = Answered event \<longrightarrow>
        (\<exists>s. reaches d (length ms) (start_round ms) s \<and> answer s = Some (Ok event)))"

lemma answers_fromI:
  assumes "reaches d n (start_round ms) s" and "length ms = n" and "answer s = Some (Ok event)"
  shows "answers_from d ms (Answered event)"
  using assms by (auto simp: answers_from_def)

lemma slot_answer:
  assumes "iteration (order_u64 E)" and "distinct (map client_url clients)"
    and "ms = map (\<lambda>c. client_worker_do_get_slot (rpc_slot c) config (client_url c)) clients"
    and "answers_from (slot_dealing E) ms (Answered (RGetSlot (Inr slot)))"
  shows "\<exists>f. (\<forall>c \<in> set clients. client_worker_do_get_slot (rpc_slot c) config (client_url c) =
      (Inr (f c), client_url c)) \<and> strictly_most_frequent (map f clients) slot"
proof -
  obtain s where s: "reaches (slot_dealing E) (length ms) (start_round ms) s"
    "answer s = Some (Ok (RGetSlot (Inr slot)))" using assms(4) by (auto simp: answers_from_def)
  have "distinct (map snd ms)" using assms(2,3) by (simp add: comp_def)
  from slot_recording.round_response[OF TrueI this refl s] obtain votes res where
    votes: "mset ms = mset (map answered votes)" and res: "mset res = mset votes"
    "deal_get_slot_res (order_u64 E) (show_nat E) res = Ok slot" by auto
  from all_answered[OF votes[unfolded assms(3)]] obtain f where
    f: "\<forall>c \<in> set clients. client_worker_do_get_slot (rpc_slot c) config (client_url c) = (Inr (f c), client_url c)"
      "mset (map (\<lambda>c. (f c, client_url c)) clients) = mset votes" by auto
  have "strictly_most_frequent (map fst res) slot"
    using slot_rule.decides[OF assms(1)] res(2) by blast
  moreover have "mset (map f clients) = mset (map fst res)"
    using arg_cong[OF f(2), of "image_mset fst"] res(1) by (simp add: multiset.map_comp comp_def)
  ultimately have "strictly_most_frequent (map f clients) slot"
    using strictly_most_frequent_mset[of "map f clients" "map fst res" slot] by simp
  with f(1) show ?thesis by blast
qed

text \<open>Encoding an answer and decoding it again gives it back.\<close>

definition vec_exact :: "('a \<Rightarrow> bytes option) \<Rightarrow> (bytes \<Rightarrow> 'a option) \<Rightarrow> bool" where
  "vec_exact to_vec from_slice \<longleftrightarrow> (\<forall>a. \<exists>v. to_vec a = Some v \<and> from_slice v = Some a)"

lemma account_answer:
  assumes "iteration (order_bytes E)" and exact: "vec_exact (account_to_vec E) (account_from_slice E)"
    and "distinct (map client_url clients)"
    and "ms = map (\<lambda>c. client_worker_do_get_account (rpc_account c) config (client_url c) pk) clients"
    and "answers_from (account_dealing E) ms (Answered (RGetAccountInfo (Inr acct)))"
  shows "\<exists>f. (\<forall>c \<in> set clients. client_worker_do_get_account (rpc_account c) config (client_url c) pk =
      (Inr (f c), client_url c)) \<and> strictly_most_frequent (map f clients) acct"
proof -
  let ?enc = "\<lambda>a. the (account_to_vec E a)"
  have total: "\<forall>a. account_to_vec E a \<noteq> None" and dec: "account_from_slice E (?enc a) = Some a" for a
    using exact unfolding vec_exact_def by (metis option.discI, metis option.sel)
  have inj: "inj ?enc" by (rule injI) (metis dec option.inject)
  obtain s where s: "reaches (account_dealing E) (length ms) (start_round ms) s"
    "answer s = Some (Ok (RGetAccountInfo (Inr acct)))" using assms(5) by (auto simp: answers_from_def)
  have "distinct (map snd ms)" using assms(3,4) by (simp add: comp_def)
  from account_recording.round_response[OF total this refl s] obtain votes res where
    votes: "mset ms = mset (map answered votes)"
    and res: "mset res = mset (map (\<lambda>(a, from). (?enc a, from)) votes)"
    "deal_get_account_res (order_bytes E) (show_nat E) (account_from_slice E) res = Ok acct"
    by auto
  from all_answered[OF votes[unfolded assms(4)]] obtain f where
    f: "\<forall>c \<in> set clients. client_worker_do_get_account (rpc_account c) config (client_url c) pk = (Inr (f c), client_url c)"
      "mset (map (\<lambda>c. (f c, client_url c)) clients) = mset votes" by auto
  from account_rule.decides[OF assms(1)] res(2) obtain v where
    v: "strictly_most_frequent (map fst res) v" "account_from_slice E v = Some acct" by blast
  have m: "mset (map fst res) = mset (map ?enc (map fst votes))"
    using arg_cong[OF res(1), of "image_mset fst"] by (simp add: multiset.map_comp comp_def case_prod_unfold)
  with v(1) have enc: "strictly_most_frequent (map ?enc (map fst votes)) v"
    using strictly_most_frequent_mset[of "map fst res" "map ?enc (map fst votes)" v] by simp
  then obtain a where "v = ?enc a" by (auto simp: strictly_most_frequent_def)
  with v(2) dec have "v = ?enc acct" by simp
  with enc inj have "strictly_most_frequent (map fst votes) acct"
    using strictly_most_frequent_inj by metis
  moreover have "mset (map f clients) = mset (map fst votes)"
    using arg_cong[OF f(2), of "image_mset fst"] by (simp add: multiset.map_comp comp_def)
  ultimately have "strictly_most_frequent (map f clients) acct"
    using strictly_most_frequent_mset[of "map f clients" "map fst votes" acct] by simp
  with f(1) show ?thesis by blast
qed

lemma program_accounts_answer:
  assumes "iteration (order_string E)" and "json_exact (pacc_ser E) (pacc_de E)"
    and "distinct (map client_url clients)" and "clients \<noteq> []"
    and "ms = map (\<lambda>c. client_worker_do_get_program_accounts (rpc_program_accounts c) show_pk config
      (client_url c) pk) clients"
    and "answers_from (program_accounts_dealing E) ms (Answered (RGetProgramAccounts (Inr accounts)))"
  shows "\<exists>f. (\<forall>c \<in> set clients. client_worker_do_get_program_accounts (rpc_program_accounts c) show_pk config
      (client_url c) pk = (Inr (f c), client_url c)) \<and>
    ((\<forall>c \<in> set clients. distinct (f c)) \<longrightarrow>
       distinct accounts \<and> set accounts = {x. \<forall>c \<in> set clients. x \<in> set (f c)})"
proof -
  obtain s where s: "reaches (program_accounts_dealing E) (length ms) (start_round ms) s"
    "answer s = Some (Ok (RGetProgramAccounts (Inr accounts)))" using assms(6) by (auto simp: answers_from_def)
  have "distinct (map snd ms)" using assms(3,5) by (simp add: comp_def)
  from program_accounts_recording.round_response[OF TrueI this refl s] obtain votes res where
    votes: "mset ms = mset (map answered votes)"
    and res: "mset res = mset (map (\<lambda>(a, from). (from, a)) votes)"
    "deal_get_program_accounts_res (order_string E) (pacc_ser E) (pacc_de E) res = Ok accounts"
    by auto
  from all_answered[OF votes[unfolded assms(5)]] obtain f where
    f: "\<forall>c \<in> set clients. client_worker_do_get_program_accounts (rpc_program_accounts c) show_pk config
        (client_url c) pk = (Inr (f c), client_url c)"
      "mset (map (\<lambda>c. (f c, client_url c)) clients) = mset votes" by auto
  have "mset res = mset (map (\<lambda>c. (client_url c, f c)) clients)"
    using arg_cong[OF f(2), of "image_mset (\<lambda>(a, from). (from, a))"] res(1)
    by (simp add: multiset.map_comp comp_def)
  then have members: "set res = (\<lambda>c. (client_url c, f c)) ` set clients"
    by (metis list.set_map mset_eq_setD)
  have "distinct accounts \<and> set accounts = {x. \<forall>c \<in> set clients. x \<in> set (f c)}"
    if "\<forall>c \<in> set clients. distinct (f c)"
  proof -
    have "\<forall>(from, l) \<in> set res. distinct l" using that members by auto
    moreover have "res \<noteq> []" using members assms(4) by auto
    ultimately obtain xs where "deal_get_program_accounts_res (order_string E) (pacc_ser E) (pacc_de E) res = Ok xs"
      "distinct xs" "set xs = {x. \<forall>(from, l) \<in> set res. x \<in> set l}"
      using listed_by_all[OF assms(1,2)] by blast
    with res(2) members show ?thesis by auto
  qed
  with f(1) show ?thesis by blast
qed

subsection \<open>Concrete servers\<close>

definition constant_method :: "'a \<Rightarrow> ('q, 'c, 'a, 'e) rpc_method" where
  "constant_method a = \<lparr>call = (\<lambda>_ _. Inr a), call_with_config = (\<lambda>_ _ _. Inr a)\<rparr>"

text \<open>A server with the given slot, account (none: every query fails), signatures and program accounts.\<close>

definition sample_client ::
    "url \<Rightarrow> u64 \<Rightarrow> u8 option \<Rightarrow> string list \<Rightarrow> (string \<times> u8) list
      \<Rightarrow> (string, string, bytes, u8, string, unit, unit, unit, unit) rpc_client" where
  "sample_client url slot acct sigs paccs = \<lparr>
     client_url = url,
     rpc_transaction = constant_method [],
     rpc_slot = constant_method slot,
     rpc_account = \<lparr>
       get_account = (\<lambda>_ _. case acct of
          Some a \<Rightarrow> Inr a | None \<Rightarrow> Inl \<lparr>transaction_error = None, debug_text = ''down''\<rparr>),
       get_account_with_config = (\<lambda>_ _ _. Inr acct)\<rparr>,
     rpc_signatures = constant_method sigs,
     rpc_program_accounts = constant_method paccs\<rparr>"

lemma retry_constant [simp]:
  "retry 3 (\<lambda>k. Inr a) 0 = Some a" "retry 3 (\<lambda>k. Inl e) 0 = None"
  by (simp_all add: numeral_3_eq_3)

type_synonym sample_event = "(bytes, u8, string, string \<times> u8) response_event"

lemmas sample_client_simps = sample_client_def constant_method_def
  client_worker_do_get_slot_def client_worker_do_get_account_def
  client_worker_do_get_program_accounts_def

subsection \<open>Properties\<close>

text \<open>
  C14: the slot of a call is cross-checked. When \<open>get_slot\<close> returns a slot, it is the one the judge
  reported, every extra server answered, and the slot that more of them reported than any other is
  at least as high: the extra servers confirm that the slot has been reached.
\<close>

theorem get_slot_cross_checked:
  assumes "iteration (order_u64 E)" and "distinct (map client_url clients)"
    and "map MSlot ms = worker_messages show_pk clients (GetSlot config)"
    and "answers_from (slot_dealing E) ms (ask (GetSlot config))"
    and "get_slot show_slot judge ask config = Some (Ok s)"
  shows "ask_judge (rpc_slot judge) () config = Ok s \<and>
    (\<exists>f slot. (\<forall>c \<in> set clients.
        client_worker_do_get_slot (rpc_slot c) config (client_url c) = (Inr (f c), client_url c)) \<and>
      strictly_most_frequent (map f clients) slot \<and> s \<le> slot)"
proof -
  from assms(5) obtain slot where "ask (GetSlot config) = Answered (RGetSlot (Inr slot))" "s \<le> slot"
    and j: "ask_judge (rpc_slot judge) () config = Ok s" by (auto simp: get_slot_Ok)
  with slot_answer[OF assms(1,2) assms(3)[unfolded slot_messages_eq]] assms(4) show ?thesis by metis
qed

theorem get_slot_cross_checked_witness:
  "ask_judge (rpc_slot (sample_client ''j'' 6 None [] [])) () None = Ok 6 \<and>
    (\<exists>f slot. (\<forall>c \<in> set [sample_client ''a'' 7 None [] [], sample_client ''b'' 8 None [] [],
          sample_client ''c'' 7 None [] []].
        client_worker_do_get_slot (rpc_slot c) None (client_url c) = (Inr (f c), client_url c)) \<and>
      strictly_most_frequent (map f [sample_client ''a'' 7 None [] [], sample_client ''b'' 8 None [] [],
          sample_client ''c'' 7 None [] []]) slot \<and> 6 \<le> slot)"
proof (rule get_slot_cross_checked[where E = sample_env and show_pk = "\<lambda>s. s" and show_slot = "\<lambda>_. ''n''"
      and ms = "map answered [(7, ''a''), (8, ''b''), (7, ''c'')]"
      and ask = "\<lambda>_. Answered (RGetSlot (Inr 7))"])
  show "answers_from (slot_dealing sample_env) (map answered [(7, ''a''), (8, ''b''), (7, ''c'')])
      (Answered (RGetSlot (Inr 7)))"
    using sample_slot_round by (rule answers_fromI) simp_all
qed (simp_all add: sample_env_def iteration_def sample_client_simps worker_messages_def get_slot_def ask_judge_def)

text \<open>
  C15: the account of a call is cross-checked. When \<open>get_account_info\<close> returns an account, or its
  absence, the judge gave the same answer, every extra server answered, and more of them gave this
  answer than any other.
\<close>

theorem get_account_info_cross_checked:
  assumes "iteration (order_bytes E)" and "vec_exact (account_to_vec E) (account_from_slice E)"
    and "distinct (map client_url clients)"
    and "map MAccountInfo ms = worker_messages show_pk clients (GetAccountInfo pk config)"
    and "answers_from (account_dealing E) ms (ask (GetAccountInfo pk config))"
    and "get_account_info judge ask pk config = Some (Ok acct)"
  shows "judge_account (rpc_account judge) pk config = Ok acct \<and>
    (\<exists>f. (\<forall>c \<in> set clients.
        client_worker_do_get_account (rpc_account c) config (client_url c) pk = (Inr (f c), client_url c)) \<and>
      strictly_most_frequent (map f clients) acct)"
proof -
  from assms(6) have "ask (GetAccountInfo pk config) = Answered (RGetAccountInfo (Inr acct))"
    and j: "judge_account (rpc_account judge) pk config = Ok acct" by (auto simp: get_account_info_Ok)
  with account_answer[OF assms(1-3) assms(4)[unfolded account_messages_eq]] assms(5) show ?thesis by metis
qed

lemma sample_found_round:
  "reaches (account_dealing sample_env) 1 (start_round [(Inr (Some 1), ''a'')])
     (received [] [] (Some (Ok (RGetAccountInfo (Inr (Some 1))))))"
  using run_start
  by (rule run_respond) (simp add: account_dealing_def add_pair_def sample_env_def deal_get_account_res_def
      most_frequent_def tally_def max_count_def)

lemma sample_vec_exact: "vec_exact (account_to_vec sample_env) (account_from_slice sample_env)"
  by (simp add: vec_exact_def sample_env_def split: option.split)

theorem get_account_info_cross_checked_witness:
  "judge_account (rpc_account (sample_client ''j'' 0 (Some 1) [] [])) ''pk'' None = Ok (Some 1) \<and>
    (\<exists>f. (\<forall>c \<in> set [sample_client ''a'' 0 (Some 1) [] []].
        client_worker_do_get_account (rpc_account c) None (client_url c) ''pk'' = (Inr (f c), client_url c)) \<and>
      strictly_most_frequent (map f [sample_client ''a'' 0 (Some 1) [] []]) (Some 1))"
proof (rule get_account_info_cross_checked[where E = sample_env and show_pk = "\<lambda>s. s" and
      ms = "[(Inr (Some 1), ''a'')]" and ask = "\<lambda>_. Answered (RGetAccountInfo (Inr (Some 1)))"])
  show "answers_from (account_dealing sample_env) [(Inr (Some 1), ''a'')]
      (Answered (RGetAccountInfo (Inr (Some 1))))"
    using sample_found_round by (rule answers_fromI) simp_all
  show "iteration (order_bytes sample_env)" by (simp add: sample_env_def iteration_def)
qed (use sample_vec_exact in \<open>simp_all add: sample_client_simps worker_messages_def
    get_account_info_def judge_account_def\<close>)

text \<open>
  C30: a failing server makes the account call panic. The dispatcher answers an account task whose
  worker failed with a slot response; the caller takes that for unreachable. So whenever one extra
  server fails three times within the first minute, \<open>get_account_info\<close> cannot return an error: if
  the dispatcher answers, the call panics.
\<close>

theorem account_error_panics:
  assumes "vec_exact (account_to_vec E) (account_from_slice E)"
    and "distinct (map client_url clients)"
    and "map MAccountInfo ms = worker_messages show_pk clients (GetAccountInfo pk config)"
    and "c \<in> set clients" and "client_worker_do_get_account (rpc_account c) config (client_url c) pk = (Inl err, url)"
    and "reaches (account_dealing E) (length ms) (start_round ms) s" and "clock s < 60"
    and "answer s = Some (Ok event)" and "ask (GetAccountInfo pk config) = Answered event"
    and "judge_account (rpc_account judge) pk config = Ok acct"
  shows "get_account_info judge ask pk config = Some (Panic Unreachable)"
proof -
  have ms: "ms = map (\<lambda>c. client_worker_do_get_account (rpc_account c) config (client_url c) pk) clients"
    using assms(3) by (simp only: account_messages_eq)
  have failed: "(Inl err, url) \<in> set ms" using assms(4,5) ms by force
  have total: "\<forall>a. account_to_vec E a \<noteq> None"
    using assms(1) unfolding vec_exact_def by (metis option.discI)
  have "distinct (map snd ms)" using assms(2) ms by (simp add: comp_def)
  from account_recording.round_response[OF total this refl assms(6,8)]
  have "\<exists>r. event = RGetSlot r"
  proof (elim disjE exE conjE)
    fix votes assume "mset ms = mset (map answered votes)"
    then have "(Inl err, url) \<in> set (map answered votes)" using failed by (metis mset_eq_setD)
    then show ?thesis by auto
  qed (use assms(7) in \<open>auto simp: account_dealing_def\<close>)
  with assms(9,10) show ?thesis by (auto simp: get_account_info_def)
qed

lemma sample_account_round:
  "reaches (account_dealing sample_env) 1
     (start_round [(Inl (Internal (''failed to get account from '' @ ''a'' @ '', retry limited'')), ''a'')])
     (received [] [] (Some (Ok (RGetSlot (Inl (Internal
        ''GetAccountInfo received error from a: InternalError''))))))"
  using run_start by (rule run_respond) (simp add: account_dealing_def)

theorem account_error_panics_witness:
  "get_account_info (sample_client ''j'' 0 (Some 1) [] [])
     (\<lambda>_. Answered (RGetSlot (Inl (Internal ''GetAccountInfo received error from a: InternalError'')) :: sample_event))
     ''pk'' None = Some (Panic Unreachable)"
proof (rule account_error_panics[where E = sample_env and clients = "[sample_client ''a'' 0 None [] []]"
      and c = "sample_client ''a'' 0 None [] []" and url = "''a''" and show_pk = "\<lambda>s. s" and acct = "Some 1"
      and err = "Internal (''failed to get account from '' @ ''a'' @ '', retry limited'')"
      and ms = "[(Inl (Internal (''failed to get account from '' @ ''a'' @ '', retry limited'')), ''a'')]"
      and s = "received [] [] (Some (Ok (RGetSlot (Inl (Internal
        ''GetAccountInfo received error from a: InternalError'')))))"])
  show "vec_exact (account_to_vec sample_env) (account_from_slice sample_env)"
    by (rule sample_vec_exact)
qed (use sample_account_round in
  \<open>simp_all add: worker_messages_def sample_client_simps judge_account_def\<close>)

text \<open>
  C16: program accounts are those the judge and every server list. If no server repeats an entry,
  \<open>get_program_accounts\<close> returns exactly the accounts in the judge's list and in the list of every
  extra server, each once.
\<close>

theorem get_program_accounts_cross_checked:
  assumes "iteration (order_string E)" and "json_exact (pacc_ser E) (pacc_de E)"
    and "distinct (map client_url clients)" and "clients \<noteq> []"
    and "map MProgramAccounts ms = worker_messages show_pk clients (GetProgramAccounts pk config)"
    and "answers_from (program_accounts_dealing E) ms (ask (GetProgramAccounts pk config))"
    and "get_program_accounts E judge ask pk config = Some (Ok xs)"
  shows "\<exists>js f. ask_judge (rpc_program_accounts judge) pk config = Ok js \<and>
    (\<forall>c \<in> set clients. client_worker_do_get_program_accounts (rpc_program_accounts c) show_pk config
       (client_url c) pk = (Inr (f c), client_url c)) \<and>
    (distinct js \<and> (\<forall>c \<in> set clients. distinct (f c)) \<longrightarrow>
       distinct xs \<and> set xs = {x \<in> set js. \<forall>c \<in> set clients. x \<in> set (f c)})"
proof -
  from assms(7) obtain js accounts where js: "ask_judge (rpc_program_accounts judge) pk config = Ok js"
    and reply: "ask (GetProgramAccounts pk config) = Answered (RGetProgramAccounts (Inr accounts))"
    and xs: "counted_exactly (order_string E) (pacc_ser E) (pacc_de E) 2 (js @ accounts) = Ok xs"
    by (auto simp: get_program_accounts_Ok)
  from program_accounts_answer[OF assms(1-4) assms(5)[unfolded program_accounts_messages_eq]
      assms(6)[unfolded reply]] obtain f
    where f: "\<forall>c \<in> set clients. client_worker_do_get_program_accounts (rpc_program_accounts c) show_pk config
        (client_url c) pk = (Inr (f c), client_url c)"
      "(\<forall>c \<in> set clients. distinct (f c)) \<longrightarrow>
         distinct accounts \<and> set accounts = {x. \<forall>c \<in> set clients. x \<in> set (f c)}" by blast
  have "distinct xs \<and> set xs = {x \<in> set js. \<forall>c \<in> set clients. x \<in> set (f c)}"
    if "distinct js" "\<forall>c \<in> set clients. distinct (f c)"
  proof -
    from counted_exactly_Ok[OF assms(1,2), of 2 "js @ accounts"] xs
    have "distinct xs" "set xs = {x \<in> set (js @ accounts). count_list (js @ accounts) x = 2}" by auto
    moreover have "count_list (concat [js, accounts]) x = length (filter (\<lambda>l. x \<in> set l) [js, accounts])" for x
      by (rule count_concat_distinct) (use f(2) that in auto)
    ultimately show ?thesis using f(2) that(2) by (auto split: if_splits)
  qed
  with js f(1) show ?thesis by blast
qed

lemma sample_program_accounts_round:
  "reaches (program_accounts_dealing sample_env) 1 (start_round [(Inr [(''pk'', 1)], ''a'')])
     (received [] [] (Some (Ok (RGetProgramAccounts (Inr [(''pk'', 1)])))))"
  using run_start
  by (rule run_respond) (simp add: program_accounts_dealing_def add_by_server_def sample_env_def
      deal_get_program_accounts_res_def counted_exactly_def tally_def)

theorem get_program_accounts_cross_checked_witness:
  "\<exists>js f. ask_judge (rpc_program_accounts (sample_client ''j'' 0 None [] [(''pk'', 1), (''q'', 2)])) ''p'' None = Ok js \<and>
    (\<forall>c \<in> set [sample_client ''a'' 0 None [] [(''pk'', 1)]].
       client_worker_do_get_program_accounts (rpc_program_accounts c) (\<lambda>s. s) None (client_url c) ''p'' =
         (Inr (f c), client_url c)) \<and>
    (distinct js \<and> (\<forall>c \<in> set [sample_client ''a'' 0 None [] [(''pk'', 1)]]. distinct (f c)) \<longrightarrow>
       distinct [(''pk'', 1 :: u8)] \<and>
       set [(''pk'', 1)] = {x \<in> set js. \<forall>c \<in> set [sample_client ''a'' 0 None [] [(''pk'', 1)]]. x \<in> set (f c)})"
proof (rule get_program_accounts_cross_checked[where E = sample_env and
      ms = "[(Inr [(''pk'', 1)], ''a'')]" and ask = "\<lambda>_. Answered (RGetProgramAccounts (Inr [(''pk'', 1)]))"])
  show "answers_from (program_accounts_dealing sample_env) [(Inr [(''pk'', 1)], ''a'')]
      (Answered (RGetProgramAccounts (Inr [(''pk'', 1)])))"
    using sample_program_accounts_round by (rule answers_fromI) simp_all
  show "get_program_accounts sample_env (sample_client ''j'' 0 None [] [(''pk'', 1), (''q'', 2)])
      (\<lambda>_. Answered (RGetProgramAccounts (Inr [(''pk'', 1)]))) ''p'' None = Some (Ok [(''pk'', 1)])"
    by (simp add: get_program_accounts_def ask_judge_def sample_client_simps counted_exactly_def
        sample_env_def tally_def)
qed (simp_all only: sample_env_exact, simp_all add: sample_env_def iteration_def sample_client_simps
    worker_messages_def)

text \<open>
  the count to two does not tell who listed an entry. An account the judge lists twice is
  returned although no extra server lists it.
\<close>

theorem judge_repetition_evades_check:
  assumes "iteration (order_string E)" and "json_exact (pacc_ser E) (pacc_de E)"
    and "ask_judge (rpc_program_accounts judge) pk config = Ok [x, x]"
    and "ask (GetProgramAccounts pk config) = Answered (RGetProgramAccounts (Inr []))"
  shows "get_program_accounts E judge ask pk config = Some (Ok [x])"
proof -
  from counted_exactly_Ok[OF assms(1,2), of 2 "[x, x]"] obtain xs where
    xs: "counted_exactly (order_string E) (pacc_ser E) (pacc_de E) 2 [x, x] = Ok xs" "distinct xs" "set xs = {x}"
    by auto
  then have "length xs = 1" by (metis distinct_card card_1_singleton_iff One_nat_def)
  then obtain y where "xs = [y]" by (auto simp: length_Suc_conv)
  with xs(3) have "xs = [x]" by simp
  with xs(1) assms(3,4) show ?thesis by (simp add: get_program_accounts_Ok)
qed

theorem judge_repetition_evades_check_witness:
  "get_program_accounts sample_env (sample_client ''j'' 0 None [] [(''pk'', 1), (''pk'', 1)])
     (\<lambda>_. Answered (RGetProgramAccounts (Inr []))) ''p'' None = Some (Ok [(''pk'', 1)])"
  by (rule judge_repetition_evades_check)
    (simp_all only: sample_env_exact, simp_all add: sample_env_def iteration_def ask_judge_def sample_client_simps)

text \<open>
  the newest signature is not cross-checked. The judge's first signature is used as the upper
  end of the query to the other servers and returned in any case: it comes first in the result even
  when no extra server lists any signature.
\<close>

theorem first_signature_unchecked:
  assumes "ask_judge (rpc_signatures judge) pk config = Ok [first]"
    and "from_str (signature_of first) = Some b"
    and "ask (GetSignaturesForAddress pk (config_to_send b config)) =
      Answered (RGetSignaturesForAddress (Inr []))"
  shows "get_signatures_for_address E signature_of from_str judge ask pk config = Some (Ok [first])"
  using assms by (simp add: get_signatures_for_address_def counted_exactly_def)

theorem first_signature_unchecked_witness:
  "get_signatures_for_address sample_env (\<lambda>s. s) Some (sample_client ''j'' 0 None [''forged''] [])
     (\<lambda>_. Answered (RGetSignaturesForAddress (Inr []))) ''p'' None = Some (Ok [''forged''])"
  by (rule first_signature_unchecked[where b = "''forged''"]) (simp_all add: ask_judge_def sample_client_simps)

end
