(* ===== verification/Sol_Dispatcher.thy ===== *)
theory Sol_Dispatcher
  imports Sol_Calls
begin

text \<open>
  The dispatcher of the Solana client (\<open>start_dispatcher\<close> in \<open>src/src/chains/sol.rs\<close>) as a step
  relation: callers submit tasks to the queue, the dispatcher takes one, broadcasts it to the
  workers and runs its round of \<open>Sol_Round\<close> until it has ended, and only then takes the next one.
  The lemmas derive from the steps that every reply is the answer of a round with the workers'
  messages, and that a task whose round has become idle keeps all later tasks waiting.
\<close>

subsection \<open>The task in hand\<close>

text \<open>The round of a task, one constructor for each of the \<open>deal\<close> functions.\<close>

datatype ('tx, 'acct, 'si, 'pacc) task_round =
    TransactionRound "('tx, bytes \<times> url, ('tx, 'acct, 'si, 'pacc) response_event) round_state"
  | SlotRound "(u64, u64 \<times> url, ('tx, 'acct, 'si, 'pacc) response_event) round_state"
  | AccountRound "('acct option, bytes \<times> url, ('tx, 'acct, 'si, 'pacc) response_event) round_state"
  | SignaturesRound "('si list, url \<times> 'si list, ('tx, 'acct, 'si, 'pacc) response_event) round_state"
  | ProgramAccountsRound "('pacc list, url \<times> 'pacc list, ('tx, 'acct, 'si, 'pacc) response_event) round_state"

text \<open>The start of a round in which the workers send the messages \<open>ms\<close>.\<close>

fun start_task ::
    "('pk, 'sg, 'ctx, 'cc, 'cacct, 'cpa) task_event
      \<Rightarrow> ('tx, 'acct, 'si, 'pacc) worker_message list \<Rightarrow> ('tx, 'acct, 'si, 'pacc) task_round" where
  "start_task (GetTransaction signature rpc_tx_config) ms = TransactionRound (start_round [m. MTransaction m \<leftarrow> ms])"
| "start_task (GetSlot commitment_config) ms = SlotRound (start_round [m. MSlot m \<leftarrow> ms])"
| "start_task (GetAccountInfo pubkey config) ms = AccountRound (start_round [m. MAccountInfo m \<leftarrow> ms])"
| "start_task (GetSignaturesForAddress pubkey config) ms = SignaturesRound (start_round [m. MSignatures m \<leftarrow> ms])"
| "start_task (GetProgramAccounts pubkey config) ms = ProgramAccountsRound (start_round [m. MProgramAccounts m \<leftarrow> ms])"

inductive task_step ::
    "('tx, 'acct, 'si, 'pacc) sol_env \<Rightarrow> nat \<Rightarrow> ('tx, 'acct, 'si, 'pacc) task_round
      \<Rightarrow> ('tx, 'acct, 'si, 'pacc) task_round \<Rightarrow> bool"
  for E :: "('tx, 'acct, 'si, 'pacc) sol_env" and n :: nat where
  transaction_step: "round_step (transaction_dealing E) n s1 s1' \<Longrightarrow>
    task_step E n (TransactionRound s1) (TransactionRound s1')"
| slot_step: "round_step (slot_dealing E) n s2 s2' \<Longrightarrow> task_step E n (SlotRound s2) (SlotRound s2')"
| account_step: "round_step (account_dealing E) n s3 s3' \<Longrightarrow>
    task_step E n (AccountRound s3) (AccountRound s3')"
| signatures_step: "round_step (signatures_dealing E) n s4 s4' \<Longrightarrow>
    task_step E n (SignaturesRound s4) (SignaturesRound s4')"
| program_accounts_step: "round_step (program_accounts_dealing E) n s5 s5' \<Longrightarrow>
    task_step E n (ProgramAccountsRound s5) (ProgramAccountsRound s5')"

abbreviation task_reaches ::
    "('tx, 'acct, 'si, 'pacc) sol_env \<Rightarrow> nat \<Rightarrow> ('tx, 'acct, 'si, 'pacc) task_round
      \<Rightarrow> ('tx, 'acct, 'si, 'pacc) task_round \<Rightarrow> bool" where
  "task_reaches E n \<equiv> (task_step E n)\<^sup>*\<^sup>*"

fun task_answer ::
    "('tx, 'acct, 'si, 'pacc) task_round \<Rightarrow> ('tx, 'acct, 'si, 'pacc) response_event panicky option" where
  "task_answer (TransactionRound s) = answer s"
| "task_answer (SlotRound s) = answer s"
| "task_answer (AccountRound s) = answer s"
| "task_answer (SignaturesRound s) = answer s"
| "task_answer (ProgramAccountsRound s) = answer s"

text \<open>The answer when the broadcast failed.\<close>

fun refused :: "('pk, 'sg, 'ctx, 'cc, 'cacct, 'cpa) task_event \<Rightarrow> string \<Rightarrow> ('tx, 'acct, 'si, 'pacc) response_event" where
  "refused (GetTransaction signature rpc_tx_config) err = RGetTransaction (Inl (Internal err))"
| "refused (GetSlot commitment_config) err = RGetSlot (Inl (Internal err))"
| "refused (GetAccountInfo pubkey config) err = RGetAccountInfo (Inl (Internal err))"
| "refused (GetSignaturesForAddress pubkey config) err = RGetSignaturesForAddress (Inl (Internal err))"
| "refused (GetProgramAccounts pubkey config) err = RGetProgramAccounts (Inl (Internal err))"

subsection \<open>The steps of the dispatcher\<close>

text \<open>
  The queue of the task channel, the task in hand with its round, the replies that callers have
  received, in that order, and whether the dispatcher still runs (\<open>serving\<close>).
\<close>

record ('pk, 'sg, 'ctx, 'cc, 'cacct, 'cpa, 'tx, 'acct, 'si, 'pacc) dispatcher_state =
  queue :: "('pk, 'sg, 'ctx, 'cc, 'cacct, 'cpa) task_event list"
  handling :: "(('pk, 'sg, 'ctx, 'cc, 'cacct, 'cpa) task_event \<times> ('tx, 'acct, 'si, 'pacc) task_round) option"
  replies :: "(('pk, 'sg, 'ctx, 'cc, 'cacct, 'cpa) task_event \<times> ('tx, 'acct, 'si, 'pacc) response_event reply) list"
  serving :: bool

text \<open>
  \<open>take_task\<close>: the servers of \<open>answering\<close> will send their message; the worker of any other server
  lags behind the broadcast or hangs in its request. A panic ends the spawned loop. The client
  keeps the receiver of the channel, so the queue stays open, but nobody reads it any more.
\<close>

inductive dispatcher_step ::
    "('tx, 'acct, 'si, 'pk \<times> 'acct) sol_env \<Rightarrow> ('pk \<Rightarrow> string)
      \<Rightarrow> ('pk, 'sg, 'tx, 'acct, 'si, 'ctx, 'cc, 'cacct, 'cpa) rpc_client list
      \<Rightarrow> ('pk, 'sg, 'ctx, 'cc, 'cacct, 'cpa, 'tx, 'acct, 'si, 'pk \<times> 'acct) dispatcher_state
      \<Rightarrow> ('pk, 'sg, 'ctx, 'cc, 'cacct, 'cpa, 'tx, 'acct, 'si, 'pk \<times> 'acct) dispatcher_state \<Rightarrow> bool"
  for E :: "('tx, 'acct, 'si, 'pk \<times> 'acct) sol_env" and show_pk :: "'pk \<Rightarrow> string"
    and clients :: "('pk, 'sg, 'tx, 'acct, 'si, 'ctx, 'cc, 'cacct, 'cpa) rpc_client list" where
  submit: "length (queue s) < 1024 \<Longrightarrow> dispatcher_step E show_pk clients s (s\<lparr>queue := queue s @ [task]\<rparr>)"
| take_task: "serving s \<Longrightarrow> handling s = None \<Longrightarrow> queue s = task # tasks \<Longrightarrow> subseq answering clients \<Longrightarrow>
    dispatcher_step E show_pk clients s
      (s\<lparr>queue := tasks, handling := Some (task, start_task task (worker_messages show_pk answering task))\<rparr>)"
| refuse: "serving s \<Longrightarrow> handling s = None \<Longrightarrow> queue s = task # tasks \<Longrightarrow>
    dispatcher_step E show_pk clients s
      (s\<lparr>queue := tasks, replies := replies s @ [(task, Answered (refused task err))]\<rparr>)"
| work: "handling s = Some (task, r) \<Longrightarrow> task_step E (length clients) r r' \<Longrightarrow>
    dispatcher_step E show_pk clients s (s\<lparr>handling := Some (task, r')\<rparr>)"
| finish: "handling s = Some (task, r) \<Longrightarrow> task_answer r = Some (Ok event) \<Longrightarrow>
    dispatcher_step E show_pk clients s
      (s\<lparr>handling := None, replies := replies s @ [(task, Answered event)]\<rparr>)"
| crash: "handling s = Some (task, r) \<Longrightarrow> task_answer r = Some (Panic p) \<Longrightarrow>
    dispatcher_step E show_pk clients s
      (s\<lparr>handling := None, replies := replies s @ [(task, Closed)], serving := False\<rparr>)"

abbreviation dispatches ::
    "('tx, 'acct, 'si, 'pk \<times> 'acct) sol_env \<Rightarrow> ('pk \<Rightarrow> string)
      \<Rightarrow> ('pk, 'sg, 'tx, 'acct, 'si, 'ctx, 'cc, 'cacct, 'cpa) rpc_client list
      \<Rightarrow> ('pk, 'sg, 'ctx, 'cc, 'cacct, 'cpa, 'tx, 'acct, 'si, 'pk \<times> 'acct) dispatcher_state
      \<Rightarrow> ('pk, 'sg, 'ctx, 'cc, 'cacct, 'cpa, 'tx, 'acct, 'si, 'pk \<times> 'acct) dispatcher_state \<Rightarrow> bool" where
  "dispatches E show_pk clients \<equiv> (dispatcher_step E show_pk clients)\<^sup>*\<^sup>*"

definition start_dispatcher ::
    "('pk, 'sg, 'ctx, 'cc, 'cacct, 'cpa, 'tx, 'acct, 'si, 'pacc) dispatcher_state" where
  "start_dispatcher = \<lparr>queue = [], handling = None, replies = [], serving = True\<rparr>"

subsection \<open>Rounds of a task\<close>

lemma lifted_steps:
  assumes lift: "\<And>x y. R (K x) y \<longleftrightarrow> (\<exists>x'. y = K x' \<and> P x x')"
  shows "R\<^sup>*\<^sup>* (K x) y \<longleftrightarrow> (\<exists>x'. y = K x' \<and> P\<^sup>*\<^sup>* x x')"
proof
  show "\<exists>x'. y = K x' \<and> P\<^sup>*\<^sup>* x x'" if "R\<^sup>*\<^sup>* (K x) y"
    using that
  proof (induction rule: rtranclp_induct)
    case (step u v)
    then obtain x' where "u = K x'" "P\<^sup>*\<^sup>* x x'" by blast
    moreover from this step.hyps(2) obtain x'' where "v = K x''" "P x' x''" by (auto simp: lift)
    ultimately have "P\<^sup>*\<^sup>* x x''" by (simp add: rtranclp.rtrancl_into_rtrancl)
    with \<open>v = K x''\<close> show ?case by blast
  qed blast
  have "R\<^sup>*\<^sup>* (K x) (K x')" if "P\<^sup>*\<^sup>* x x'" for x'
    using that
  proof (induction rule: rtranclp_induct)
    case (step u v)
    then have "R (K u) (K v)" by (auto simp: lift)
    with step.IH show ?case by (rule rtranclp.rtrancl_into_rtrancl)
  qed simp
  then show "R\<^sup>*\<^sup>* (K x) y" if "\<exists>x'. y = K x' \<and> P\<^sup>*\<^sup>* x x'" using that by blast
qed

inductive_simps task_step_simps:
  "task_step E n (TransactionRound s1) r"
  "task_step E n (SlotRound s2) r"
  "task_step E n (AccountRound s3) r"
  "task_step E n (SignaturesRound s4) r"
  "task_step E n (ProgramAccountsRound s5) r"

lemma task_reaches_cases:
  "task_reaches E n (TransactionRound s1) r \<longleftrightarrow> (\<exists>s'. r = TransactionRound s' \<and> reaches (transaction_dealing E) n s1 s')"
  "task_reaches E n (SlotRound s2) r \<longleftrightarrow> (\<exists>s'. r = SlotRound s' \<and> reaches (slot_dealing E) n s2 s')"
  "task_reaches E n (AccountRound s3) r \<longleftrightarrow> (\<exists>s'. r = AccountRound s' \<and> reaches (account_dealing E) n s3 s')"
  "task_reaches E n (SignaturesRound s4) r \<longleftrightarrow> (\<exists>s'. r = SignaturesRound s' \<and> reaches (signatures_dealing E) n s4 s')"
  "task_reaches E n (ProgramAccountsRound s5) r \<longleftrightarrow>
     (\<exists>s'. r = ProgramAccountsRound s' \<and> reaches (program_accounts_dealing E) n s5 s')"
  by ((rule lifted_steps, auto simp: task_step_simps)[1])+

text \<open>Everything the workers sent has been received, and the round has not ended.\<close>

fun task_idle :: "('tx, 'acct, 'si, 'pacc) task_round \<Rightarrow> bool" where
  "task_idle (TransactionRound s) = idle s"
| "task_idle (SlotRound s) = idle s"
| "task_idle (AccountRound s) = idle s"
| "task_idle (SignaturesRound s) = idle s"
| "task_idle (ProgramAccountsRound s) = idle s"

lemma task_idle_step: "task_step E n r r' \<Longrightarrow> task_idle r \<Longrightarrow> task_idle r'"
  by (induction rule: task_step.induct) (auto intro: idle_step)

lemma task_idle_unanswered: "task_idle r \<Longrightarrow> task_answer r = None"
  by (cases r) (simp_all add: idle_def)

text \<open>All that was sent has been received, the last of it within the first minute.\<close>

definition consumed :: "('a, 'x, 'r) round_state \<Rightarrow> bool" where
  "consumed s \<longleftrightarrow> waiting s = [] \<and> channel s = [] \<and> clock s < 60"

fun task_consumed :: "('tx, 'acct, 'si, 'pacc) task_round \<Rightarrow> bool" where
  "task_consumed (TransactionRound s) = consumed s"
| "task_consumed (SlotRound s) = consumed s"
| "task_consumed (AccountRound s) = consumed s"
| "task_consumed (SignaturesRound s) = consumed s"
| "task_consumed (ProgramAccountsRound s) = consumed s"

subsection \<open>The messages of a task\<close>

text \<open>The message is an answer and no error.\<close>

fun is_answer :: "('tx, 'acct, 'si, 'pacc) worker_message \<Rightarrow> bool" where
  "is_answer (MTransaction m) = (\<not> isl (fst m))"
| "is_answer (MSlot m) = (\<not> isl (fst m))"
| "is_answer (MAccountInfo m) = (\<not> isl (fst m))"
| "is_answer (MSignatures m) = (\<not> isl (fst m))"
| "is_answer (MProgramAccounts m) = (\<not> isl (fst m))"

lemma only_answers:
  assumes "\<forall>m \<in> set ms. \<not> isl (fst m)"
  shows "\<exists>votes. ms = map answered votes \<and> map snd votes = map snd ms"
proof -
  have "ms = map answered (map (\<lambda>m. (projr (fst m), snd m)) ms)"
    using assms
  proof (induction ms)
    case (Cons m ms)
    then show ?case by (cases m; cases "fst m") (simp_all add: answered_def)
  qed simp
  then show ?thesis by (intro exI[of _ "map (\<lambda>m. (projr (fst m), snd m)) ms"]) simp
qed

lemma subseq_mset: "subseq xs ys \<Longrightarrow> mset xs \<subseteq># mset ys"
  by (induction rule: list_emb.induct) (auto intro: subset_mset.order_trans)

lemma silent_when_consumed:
  assumes "\<forall>m \<in> set ms. \<not> isl (fst m)" and "map snd ms = map client_url answering"
    and "subseq answering clients" and "answering \<noteq> clients" and "distinct (map client_url clients)"
    and "reaches d (length clients) (start_round ms) s" and "consumed s"
  shows "\<exists>votes. silent_server d (length clients) votes s"
proof -
  obtain votes where votes: "ms = map answered votes" "map snd votes = map snd ms"
    using only_answers[OF assms(1)] by blast
  have "length answering \<noteq> length clients" using assms(3,4) subseq_same_length by blast
  moreover have "length answering \<le> length clients" using assms(3) by (rule list_emb_length)
  moreover have "length votes = length answering" using votes(2) assms(2) by (metis length_map)
  moreover have "distinct (map client_url answering)"
    using distinct_sub_mset[OF subseq_mset[OF subseq_map[OF assms(3)]] assms(5)] .
  ultimately show ?thesis
    using votes(1) votes(2)[unfolded assms(2)] assms(6,7) by (intro exI[of _ votes]) (simp add: silent_server_def consumed_def)
qed

lemma sent_answers:
  assumes "\<forall>m \<in> set ws. is_answer m"
  shows "\<forall>m \<in> set [m. MTransaction m \<leftarrow> ws]. \<not> isl (fst m)" "\<forall>m \<in> set [m. MSlot m \<leftarrow> ws]. \<not> isl (fst m)"
    "\<forall>m \<in> set [m. MAccountInfo m \<leftarrow> ws]. \<not> isl (fst m)" "\<forall>m \<in> set [m. MSignatures m \<leftarrow> ws]. \<not> isl (fst m)"
    "\<forall>m \<in> set [m. MProgramAccounts m \<leftarrow> ws]. \<not> isl (fst m)"
  using assms by (auto split: worker_message.splits)

text \<open>What a worker sends on a task, seen by its round.\<close>

lemma sent_messages:
  "[m. MTransaction m \<leftarrow> worker_messages show_pk cs (GetTransaction sg tc)] =
     map (\<lambda>c. client_worker_do_get_transaction (rpc_transaction c) tc sg (client_url c)) cs"
  "[m. MSlot m \<leftarrow> worker_messages show_pk cs (GetSlot sc)] =
     map (\<lambda>c. client_worker_do_get_slot (rpc_slot c) sc (client_url c)) cs"
  "[m. MAccountInfo m \<leftarrow> worker_messages show_pk cs (GetAccountInfo pk ac)] =
     map (\<lambda>c. client_worker_do_get_account (rpc_account c) ac (client_url c) pk) cs"
  "[m. MSignatures m \<leftarrow> worker_messages show_pk cs (GetSignaturesForAddress pk gc)] =
     map (\<lambda>c. client_worker_do_get_signatures_for_address (rpc_signatures c) gc (client_url c) pk) cs"
  "[m. MProgramAccounts m \<leftarrow> worker_messages show_pk cs (GetProgramAccounts pk pc)] =
     map (\<lambda>c. client_worker_do_get_program_accounts (rpc_program_accounts c) show_pk pc (client_url c) pk) cs"
proof -
  have config: "map_option (\<lambda>(b, u, l, c). \<lparr>before = b, until = u, limit = l, commitment = c\<rparr>)
      (map_option (\<lambda>c. (before c, until c, limit c, commitment c)) gc) = gc"
    by (cases gc) simp_all
  show "[m. MSignatures m \<leftarrow> worker_messages show_pk cs (GetSignaturesForAddress pk gc)] =
     map (\<lambda>c. client_worker_do_get_signatures_for_address (rpc_signatures c) gc (client_url c) pk) cs"
    by (induction cs) (simp_all add: worker_messages_def config)
qed (induction cs; simp add: worker_messages_def)+

lemma start_task_messages:
  "start_task (GetTransaction sg tc) (worker_messages show_pk cs (GetTransaction sg tc)) = TransactionRound
     (start_round (map (\<lambda>c. client_worker_do_get_transaction (rpc_transaction c) tc sg (client_url c)) cs))"
  "start_task (GetSlot sc) (worker_messages show_pk cs (GetSlot sc)) = SlotRound
     (start_round (map (\<lambda>c. client_worker_do_get_slot (rpc_slot c) sc (client_url c)) cs))"
  "start_task (GetAccountInfo pk ac) (worker_messages show_pk cs (GetAccountInfo pk ac)) = AccountRound
     (start_round (map (\<lambda>c. client_worker_do_get_account (rpc_account c) ac (client_url c) pk) cs))"
  "start_task (GetSignaturesForAddress pk gc) (worker_messages show_pk cs (GetSignaturesForAddress pk gc)) =
     SignaturesRound (start_round
       (map (\<lambda>c. client_worker_do_get_signatures_for_address (rpc_signatures c) gc (client_url c) pk) cs))"
  "start_task (GetProgramAccounts pk pc) (worker_messages show_pk cs (GetProgramAccounts pk pc)) =
     ProgramAccountsRound (start_round
       (map (\<lambda>c. client_worker_do_get_program_accounts (rpc_program_accounts c) show_pk pc (client_url c) pk) cs))"
  by (simp_all only: start_task.simps sent_messages)

text \<open>A silent server leaves the round of any task idle.\<close>

lemma task_silent_idle:
  assumes urls: "distinct (map client_url clients)"
    and codec: "\<forall>tx. tx_to_vec E tx \<noteq> None" "\<forall>acct. account_to_vec E acct \<noteq> None"
    and some: "subseq answering clients" "answering \<noteq> clients"
    and fine: "\<forall>m \<in> set (worker_messages show_pk answering task). is_answer m"
    and run: "task_reaches E (length clients) (start_task task (worker_messages show_pk answering task)) r"
    and late: "task_consumed r"
  shows "task_idle r"
proof -
  note silent = silent_when_consumed[OF _ _ some urls, unfolded map_map comp_def worker_url]
  note sent = sent_answers[OF fine]
  show ?thesis
  proof (cases task)
    case (GetTransaction sg tc)
    with run obtain s where s: "r = TransactionRound s" "reaches (transaction_dealing E) (length clients)
        (start_round (map (\<lambda>c. client_worker_do_get_transaction (rpc_transaction c) tc sg (client_url c)) answering)) s"
      by (auto simp: task_reaches_cases start_task_messages simp del: start_task.simps)
    have "consumed s" using late s(1) by simp
    from silent[OF sent(1)[unfolded GetTransaction sent_messages] _ s(2) this] obtain votes where
      "silent_server (transaction_dealing E) (length clients) votes s" by (auto simp: comp_def)
    from transaction_recording.silent_idle[OF codec(1) this] s(1) show ?thesis by simp
  next
    case (GetSlot sc)
    with run obtain s where s: "r = SlotRound s" "reaches (slot_dealing E) (length clients)
        (start_round (map (\<lambda>c. client_worker_do_get_slot (rpc_slot c) sc (client_url c)) answering)) s"
      by (auto simp: task_reaches_cases start_task_messages simp del: start_task.simps)
    have "consumed s" using late s(1) by simp
    from silent[OF sent(2)[unfolded GetSlot sent_messages] _ s(2) this] obtain votes where
      "silent_server (slot_dealing E) (length clients) votes s" by (auto simp: comp_def)
    from slot_recording.silent_idle[OF TrueI this] s(1) show ?thesis by simp
  next
    case (GetAccountInfo pk ac)
    with run obtain s where s: "r = AccountRound s" "reaches (account_dealing E) (length clients)
        (start_round (map (\<lambda>c. client_worker_do_get_account (rpc_account c) ac (client_url c) pk) answering)) s"
      by (auto simp: task_reaches_cases start_task_messages simp del: start_task.simps)
    have "consumed s" using late s(1) by simp
    from silent[OF sent(3)[unfolded GetAccountInfo sent_messages] _ s(2) this] obtain votes where
      "silent_server (account_dealing E) (length clients) votes s" by (auto simp: comp_def)
    from account_recording.silent_idle[OF codec(2) this] s(1) show ?thesis by simp
  next
    case (GetSignaturesForAddress pk gc)
    with run obtain s where s: "r = SignaturesRound s" "reaches (signatures_dealing E) (length clients)
        (start_round (map (\<lambda>c. client_worker_do_get_signatures_for_address (rpc_signatures c) gc (client_url c) pk)
          answering)) s"
      by (auto simp: task_reaches_cases start_task_messages simp del: start_task.simps)
    have "consumed s" using late s(1) by simp
    from silent[OF sent(4)[unfolded GetSignaturesForAddress sent_messages] _ s(2) this] obtain votes where
      "silent_server (signatures_dealing E) (length clients) votes s" by (auto simp: comp_def)
    from signatures_recording.silent_idle[OF TrueI this] s(1) show ?thesis by simp
  next
    case (GetProgramAccounts pk pc)
    with run obtain s where s: "r = ProgramAccountsRound s" "reaches (program_accounts_dealing E) (length clients)
        (start_round (map (\<lambda>c. client_worker_do_get_program_accounts (rpc_program_accounts c) show_pk pc
          (client_url c) pk) answering)) s"
      by (auto simp: task_reaches_cases start_task_messages simp del: start_task.simps)
    have "consumed s" using late s(1) by simp
    from silent[OF sent(5)[unfolded GetProgramAccounts sent_messages] _ s(2) this] obtain votes where
      "silent_server (program_accounts_dealing E) (length clients) votes s" by (auto simp: comp_def)
    from program_accounts_recording.silent_idle[OF TrueI this] s(1) show ?thesis by simp
  qed
qed

lemma dispatches_work:
  assumes "task_reaches E (length clients) r r'" and "handling s = Some (task, r)"
  shows "dispatches E show_pk clients s (s\<lparr>handling := Some (task, r')\<rparr>)"
  using assms(1)
proof (induction rule: rtranclp_induct)
  case base
  then show ?case using assms(2) by (cases s) simp
next
  case (step r1 r2)
  have "dispatcher_step E show_pk clients (s\<lparr>handling := Some (task, r1)\<rparr>) (s\<lparr>handling := Some (task, r2)\<rparr>)"
    using dispatcher_step.work[of "s\<lparr>handling := Some (task, r1)\<rparr>" task r1 E clients r2 show_pk] step.hyps(2) by simp
  with step.IH show ?case by (rule rtranclp.rtrancl_into_rtrancl)
qed

text \<open>An idle task stays in hand, and nobody is answered any more.\<close>

lemma idle_for_ever:
  assumes "dispatches E show_pk clients s s'" and "handling s = Some (task, r)" and "task_idle r"
  shows "replies s' = replies s \<and> (\<exists>r'. handling s' = Some (task, r') \<and> task_idle r') \<and>
    (\<exists>new. queue s' = queue s @ new)"
  using assms(1)
proof (induction rule: rtranclp_induct)
  case base
  with assms(2,3) show ?case by simp
next
  case (step s1 s2)
  then obtain r1 new where now: "replies s1 = replies s" "handling s1 = Some (task, r1)" "task_idle r1"
    "queue s1 = queue s @ new" by blast
  from step.hyps(2) show ?case
  proof cases
    case (work task' r2 r2')
    with now task_idle_step show ?thesis by auto
  qed (use now in \<open>auto simp: task_idle_unanswered\<close>)
qed

subsection \<open>Replies are answers of rounds\<close>

text \<open>
  \<open>reply_from\<close>: an answer to the caller of a task is the response of a round with the messages of
  all workers, as the properties of the calls assume it.
\<close>

fun reply_from ::
    "('tx, 'acct, 'si, 'pk \<times> 'acct) sol_env \<Rightarrow> ('pk \<Rightarrow> string)
      \<Rightarrow> ('pk, 'sg, 'tx, 'acct, 'si, 'ctx, 'cc, 'cacct, 'cpa) rpc_client list
      \<Rightarrow> ('pk, 'sg, 'ctx, 'cc, 'cacct, 'cpa) task_event \<Rightarrow> ('tx, 'acct, 'si, 'pk \<times> 'acct) response_event reply \<Rightarrow> bool" where
  "reply_from E show_pk clients (GetTransaction sg tc) reply \<longleftrightarrow> answers_from (transaction_dealing E)
     [m. MTransaction m \<leftarrow> worker_messages show_pk clients (GetTransaction sg tc)] reply"
| "reply_from E show_pk clients (GetSlot sc) reply \<longleftrightarrow> answers_from (slot_dealing E)
     [m. MSlot m \<leftarrow> worker_messages show_pk clients (GetSlot sc)] reply"
| "reply_from E show_pk clients (GetAccountInfo pk ac) reply \<longleftrightarrow> answers_from (account_dealing E)
     [m. MAccountInfo m \<leftarrow> worker_messages show_pk clients (GetAccountInfo pk ac)] reply"
| "reply_from E show_pk clients (GetSignaturesForAddress pk gc) reply \<longleftrightarrow> answers_from (signatures_dealing E)
     [m. MSignatures m \<leftarrow> worker_messages show_pk clients (GetSignaturesForAddress pk gc)] reply"
| "reply_from E show_pk clients (GetProgramAccounts pk pc) reply \<longleftrightarrow> answers_from (program_accounts_dealing E)
     [m. MProgramAccounts m \<leftarrow> worker_messages show_pk clients (GetProgramAccounts pk pc)] reply"

lemma some_messages_round:
  assumes "subseq ms all" and "reaches d (length all) (start_round ms) s" and "answer s = Some (Ok event)"
  shows "answers_from d all (Answered event)"
proof -
  obtain extra where "mset all = mset ms + extra"
    using subseq_mset[OF assms(1)] by (metis subset_mset.le_iff_add)
  then have "mset all = mset (waiting (start_round ms)) + extra" by (simp add: start_round_def)
  from reaches_more_waiting[OF assms(2) this] obtain w where
    "reaches d (length all) (start_round ms\<lparr>waiting := all\<rparr>) (s\<lparr>waiting := w\<rparr>)" by blast
  then have "reaches d (length all) (start_round all) (s\<lparr>waiting := w\<rparr>)" by (simp add: start_round_def)
  then show ?thesis by (rule answers_fromI) (simp_all add: assms(3))
qed

lemma task_answer_from:
  assumes some: "subseq answering clients"
    and run: "task_reaches E (length clients) (start_task task (worker_messages show_pk answering task)) r"
    and ended: "task_answer r = Some (Ok event)"
  shows "reply_from E show_pk clients task (Answered event)"
proof (cases task)
  case (GetTransaction sg tc)
  with run ended show ?thesis
    by (auto simp: task_reaches_cases start_task_messages sent_messages simp del: start_task.simps
        intro: some_messages_round[OF subseq_map[OF some], unfolded length_map])
next
  case (GetSlot sc)
  with run ended show ?thesis
    by (auto simp: task_reaches_cases start_task_messages sent_messages simp del: start_task.simps
        intro: some_messages_round[OF subseq_map[OF some], unfolded length_map])
next
  case (GetAccountInfo pk ac)
  with run ended show ?thesis
    by (auto simp: task_reaches_cases start_task_messages sent_messages simp del: start_task.simps
        intro: some_messages_round[OF subseq_map[OF some], unfolded length_map])
next
  case (GetSignaturesForAddress pk gc)
  with run ended show ?thesis
    by (auto simp: task_reaches_cases start_task_messages sent_messages simp del: start_task.simps
        intro: some_messages_round[OF subseq_map[OF some], unfolded length_map])
next
  case (GetProgramAccounts pk pc)
  with run ended show ?thesis
    by (auto simp: task_reaches_cases start_task_messages sent_messages simp del: start_task.simps
        intro: some_messages_round[OF subseq_map[OF some], unfolded length_map])
qed

definition dispatcher_inv ::
    "('tx, 'acct, 'si, 'pk \<times> 'acct) sol_env \<Rightarrow> ('pk \<Rightarrow> string)
      \<Rightarrow> ('pk, 'sg, 'tx, 'acct, 'si, 'ctx, 'cc, 'cacct, 'cpa) rpc_client list
      \<Rightarrow> ('pk, 'sg, 'ctx, 'cc, 'cacct, 'cpa, 'tx, 'acct, 'si, 'pk \<times> 'acct) dispatcher_state \<Rightarrow> bool" where
  "dispatcher_inv E show_pk clients s \<longleftrightarrow>
     (\<forall>task r. handling s = Some (task, r) \<longrightarrow>
        (\<exists>answering. subseq answering clients \<and>
           task_reaches E (length clients) (start_task task (worker_messages show_pk answering task)) r)) \<and>
     (\<forall>(task, reply) \<in> set (replies s).
        reply_from E show_pk clients task reply \<or> (\<exists>err. reply = Answered (refused task err)))"

lemma dispatcher_inv_step:
  assumes "dispatcher_step E show_pk clients s s'" and "dispatcher_inv E show_pk clients s"
  shows "dispatcher_inv E show_pk clients s'"
  using assms(1)
proof cases
  case (work task r r')
  with assms(2) show ?thesis
    unfolding dispatcher_inv_def by (auto intro: rtranclp.rtrancl_into_rtrancl)
next
  case (finish task r event)
  with assms(2) task_answer_from show ?thesis unfolding dispatcher_inv_def by fastforce
next
  case (crash task r p)
  moreover have "reply_from E show_pk clients task Closed" by (cases task) (simp_all add: answers_from_def)
  ultimately show ?thesis using assms(2) unfolding dispatcher_inv_def by auto
qed (use assms(2) in \<open>auto simp: dispatcher_inv_def\<close>)

lemma dispatcher_inv_run:
  assumes "dispatches E show_pk clients start_dispatcher s"
  shows "dispatcher_inv E show_pk clients s"
  using assms
proof (induction rule: rtranclp_induct)
  case base
  show ?case by (simp add: dispatcher_inv_def start_dispatcher_def)
next
  case (step s1 s2)
  then show ?case by (blast intro: dispatcher_inv_step)
qed

text \<open>
  The slot of a call whose reply the dispatcher has produced in some run is cross-checked. The same
  step leads from \<open>dispatcher_inv_run\<close> to the assumption on the replies in the other calls.
\<close>

lemma dispatched_slot_checked:
  assumes "iteration (order_u64 E)" and "distinct (map client_url clients)"
    and "dispatches E show_pk clients start_dispatcher s"
    and "(GetSlot config, ask (GetSlot config)) \<in> set (replies s)"
    and "get_slot show_slot judge ask config = Some (Ok v)"
  shows "ask_judge (rpc_slot judge) () config = Ok v \<and>
    (\<exists>f slot. (\<forall>c \<in> set clients.
        client_worker_do_get_slot (rpc_slot c) config (client_url c) = (Inr (f c), client_url c)) \<and>
      strictly_most_frequent (map f clients) slot \<and> v \<le> slot)"
proof -
  from assms(5) obtain slot where reply: "ask (GetSlot config) = Answered (RGetSlot (Inr slot))" "v \<le> slot"
    and j: "ask_judge (rpc_slot judge) () config = Ok v" by (auto simp: get_slot_Ok)
  from dispatcher_inv_run[OF assms(3)] assms(4) reply(1)
  have "reply_from E show_pk clients (GetSlot config) (Answered (RGetSlot (Inr slot)))"
    by (fastforce simp: dispatcher_inv_def simp del: reply_from.simps)
  then have "answers_from (slot_dealing E) (map (\<lambda>c. client_worker_do_get_slot (rpc_slot c) config (client_url c)) clients)
      (Answered (RGetSlot (Inr slot)))" by (simp only: reply_from.simps sent_messages)
  from slot_answer[OF assms(1,2) refl this] j reply(2) show ?thesis by blast
qed

subsection \<open>The loops of the source\<close>

text \<open>
  The match on a task with the loops of \<open>Sol_Client\<close>, over the messages and silent seconds that
  the \<open>k\<close>-th task sees.
\<close>

text \<open>What the \<open>k\<close>-th task finds: the result of its broadcast and the messages of its workers.\<close>

record ('tx, 'acct, 'si, 'pacc) rounds =
  broadcast :: "nat \<Rightarrow> string option"
  transaction_arrivals :: "nat \<Rightarrow> 'tx recv list"
  slot_arrivals :: "nat \<Rightarrow> u64 recv list"
  account_arrivals :: "nat \<Rightarrow> 'acct option recv list"
  signatures_arrivals :: "nat \<Rightarrow> 'si list recv list"
  program_accounts_arrivals :: "nat \<Rightarrow> 'pacc list recv list"

fun dispatch_task ::
    "('tx, 'acct, 'si, 'pacc) sol_env \<Rightarrow> ('tx, 'acct, 'si, 'pacc) rounds \<Rightarrow> nat \<Rightarrow> nat
      \<Rightarrow> ('pk, 'sg, 'ctx, 'cc, 'cacct, 'cpa) task_event
      \<Rightarrow> ('tx, 'acct, 'si, 'pacc) response_event panicky option" where
  "dispatch_task E R rpc_num k (GetTransaction signature rpc_tx_config) =
     deal_get_transaction E rpc_num (broadcast R k) (transaction_arrivals R k)"
| "dispatch_task E R rpc_num k (GetSlot commitment_config) =
     deal_get_slot E rpc_num (broadcast R k) (slot_arrivals R k)"
| "dispatch_task E R rpc_num k (GetAccountInfo pubkey config) =
     deal_get_account_info E rpc_num (broadcast R k) (account_arrivals R k)"
| "dispatch_task E R rpc_num k (GetSignaturesForAddress pubkey config) =
     deal_get_signatures_for_address E rpc_num (broadcast R k) (signatures_arrivals R k)"
| "dispatch_task E R rpc_num k (GetProgramAccounts pubkey config) =
     deal_get_program_accounts E rpc_num (broadcast R k) (program_accounts_arrivals R k)"

text \<open>An answer of the steps is the result of the loop for some arrivals of the messages.\<close>

lemma task_step_refines_dispatch:
  assumes "task_reaches E n (start_task task ms) r" and "task_answer r = Some a"
  shows "\<exists>R. dispatch_task E R n k task = Some a"
proof -
  let ?R = "\<lambda>tx slot acct sigs paccs. \<lparr>broadcast = (\<lambda>_. None), transaction_arrivals = (\<lambda>_. tx),
    slot_arrivals = (\<lambda>_. slot), account_arrivals = (\<lambda>_. acct), signatures_arrivals = (\<lambda>_. sigs),
    program_accounts_arrivals = (\<lambda>_. paccs)\<rparr>"
  show ?thesis
  proof (cases task)
    case (GetTransaction sg tc)
    with assms obtain s where "reaches (transaction_dealing E) n (start_round [m. MTransaction m \<leftarrow> ms]) s"
      "answer s = Some a" by (auto simp: task_reaches_cases)
    from reaches_deal[OF this, of RGetTransaction] obtain events where
      "deal_get_transaction E n None events = Some a" by (auto simp: deal_get_transaction_def)
    with GetTransaction show ?thesis by (intro exI[of _ "?R events [] [] [] []"]) simp
  next
    case (GetSlot sc)
    with assms obtain s where "reaches (slot_dealing E) n (start_round [m. MSlot m \<leftarrow> ms]) s"
      "answer s = Some a" by (auto simp: task_reaches_cases)
    from reaches_deal[OF this, of RGetSlot] obtain events where
      "deal_get_slot E n None events = Some a" by (auto simp: deal_get_slot_def)
    with GetSlot show ?thesis by (intro exI[of _ "?R [] events [] [] []"]) simp
  next
    case (GetAccountInfo pk ac)
    with assms obtain s where "reaches (account_dealing E) n (start_round [m. MAccountInfo m \<leftarrow> ms]) s"
      "answer s = Some a" by (auto simp: task_reaches_cases)
    from reaches_deal[OF this, of RGetAccountInfo] obtain events where
      "deal_get_account_info E n None events = Some a" by (auto simp: deal_get_account_info_def)
    with GetAccountInfo show ?thesis by (intro exI[of _ "?R [] [] events [] []"]) simp
  next
    case (GetSignaturesForAddress pk gc)
    with assms obtain s where "reaches (signatures_dealing E) n (start_round [m. MSignatures m \<leftarrow> ms]) s"
      "answer s = Some a" by (auto simp: task_reaches_cases)
    from reaches_deal[OF this, of RGetSignaturesForAddress] obtain events where
      "deal_get_signatures_for_address E n None events = Some a"
      by (auto simp: deal_get_signatures_for_address_def)
    with GetSignaturesForAddress show ?thesis by (intro exI[of _ "?R [] [] [] events []"]) simp
  next
    case (GetProgramAccounts pk pc)
    with assms obtain s where "reaches (program_accounts_dealing E) n (start_round [m. MProgramAccounts m \<leftarrow> ms]) s"
      "answer s = Some a" by (auto simp: task_reaches_cases)
    from reaches_deal[OF this, of RGetProgramAccounts] obtain events where
      "deal_get_program_accounts E n None events = Some a" by (auto simp: deal_get_program_accounts_def)
    with GetProgramAccounts show ?thesis by (intro exI[of _ "?R [] [] [] [] events"]) simp
  qed
qed

subsection \<open>A blocked run\<close>

abbreviation sample_servers ::
    "(string, string, bytes, u8, string, unit, unit, unit, unit) rpc_client list" where
  "sample_servers \<equiv> [sample_client ''a'' 7 None [] [], sample_client ''b'' 8 None [] []]"

type_synonym sample_dispatcher =
  "(string, string, unit, unit, unit, unit, bytes, u8, string, string \<times> u8) dispatcher_state"

abbreviation sample_start :: sample_dispatcher where
  "sample_start \<equiv> start_dispatcher"

abbreviation slot_task :: "(string, string, unit, unit, unit, unit) task_event" where
  "slot_task \<equiv> GetSlot None"

text \<open>Server \<open>a\<close> has answered the first of two slot tasks, \<open>b\<close> stays silent.\<close>

definition blocked_state :: sample_dispatcher where
  "blocked_state = \<lparr>queue = [slot_task],
     handling = Some (slot_task, SlotRound (received [] [(7, ''a'')] None)), replies = [], serving = True\<rparr>"

lemma blocked_messages: "worker_messages (\<lambda>s. s) [sample_client ''a'' 7 None [] []] slot_task = [MSlot (Inr 7, ''a'')]"
  by (simp add: worker_messages_def sample_client_simps)

lemma blocked_round:
  "task_reaches sample_env 2 (start_task slot_task
     (worker_messages (\<lambda>s. s) [sample_client ''a'' 7 None [] []] slot_task))
     (SlotRound (received [] [(7, ''a'')] None))"
  using sample_silent_round by (simp add: blocked_messages task_reaches_cases)

lemma blocked_round':
  "task_reaches sample_env (length sample_servers) (start_task slot_task
     (worker_messages (\<lambda>s. s) [sample_client ''a'' 7 None [] []] slot_task))
     (SlotRound (received [] [(7, ''a'')] None))"
  using blocked_round by (simp add: numeral_2_eq_2)

lemma blocked_run: "dispatches sample_env (\<lambda>s. s) sample_servers sample_start blocked_state"
proof -
  let ?D = "dispatches sample_env (\<lambda>s. s) sample_servers" and ?d = "dispatcher_step sample_env (\<lambda>s. s) sample_servers"
  let ?s1 = "sample_start\<lparr>queue := [slot_task]\<rparr>" and ?s2 = "sample_start\<lparr>queue := [slot_task, slot_task]\<rparr>"
  let ?s3 = "sample_start\<lparr>queue := [slot_task], handling := Some (slot_task, start_task slot_task
     (worker_messages (\<lambda>s. s) [sample_client ''a'' 7 None [] []] slot_task))\<rparr>"
  have "?d sample_start ?s1"
    using dispatcher_step.submit[of sample_start sample_env "\<lambda>s. s" sample_servers "slot_task"]
    by (simp add: start_dispatcher_def)
  moreover have "?d ?s1 ?s2"
    using dispatcher_step.submit[of ?s1 sample_env "\<lambda>s. s" sample_servers "slot_task"]
    by (simp add: start_dispatcher_def)
  moreover have "?d ?s2 ?s3"
    using dispatcher_step.take_task[of ?s2 "slot_task" "[slot_task]" "[sample_client ''a'' 7 None [] []]"
        sample_servers sample_env "\<lambda>s. s"]
    by (simp add: start_dispatcher_def)
  moreover have "?D ?s3 blocked_state"
    using dispatches_work[OF blocked_round', of ?s3 "slot_task" "\<lambda>s. s"]
    by (simp add: start_dispatcher_def blocked_state_def)
  ultimately show ?thesis by (meson converse_rtranclp_into_rtranclp)
qed

subsection \<open>Properties\<close>

text \<open>
  C32: one unanswered task blocks all later ones. Let the dispatcher have taken a task of any of the
  five kinds, and let a server stay silent on it while the other servers answer without an error
  within the first minute. Once their answers have been received, no later state has a new reply,
  to the caller of this task or to any other: the task stays in hand, and the tasks behind it,
  those submitted later included, stay in the queue.
\<close>

theorem blocked_task_starves_the_rest:
  assumes "distinct (map client_url clients)"
    and "\<forall>tx. tx_to_vec E tx \<noteq> None" and "\<forall>acct. account_to_vec E acct \<noteq> None"
    and "subseq answering clients" and "answering \<noteq> clients"
    and "\<forall>m \<in> set (worker_messages show_pk answering task). is_answer m"
    and "handling s = Some (task, r)"
    and "task_reaches E (length clients) (start_task task (worker_messages show_pk answering task)) r"
    and "task_consumed r"
    and "dispatches E show_pk clients s s'"
  shows "replies s' = replies s \<and> (\<exists>r'. handling s' = Some (task, r')) \<and> (\<exists>new. queue s' = queue s @ new)"
  using idle_for_ever[OF assms(10,7) task_silent_idle[OF assms(1-6,8,9)]] by blast

theorem blocked_task_starves_the_rest_witness:
  "dispatches sample_env (\<lambda>s. s) sample_servers sample_start blocked_state \<and>
    (\<nexists>s'. dispatches sample_env (\<lambda>s. s) sample_servers blocked_state s' \<and> replies s' \<noteq> [])"
proof -
  let ?cs = "sample_servers"
  have "replies s' = []" if "dispatches sample_env (\<lambda>s. s) ?cs blocked_state s'" for s'
  proof -
    have "replies s' = replies blocked_state \<and> (\<exists>r'. handling s' = Some (slot_task, r')) \<and>
        (\<exists>new. queue s' = queue blocked_state @ new)"
      by (rule blocked_task_starves_the_rest[OF _ _ _ _ _ _ _ blocked_round' _ that])
        (simp_all add: blocked_messages, simp_all add: blocked_state_def consumed_def sample_env_def sample_client_def)
    then show ?thesis by (simp add: blocked_state_def)
  qed
  with blocked_run show ?thesis by blast
qed

end
