(* ===== verification/Sol_Rpc.thy ===== *)
theory Sol_Rpc
  imports Sol_Calls Simple_Cache Externals
begin

text \<open>
  The Solana route of \<open>src/src/solrpc/mod.rs\<close>: one JSON-RPC request is decoded, answered by one of
  the five calls of the Solana client, and encoded; transactions go through the shared response
  cache. The client is used through its five calls (\<open>sol_api\<close>), which \<open>Sol_Calls\<close> provides. A
  call that never returns is a request that is never answered, \<open>None\<close>.
\<close>

subsection \<open>Requests and responses\<close>

datatype sol_method = MGetTransaction | MGetSlot | MGetAccountInfo | MGetSignaturesForAddress | MGetProgramAccounts

definition sol_method_try_from :: "string \<Rightarrow> string + sol_method" where
  "sol_method_try_from value =
     (if value = ''getTransaction'' then Inr MGetTransaction
      else if value = ''getSlot'' then Inr MGetSlot
      else if value = ''getAccountInfo'' then Inr MGetAccountInfo
      else if value = ''getSignaturesForAddress'' then Inr MGetSignaturesForAddress
      else if value = ''getProgramAccounts'' then Inr MGetProgramAccounts
      else Inl (''Unsupported method '' @ value))"

record 'v sol_req =
  sol_req_jsonrpc :: string
  sol_req_method :: string
  sol_req_params :: 'v
  sol_req_id :: 'v

record 'v sol_resp =
  sol_resp_jsonrpc :: string
  sol_resp_error :: "string option"
  sol_resp_id :: 'v
  sol_resp_result :: "'v option"

record 'v sol_rpc_error =
  sol_code :: int
  sol_message :: string
  sol_data :: "'v option"

record 'v sol_resp_ok =
  sol_ok_jsonrpc :: string
  sol_ok_id :: 'v
  sol_ok_result :: "'v option"

record 'v sol_resp_err =
  sol_err_jsonrpc :: string
  sol_err_error :: "'v sol_rpc_error"
  sol_err_id :: 'v

definition create_sol_response :: "string option \<Rightarrow> 'v \<Rightarrow> 'v option \<Rightarrow> 'v sol_resp" where
  "create_sol_response e i r =
     \<lparr>sol_resp_jsonrpc = ''2.0'', sol_resp_error = e, sol_resp_id = i, sol_resp_result = r\<rparr>"

text \<open>The calls of the Solana client.\<close>

record ('pk, 'sg, 'tx, 'acct, 'si, 'ctx, 'cc, 'cacct, 'cpa) sol_api =
  api_get_transaction :: "'sg \<Rightarrow> 'ctx option \<Rightarrow> (sol_client_error, 'tx) outcome option"
  api_get_slot :: "'cc option \<Rightarrow> (sol_client_error, u64) outcome option"
  api_get_account_info :: "'pk \<Rightarrow> 'cacct option \<Rightarrow> (sol_client_error, 'acct option) outcome option"
  api_get_signatures_for_address ::
    "'pk \<Rightarrow> ('sg, 'cc) signatures_config option \<Rightarrow> (sol_client_error, 'si list) outcome option"
  api_get_program_accounts :: "'pk \<Rightarrow> 'cpa option \<Rightarrow> (sol_client_error, ('pk \<times> 'acct) list) outcome option"

text \<open>
  The decoders and encoders of the libraries. The configuration of a signature query has its
  signatures as strings.
\<close>

record ('v, 'pk, 'sg, 'tx, 'acct, 'si, 'ctx, 'cc, 'cacct, 'cpa) sol_libs =
  pubkey_from_str :: "string \<Rightarrow> string + 'pk"
  signature_from_str :: "string \<Rightarrow> string + 'sg"
  signature_bytes :: "'sg \<Rightarrow> bytes"
  de_program_config :: "'v \<Rightarrow> string + 'cpa option"
  de_signatures_config :: "'v \<Rightarrow> string + (string, 'cc) signatures_config option"
  de_account_config :: "'v \<Rightarrow> string + 'cacct option"
  de_commitment :: "'v \<Rightarrow> string + 'cc option"
  de_tx_config :: "'v \<Rightarrow> string + 'ctx option"
  de_tx :: "'v \<Rightarrow> string + 'tx"
  tx_to_value :: "'tx \<Rightarrow> string + 'v"
  account_to_value :: "'acct option \<Rightarrow> string + 'v"
  program_accounts_to_value :: "('pk \<times> 'acct) list \<Rightarrow> string + 'v"
  signatures_to_value :: "'si list \<Rightarrow> string + 'v"
  ser_sol_ok :: "'v sol_resp_ok \<Rightarrow> string + string"
  ser_sol_err :: "'v sol_resp_err \<Rightarrow> string + string"
  sol_enclave :: "string \<Rightarrow> string"

subsection \<open>Handlers\<close>

text \<open>The end of a handler: the value is encoded, an error is shown.\<close>

definition respond_with ::
    "('a \<Rightarrow> string + 'v) \<Rightarrow> 'v \<Rightarrow> (sol_client_error, 'a) outcome option \<Rightarrow> 'v sol_resp panicky option" where
  "respond_with to_value i r =
     (case r of
        None \<Rightarrow> None
      | Some (Ok a) \<Rightarrow> Some (and_then (unwrap_res (to_value a)) (\<lambda>v. Ok (create_sol_response None i (Some v))))
      | Some (Err e) \<Rightarrow> Some (Ok (create_sol_response (Some (show_sol_error e)) i None))
      | Some (Panic p) \<Rightarrow> Some (Panic p))"

text \<open>An early return with an error.\<close>

definition refuse :: "'v \<Rightarrow> string \<Rightarrow> 'v sol_resp panicky option" where
  "refuse i e = Some (Ok (create_sol_response (Some e) i None))"

text \<open>The first parameter as a public key or a signature, \<open>what\<close> it is said to be.\<close>

definition first_param :: "'v serde \<Rightarrow> string \<Rightarrow> (string \<Rightarrow> string + 'k) \<Rightarrow> 'v list \<Rightarrow> string + 'k" where
  "first_param J what from_str params =
     (case params of
        [] \<Rightarrow> Inl ''Invalid numbers of params''
      | pbk_v # _ \<Rightarrow>
          (case as_str J pbk_v of
             None \<Rightarrow> Inl ''Invalid type of params''
           | Some s \<Rightarrow>
               (case from_str s of
                  Inr pbk \<Rightarrow> Inr pbk
                | Inl err \<Rightarrow> Inl (''Invalid '' @ what @ '': '' @ err))))"

text \<open>The parameter at position \<open>n\<close> as a configuration; a missing one is none.\<close>

definition config_param :: "string \<Rightarrow> ('v \<Rightarrow> string + 'c option) \<Rightarrow> nat \<Rightarrow> 'v list \<Rightarrow> string + 'c option" where
  "config_param what de n params =
     (if n < length params
      then case de (params ! n) of
        Inr config \<Rightarrow> Inr config
      | Inl err \<Rightarrow> Inl (''Invalid '' @ what @ '': '' @ err)
      else Inr None)"

definition handle_get_program_accounts ::
    "'v serde \<Rightarrow> ('v, 'pk, 'sg, 'tx, 'acct, 'si, 'ctx, 'cc, 'cacct, 'cpa) sol_libs
      \<Rightarrow> ('pk, 'sg, 'tx, 'acct, 'si, 'ctx, 'cc, 'cacct, 'cpa) sol_api \<Rightarrow> 'v list \<Rightarrow> 'v
      \<Rightarrow> 'v sol_resp panicky option" where
  "handle_get_program_accounts J L client params i =
     (case first_param J ''Pubkey'' (pubkey_from_str L) params of
        Inl e \<Rightarrow> refuse i e
      | Inr pubkey \<Rightarrow>
          (case config_param ''RpcAccountInfoConfig'' (de_program_config L) 1 params of
             Inl e \<Rightarrow> refuse i e
           | Inr config \<Rightarrow>
               respond_with (program_accounts_to_value L) i (api_get_program_accounts client pubkey config)))"

text \<open>The two signatures of the configuration are parsed before the call, \<open>before\<close> first.\<close>

definition parse_opt :: "(string \<Rightarrow> string + 'sg) \<Rightarrow> string option \<Rightarrow> string + 'sg option" where
  "parse_opt from_str s =
     (case s of
        None \<Rightarrow> Inr None
      | Some b \<Rightarrow>
          (case from_str b of
             Inr sig \<Rightarrow> Inr (Some sig)
           | Inl err \<Rightarrow> Inl (''Invalid RpcSignaturesForAddressConfig: '' @ err)))"

definition parse_signatures_config ::
    "(string \<Rightarrow> string + 'sg) \<Rightarrow> (string, 'cc) signatures_config option
      \<Rightarrow> string + ('sg, 'cc) signatures_config option" where
  "parse_signatures_config from_str config =
     (case config of
        None \<Rightarrow> Inr None
      | Some c \<Rightarrow>
          (case parse_opt from_str (before c) of
             Inl e \<Rightarrow> Inl e
           | Inr b \<Rightarrow>
               (case parse_opt from_str (until c) of
                  Inl e \<Rightarrow> Inl e
                | Inr u \<Rightarrow> Inr (Some \<lparr>before = b, until = u, limit = limit c, commitment = commitment c\<rparr>))))"

definition handle_get_signatures_for_address ::
    "'v serde \<Rightarrow> ('v, 'pk, 'sg, 'tx, 'acct, 'si, 'ctx, 'cc, 'cacct, 'cpa) sol_libs
      \<Rightarrow> ('pk, 'sg, 'tx, 'acct, 'si, 'ctx, 'cc, 'cacct, 'cpa) sol_api \<Rightarrow> 'v list \<Rightarrow> 'v
      \<Rightarrow> 'v sol_resp panicky option" where
  "handle_get_signatures_for_address J L client params i =
     (case first_param J ''Pubkey'' (pubkey_from_str L) params of
        Inl e \<Rightarrow> refuse i e
      | Inr pubkey \<Rightarrow>
          (case config_param ''RpcSignaturesForAddressConfig'' (de_signatures_config L) 1 params of
             Inl e \<Rightarrow> refuse i e
           | Inr raw \<Rightarrow>
               (case parse_signatures_config (signature_from_str L) raw of
                  Inl e \<Rightarrow> refuse i e
                | Inr config \<Rightarrow>
                    respond_with (signatures_to_value L) i (api_get_signatures_for_address client pubkey config))))"

definition handle_get_account ::
    "'v serde \<Rightarrow> ('v, 'pk, 'sg, 'tx, 'acct, 'si, 'ctx, 'cc, 'cacct, 'cpa) sol_libs
      \<Rightarrow> ('pk, 'sg, 'tx, 'acct, 'si, 'ctx, 'cc, 'cacct, 'cpa) sol_api \<Rightarrow> 'v list \<Rightarrow> 'v
      \<Rightarrow> 'v sol_resp panicky option" where
  "handle_get_account J L client params i =
     (case first_param J ''Pubkey'' (pubkey_from_str L) params of
        Inl e \<Rightarrow> refuse i e
      | Inr pubkey \<Rightarrow>
          (case config_param ''RpcAccountInfoConfig'' (de_account_config L) 1 params of
             Inl e \<Rightarrow> refuse i e
           | Inr config \<Rightarrow>
               respond_with (account_to_value L) i (api_get_account_info client pubkey config)))"

definition handle_get_slot ::
    "'v serde \<Rightarrow> ('v, 'pk, 'sg, 'tx, 'acct, 'si, 'ctx, 'cc, 'cacct, 'cpa) sol_libs
      \<Rightarrow> ('pk, 'sg, 'tx, 'acct, 'si, 'ctx, 'cc, 'cacct, 'cpa) sol_api \<Rightarrow> 'v list \<Rightarrow> 'v
      \<Rightarrow> 'v sol_resp panicky option" where
  "handle_get_slot J L client params i =
     (case config_param ''CommitmentConfig'' (de_commitment L) 0 params of
        Inl e \<Rightarrow> refuse i e
      | Inr commitment_config \<Rightarrow>
          respond_with (\<lambda>slot. Inr (of_u64 J slot)) i (api_get_slot client commitment_config))"

text \<open>
  The cache is read before the configuration is looked at; what is found is decoded and encoded
  again, and dropped when it is no transaction.
\<close>

definition handle_get_transaction ::
    "'v serde \<Rightarrow> ('v, 'pk, 'sg, 'tx, 'acct, 'si, 'ctx, 'cc, 'cacct, 'cpa) sol_libs
      \<Rightarrow> ('pk, 'sg, 'tx, 'acct, 'si, 'ctx, 'cc, 'cacct, 'cpa) sol_api \<Rightarrow> 'v list \<Rightarrow> 'v
      \<Rightarrow> (bytes, 'v) simple_cache \<Rightarrow> 'v sol_resp panicky option \<times> (bytes, 'v) simple_cache" where
  "handle_get_transaction J L client params i cache =
     (case first_param J ''signature'' (signature_from_str L) params of
        Inl e \<Rightarrow> (refuse i e, cache)
      | Inr signature \<Rightarrow>
          (let cache_key = signature_bytes L signature;
               fetch = (\<lambda>cache.
                 case config_param ''RpcTransactionConfig'' (de_tx_config L) 1 params of
                   Inl e \<Rightarrow> (refuse i e, cache)
                 | Inr tx_config \<Rightarrow>
                     (case api_get_transaction client signature tx_config of
                        Some (Ok tx) \<Rightarrow>
                          (case tx_to_value L tx of
                             Inr tx_v \<Rightarrow>
                               (Some (Ok (create_sol_response None i (Some tx_v))), cache_insert cache_key tx_v cache)
                           | Inl e \<Rightarrow> (Some (Panic UnwrapFailed), cache))
                      | r \<Rightarrow> (respond_with (tx_to_value L) i r, cache)))
           in case cache_get cache cache_key of
                None \<Rightarrow> fetch cache
              | Some tx_v \<Rightarrow>
                  (case de_tx L tx_v of
                     Inr tx \<Rightarrow> (respond_with (tx_to_value L) i (Some (Ok tx)), cache)
                   | Inl _ \<Rightarrow> fetch (cache_remove cache_key cache))))"

definition handle_sol_request ::
    "'v serde \<Rightarrow> ('v, 'pk, 'sg, 'tx, 'acct, 'si, 'ctx, 'cc, 'cacct, 'cpa) sol_libs
      \<Rightarrow> ('pk, 'sg, 'tx, 'acct, 'si, 'ctx, 'cc, 'cacct, 'cpa) sol_api \<Rightarrow> 'v sol_req
      \<Rightarrow> (bytes, 'v) simple_cache \<Rightarrow> 'v sol_resp panicky option \<times> (bytes, 'v) simple_cache" where
  "handle_sol_request J L client req cache =
     (let i = sol_req_id req in
      case as_array J (sol_req_params req) of
        None \<Rightarrow> (refuse i ''Invalid params type, an array is required'', cache)
      | Some params \<Rightarrow>
          (case sol_method_try_from (sol_req_method req) of
             Inl err \<Rightarrow> (refuse i err, cache)
           | Inr MGetTransaction \<Rightarrow> handle_get_transaction J L client params i cache
           | Inr MGetSlot \<Rightarrow> (handle_get_slot J L client params i, cache)
           | Inr MGetAccountInfo \<Rightarrow> (handle_get_account J L client params i, cache)
           | Inr MGetSignaturesForAddress \<Rightarrow> (handle_get_signatures_for_address J L client params i, cache)
           | Inr MGetProgramAccounts \<Rightarrow> (handle_get_program_accounts J L client params i, cache)))"

definition convert_sol_resp ::
    "('v, 'pk, 'sg, 'tx, 'acct, 'si, 'ctx, 'cc, 'cacct, 'cpa) sol_libs \<Rightarrow> 'v sol_resp \<Rightarrow> string panicky" where
  "convert_sol_resp L r =
     (case sol_resp_error r of
        None \<Rightarrow>
          unwrap_res (ser_sol_ok L \<lparr>sol_ok_jsonrpc = sol_resp_jsonrpc r, sol_ok_id = sol_resp_id r,
                                    sol_ok_result = sol_resp_result r\<rparr>)
      | Some message \<Rightarrow>
          unwrap_res (ser_sol_err L \<lparr>sol_err_jsonrpc = sol_resp_jsonrpc r,
                                     sol_err_error = \<lparr>sol_code = -999, sol_message = message, sol_data = None\<rparr>,
                                     sol_err_id = sol_resp_id r\<rparr>))"

definition sol_convert ::
    "('v, 'pk, 'sg, 'tx, 'acct, 'si, 'ctx, 'cc, 'cacct, 'cpa) sol_libs \<Rightarrow> 'v sol_resp list \<Rightarrow> string list panicky" where
  "sol_convert L inputs = try_map (convert_sol_resp L) inputs"

text \<open>The route: the client is unwrapped, the response is signed.\<close>

definition sol_route ::
    "'v serde \<Rightarrow> ('v, 'pk, 'sg, 'tx, 'acct, 'si, 'ctx, 'cc, 'cacct, 'cpa) sol_libs
      \<Rightarrow> ('pk, 'sg, 'tx, 'acct, 'si, 'ctx, 'cc, 'cacct, 'cpa) sol_api option \<Rightarrow> 'v sol_req
      \<Rightarrow> (bytes, 'v) simple_cache \<Rightarrow> string panicky option \<times> (bytes, 'v) simple_cache" where
  "sol_route J L sol_client payload cache =
     (case sol_client of
        None \<Rightarrow> (Some (Panic UnwrapFailed), cache)
      | Some client \<Rightarrow>
          (let (r, cache') = handle_sol_request J L client payload cache in
           (map_option (\<lambda>r. and_then r (\<lambda>resp. and_then (sol_convert L [resp]) (\<lambda>texts. Ok (sol_enclave L (texts ! 0))))) r,
            cache')))"

subsection \<open>The calls of \<open>SolClient\<close>\<close>

definition sol_api_of ::
    "('tx, 'acct, 'si, 'pk \<times> 'acct) sol_env \<Rightarrow> ('sg \<Rightarrow> string) \<Rightarrow> (u64 \<Rightarrow> string) \<Rightarrow> ('si \<Rightarrow> string)
      \<Rightarrow> (string \<Rightarrow> 'sg option) \<Rightarrow> ('pk, 'sg, 'tx, 'acct, 'si, 'ctx, 'cc, 'cacct, 'cpa) rpc_client
      \<Rightarrow> (('pk, 'sg, 'ctx, 'cc, 'cacct, 'cpa) task_event \<Rightarrow> ('tx, 'acct, 'si, 'pk \<times> 'acct) response_event reply)
      \<Rightarrow> ('pk, 'sg, 'tx, 'acct, 'si, 'ctx, 'cc, 'cacct, 'cpa) sol_api" where
  "sol_api_of E show_sg show_slot signature_of from_str judge ask = \<lparr>
     api_get_transaction = get_transaction show_sg judge ask,
     api_get_slot = get_slot show_slot judge ask,
     api_get_account_info = get_account_info judge ask,
     api_get_signatures_for_address = get_signatures_for_address E signature_of from_str judge ask,
     api_get_program_accounts = get_program_accounts E judge ask\<rparr>"

subsection \<open>What the handlers do\<close>

text \<open>A response to the request \<open>i\<close>: either a result or an error.\<close>

definition sol_answers :: "'v \<Rightarrow> 'v sol_resp \<Rightarrow> bool" where
  "sol_answers i r \<longleftrightarrow> sol_resp_id r = i \<and> (sol_resp_error r = None \<longleftrightarrow> sol_resp_result r \<noteq> None)"

lemma sol_answers_simps [simp]:
  "sol_answers i (create_sol_response (Some e) j None) \<longleftrightarrow> j = i"
  "sol_answers i (create_sol_response None j (Some v)) \<longleftrightarrow> j = i"
  by (simp_all add: sol_answers_def create_sol_response_def)

lemma sol_result [simp]: "sol_resp_result (create_sol_response e i r) = r"
  by (simp add: create_sol_response_def)

text \<open>The encoders succeed; a transaction survives encoding; a call returns without a panic.\<close>

definition sol_libs_ok :: "('v, 'pk, 'sg, 'tx, 'acct, 'si, 'ctx, 'cc, 'cacct, 'cpa) sol_libs \<Rightarrow> bool" where
  "sol_libs_ok L \<longleftrightarrow>
     (\<forall>x. \<exists>v. tx_to_value L x = Inr v \<and> de_tx L v = Inr x) \<and> (\<forall>x. \<exists>v. account_to_value L x = Inr v) \<and>
     (\<forall>x. \<exists>v. program_accounts_to_value L x = Inr v) \<and> (\<forall>x. \<exists>v. signatures_to_value L x = Inr v) \<and>
     inj (signature_bytes L)"

definition returns :: "(sol_client_error, 'a) outcome option \<Rightarrow> bool" where
  "returns r \<longleftrightarrow> (\<exists>a. r = Some (Ok a)) \<or> (\<exists>e. r = Some (Err e))"

lemma respond_with_effect:
  assumes "\<forall>x. \<exists>v. to_value x = Inr v"
  shows "respond_with to_value i r = Some (Ok resp) \<Longrightarrow> sol_answers i resp"
    and "returns r \<Longrightarrow> \<exists>resp. respond_with to_value i r = Some (Ok resp)"
proof -
  obtain f where f: "\<And>x. to_value x = Inr (f x)" using assms by metis
  show "respond_with to_value i r = Some (Ok resp) \<Longrightarrow> sol_answers i resp"
    by (auto simp: respond_with_def f split: option.splits outcome.splits)
  show "returns r \<Longrightarrow> \<exists>resp. respond_with to_value i r = Some (Ok resp)"
    by (auto simp: respond_with_def returns_def f)
qed

lemma refuse_answers: "refuse i e = Some (Ok resp) \<Longrightarrow> sol_answers i resp"
  by (auto simp: refuse_def)

text \<open>
  \<open>v\<close> is the JSON form of a transaction the client's call returned for the signature with the bytes
  \<open>k\<close>.
\<close>

definition checked_tx ::
    "('v, 'pk, 'sg, 'tx, 'acct, 'si, 'ctx, 'cc, 'cacct, 'cpa) sol_libs
      \<Rightarrow> ('pk, 'sg, 'tx, 'acct, 'si, 'ctx, 'cc, 'cacct, 'cpa) sol_api \<Rightarrow> bytes \<Rightarrow> 'v \<Rightarrow> bool" where
  "checked_tx L client k v \<longleftrightarrow>
     (\<exists>sig config tx. signature_bytes L sig = k \<and> api_get_transaction client sig config = Some (Ok tx) \<and>
        tx_to_value L tx = Inr v)"

text \<open>\<open>v\<close> is the JSON form of the transaction that the entry \<open>w\<close> of the cache decodes to.\<close>

definition cached_tx ::
    "('v, 'pk, 'sg, 'tx, 'acct, 'si, 'ctx, 'cc, 'cacct, 'cpa) sol_libs
      \<Rightarrow> (bytes, 'v) simple_cache \<Rightarrow> bytes \<Rightarrow> 'v \<Rightarrow> bool" where
  "cached_tx L cache k v \<longleftrightarrow> (\<exists>w tx. cache_get cache k = Some w \<and> de_tx L w = Inr tx \<and> tx_to_value L tx = Inr v)"

lemma fetch_transaction_effect:
  assumes "sol_libs_ok L" and "cache_inv c" and "coherent cache_get P c"
    and P: "\<forall>k v. checked_tx L client k v \<longrightarrow> P k v"
    and run: "(case config_param ''RpcTransactionConfig'' (de_tx_config L) 1 params of
        Inl e \<Rightarrow> (refuse i e, c)
      | Inr tx_config \<Rightarrow>
          (case api_get_transaction client sig tx_config of
             Some (Ok tx) \<Rightarrow>
               (case tx_to_value L tx of
                  Inr tx_v \<Rightarrow>
                    (Some (Ok (create_sol_response None i (Some tx_v))), cache_insert (signature_bytes L sig) tx_v c)
                | Inl e \<Rightarrow> (Some (Panic UnwrapFailed), c))
           | r \<Rightarrow> (respond_with (tx_to_value L) i r, c))) = (r, cache')"
  shows "cache_inv cache' \<and> coherent cache_get P cache' \<and>
    (\<forall>resp. r = Some (Ok resp) \<longrightarrow> sol_answers i resp \<and>
       (\<forall>v. sol_resp_result resp = Some v \<longrightarrow> checked_tx L client (signature_bytes L sig) v))"
proof (cases "config_param ''RpcTransactionConfig'' (de_tx_config L) 1 params")
  case (Inl e)
  with run assms(2,3) show ?thesis by (auto simp: refuse_def)
next
  case config: (Inr tx_config)
  consider tx where "api_get_transaction client sig tx_config = Some (Ok tx)"
    | "api_get_transaction client sig tx_config = None"
    | e where "api_get_transaction client sig tx_config = Some (Err e)"
    | p where "api_get_transaction client sig tx_config = Some (Panic p)"
    by (metis not_None_eq outcome.exhaust)
  then show ?thesis
  proof cases
    case (1 tx)
    obtain tx_v where tx_v: "tx_to_value L tx = Inr tx_v" using assms(1) unfolding sol_libs_ok_def by metis
    with 1 have checked: "checked_tx L client (signature_bytes L sig) tx_v" by (auto simp: checked_tx_def)
    from run config 1 tx_v have "r = Some (Ok (create_sol_response None i (Some tx_v)))"
      "cache' = cache_insert (signature_bytes L sig) tx_v c" by simp_all
    with checked P show ?thesis
      using sc.good_store[OF assms(2)] sc.coherent_store[OF assms(2,3)] by simp
  qed (use run config assms(2,3) in \<open>auto simp: respond_with_def\<close>)
qed

text \<open>
  A transaction that is answered was returned by the client, or it is what the entry under the
  bytes of the signature decodes to. An entry that does not decode is dropped.
\<close>

lemma handle_get_transaction_effect:
  assumes "sol_libs_ok L" and "cache_inv cache" and "coherent cache_get P cache"
    and P: "\<forall>k v. checked_tx L client k v \<longrightarrow> P k v"
    and run: "handle_get_transaction J L client params i cache = (r, cache')"
  shows "cache_inv cache' \<and> coherent cache_get P cache' \<and>
    (\<forall>resp. r = Some (Ok resp) \<longrightarrow> sol_answers i resp \<and>
       (\<forall>sig v. first_param J ''signature'' (signature_from_str L) params = Inr sig \<and> sol_resp_result resp = Some v \<longrightarrow>
          checked_tx L client (signature_bytes L sig) v \<or> cached_tx L cache (signature_bytes L sig) v))"
proof (cases "first_param J ''signature'' (signature_from_str L) params")
  case (Inl e)
  with run assms(2,3) show ?thesis by (auto simp: handle_get_transaction_def refuse_def)
next
  case (Inr sig)
  let ?key = "signature_bytes L sig"
  note fetch = fetch_transaction_effect[OF assms(1) _ _ P]
  show ?thesis
  proof (cases "cache_get cache ?key")
    case None
    with run Inr fetch[OF assms(2,3)] show ?thesis
      unfolding handle_get_transaction_def by (fastforce simp: Let_def)
  next
    case (Some w)
    show ?thesis
    proof (cases "de_tx L w")
      case undecodable: (Inl e)
      have "cache_inv (cache_remove ?key cache)" "coherent cache_get P (cache_remove ?key cache)"
        using sc.good_discard[OF assms(2)] sc.coherent_discard[OF assms(2,3)] by simp_all
      from run Inr Some undecodable fetch[OF this] show ?thesis
        unfolding handle_get_transaction_def by (fastforce simp: Let_def)
    next
      case decoded: (Inr tx)
      obtain tx_v where tx_v: "tx_to_value L tx = Inr tx_v" using assms(1) unfolding sol_libs_ok_def by metis
      with Some decoded have "cached_tx L cache ?key tx_v" by (auto simp: cached_tx_def)
      moreover from run Inr Some decoded tx_v have "r = Some (Ok (create_sol_response None i (Some tx_v)))" "cache' = cache"
        by (simp_all add: handle_get_transaction_def respond_with_def)
      ultimately show ?thesis using Inr assms(2,3) by simp
    qed
  qed
qed

lemma handlers_answer:
  assumes "sol_libs_ok L"
  shows "handle_get_slot J L client params i = Some (Ok r) \<Longrightarrow> sol_answers i r"
    and "handle_get_account J L client params i = Some (Ok r) \<Longrightarrow> sol_answers i r"
    and "handle_get_signatures_for_address J L client params i = Some (Ok r) \<Longrightarrow> sol_answers i r"
    and "handle_get_program_accounts J L client params i = Some (Ok r) \<Longrightarrow> sol_answers i r"
proof -
  have enc: "\<forall>x. \<exists>v. account_to_value L x = Inr v" "\<forall>x. \<exists>v. program_accounts_to_value L x = Inr v"
    "\<forall>x. \<exists>v. signatures_to_value L x = Inr v" "\<forall>x. \<exists>v. (\<lambda>slot. Inr (of_u64 J slot)) x = Inr v"
    using assms by (simp_all add: sol_libs_ok_def)
  note answer = respond_with_effect(1)[OF enc(1)] respond_with_effect(1)[OF enc(2)]
    respond_with_effect(1)[OF enc(3)] respond_with_effect(1)[OF enc(4)] refuse_answers
  show "handle_get_slot J L client params i = Some (Ok r) \<Longrightarrow> sol_answers i r"
    by (auto simp: handle_get_slot_def split: sum.splits dest: answer)
  show "handle_get_account J L client params i = Some (Ok r) \<Longrightarrow> sol_answers i r"
    by (auto simp: handle_get_account_def split: sum.splits dest: answer)
  show "handle_get_signatures_for_address J L client params i = Some (Ok r) \<Longrightarrow> sol_answers i r"
    by (auto simp: handle_get_signatures_for_address_def split: sum.splits dest: answer)
  show "handle_get_program_accounts J L client params i = Some (Ok r) \<Longrightarrow> sol_answers i r"
    by (auto simp: handle_get_program_accounts_def split: sum.splits dest: answer)
qed

text \<open>Whatever the request, the cache receives the JSON form of a transaction or loses an entry.\<close>

definition tx_cached ::
    "('v, 'pk, 'sg, 'tx, 'acct, 'si, 'ctx, 'cc, 'cacct, 'cpa) sol_libs
      \<Rightarrow> (bytes, 'v) simple_cache \<Rightarrow> (bytes, 'v) simple_cache \<Rightarrow> bool" where
  "tx_cached L c c' \<longleftrightarrow>
     (\<exists>c1 k. (c1 = c \<or> c1 = cache_remove k c) \<and>
        (c' = c1 \<or> (\<exists>k tx v. tx_to_value L tx = Inr v \<and> c' = cache_insert k v c1)))"

lemma tx_cached_refl [simp]: "tx_cached L c c" "tx_cached L c (cache_remove k c)"
  unfolding tx_cached_def by blast+

lemma tx_cached_insert:
  "tx_to_value L tx = Inr v \<Longrightarrow> tx_cached L c (cache_insert k v c)"
  "tx_to_value L tx = Inr v \<Longrightarrow> tx_cached L c (cache_insert k v (cache_remove k' c))"
  unfolding tx_cached_def by blast+

lemma fetch_tx_cached:
  assumes "(case p of Inl e \<Rightarrow> (refuse i e, c1)
      | Inr config \<Rightarrow>
          (case f config of
             Some (Ok tx) \<Rightarrow>
               (case tx_to_value L tx of
                  Inr tx_v \<Rightarrow> (Some (Ok (create_sol_response None i (Some tx_v))), cache_insert k tx_v c1)
                | Inl e \<Rightarrow> (Some (Panic UnwrapFailed), c1))
           | r \<Rightarrow> (respond_with g i r, c1))) = (r, c')"
  shows "c' = c1 \<or> (\<exists>tx v. tx_to_value L tx = Inr v \<and> c' = cache_insert k v c1)"
proof (cases p)
  case (Inr config)
  with assms show ?thesis
    by (cases "f config"; (simp; fail)?)
      (auto split: outcome.splits sum.splits)
qed (use assms in auto)

lemma route_tx_cached: "tx_cached L c (snd (sol_route J L client payload c))"
proof (cases client)
  case (Some api)
  obtain r c' where run: "handle_sol_request J L api payload c = (r, c')" by fastforce
  have "tx_cached L c c'"
  proof (cases "as_array J (sol_req_params payload)")
    case (Some params)
    show ?thesis
    proof (cases "sol_req_method payload = ''getTransaction''")
      case True
      with Some run have tx: "handle_get_transaction J L api params (sol_req_id payload) c = (r, c')"
        by (simp add: handle_sol_request_def sol_method_try_from_def)
      show ?thesis
      proof (cases "first_param J ''signature'' (signature_from_str L) params")
        case (Inr sig)
        show ?thesis
        proof (cases "cache_get c (signature_bytes L sig)")
          case None
          with tx Inr show ?thesis
            by (auto simp: handle_get_transaction_def Let_def dest!: fetch_tx_cached intro: tx_cached_insert)
        next
          case (Some tx_v)
          with tx Inr show ?thesis
            by (cases "de_tx L tx_v")
              (auto simp: handle_get_transaction_def Let_def dest!: fetch_tx_cached intro: tx_cached_insert)
        qed
      qed (use tx in \<open>simp add: handle_get_transaction_def\<close>)
    qed (use Some run in \<open>auto simp: handle_sol_request_def sol_method_try_from_def split: if_splits\<close>)
  qed (use run in \<open>simp add: handle_sol_request_def\<close>)
  with Some run show ?thesis by (simp add: sol_route_def)
qed (simp add: sol_route_def)

subsection \<open>Concrete instances\<close>

definition sample_sol_libs ::
    "(json, string, bytes, string, u8, string, unit, unit, unit, unit) sol_libs" where
  "sample_sol_libs = \<lparr>
     pubkey_from_str = Inr, signature_from_str = (\<lambda>s. Inr (map (\<lambda>c. word_of_nat (of_char c)) s)),
     signature_bytes = (\<lambda>b. b),
     de_program_config = (\<lambda>_. Inr None), de_signatures_config = (\<lambda>_. Inr None),
     de_account_config = (\<lambda>_. Inr None), de_commitment = (\<lambda>_. Inr None),
     de_tx_config = (\<lambda>j. if j = JNull then Inr None else Inl ''bad config''),
     de_tx = (\<lambda>j. case j of JStr s \<Rightarrow> Inr s | _ \<Rightarrow> Inl ''no transaction''),
     tx_to_value = (\<lambda>s. Inr (JStr s)), account_to_value = (\<lambda>_. Inr JNull),
     program_accounts_to_value = (\<lambda>_. Inr JNull), signatures_to_value = (\<lambda>_. Inr JNull),
     ser_sol_ok = (\<lambda>_. Inr ''ok''), ser_sol_err = (\<lambda>_. Inr ''error''), sol_enclave = (\<lambda>s. s)\<rparr>"

lemma sample_sol_libs_ok: "sol_libs_ok sample_sol_libs"
  by (simp add: sol_libs_ok_def sample_sol_libs_def inj_def)

definition sample_judge :: "(string, bytes, string, u8, string, unit, unit, unit, unit) rpc_client" where
  "sample_judge = \<lparr>client_url = ''j'', rpc_transaction = constant_method ''tx'', rpc_slot = constant_method 7,
     rpc_account = \<lparr>get_account = (\<lambda>_ _. Inr 1), get_account_with_config = (\<lambda>_ _ _. Inr None)\<rparr>,
     rpc_signatures = constant_method [], rpc_program_accounts = constant_method []\<rparr>"

text \<open>An environment for transactions that are strings; the dispatcher confirms the judge's.\<close>

definition text_env :: "(string, u8, string, string \<times> u8) sol_env" where
  "text_env = \<lparr>
     order_u64 = rev, order_bytes = rev, order_string = rev, order_answers = rev,
     show_nat = (\<lambda>_. ''n''), tx_to_vec = (\<lambda>s. Some (map (\<lambda>c. word_of_nat (of_char c)) s)), tx_from_slice = (\<lambda>_. None),
     account_to_vec = (\<lambda>_. None), account_from_slice = (\<lambda>_. None),
     sig_ser = (\<lambda>s. s), sig_de = Some, pacc_ser = fst, pacc_de = (\<lambda>_. None),
     show_urls = concat, show_program_accounts = (\<lambda>_. ''[]''), show_signatures = (\<lambda>_. ''[]'')\<rparr>"

definition sample_api :: "(string, bytes, string, u8, string, unit, unit, unit, unit) sol_api" where
  "sample_api = sol_api_of text_env (\<lambda>_. ''sig'') (\<lambda>_. ''n'') (\<lambda>s. s) (\<lambda>_. None) sample_judge
     (\<lambda>_. Answered (RGetTransaction (Inr ''tx'')))"

definition tx_request :: "json list \<Rightarrow> json sol_req" where
  "tx_request params = \<lparr>sol_req_jsonrpc = ''2.0'', sol_req_method = ''getTransaction'', sol_req_params = JArr params,
     sol_req_id = JNum 1\<rparr>"

lemmas sample_sol_simps = sample_sol_libs_def sample_api_def sol_api_of_def sample_judge_def tx_request_def
  constant_method_def

subsection \<open>Properties\<close>

text \<open>
  C29: what the Solana route answers. A request that is answered at all gets one response with its
  id and either a result or an error. A transaction in the response was returned for the requested
  signature by the client's cross-checked call, so that the judge reported it and the dispatcher
  confirmed it, or it is what the entry decodes to that the cache held under the bytes of the
  signature when the request came. The cache is shared with the other routes, so nothing is assumed
  about its entries; those that the request adds are transactions the call returned.
\<close>

theorem sol_request_sound:
  assumes "sol_libs_ok L" and "client = sol_api_of E show_sg show_slot signature_of from_str judge ask"
    and "cache_inv cache"
    and "handle_sol_request J L client req cache = (Some (Ok r), cache')"
  shows "sol_answers (sol_req_id req) r \<and> cache_inv cache' \<and>
    (\<forall>k v. cache_get cache' k = Some v \<longrightarrow> cache_get cache k = Some v \<or> checked_tx L client k v) \<and>
    (\<forall>params sig v. sol_req_method req = ''getTransaction'' \<and> as_array J (sol_req_params req) = Some params \<and>
       first_param J ''signature'' (signature_from_str L) params = Inr sig \<and> sol_resp_result r = Some v \<longrightarrow>
       (\<exists>tx config. tx_to_value L tx = Inr v \<and> ask_judge (rpc_transaction judge) sig config = Ok tx \<and>
          ask (GetTransaction sig config) = Answered (RGetTransaction (Inr tx))) \<or>
       cached_tx L cache (signature_bytes L sig) v)"
proof (cases "as_array J (sol_req_params req)")
  case None
  with assms(3,4) show ?thesis by (auto simp: handle_sol_request_def refuse_def)
next
  case (Some params)
  have inj: "inj (signature_bytes L)" using assms(1) by (simp add: sol_libs_ok_def)
  let ?P = "\<lambda>k v. cache_get cache k = Some v \<or> checked_tx L client k v"
  show ?thesis
  proof (cases "sol_req_method req = ''getTransaction''")
    case True
    with Some assms(4) have run: "handle_get_transaction J L client params (sol_req_id req) cache = (Some (Ok r), cache')"
      by (simp add: handle_sol_request_def sol_method_try_from_def)
    have "coherent cache_get ?P cache" by (simp add: coherent_def)
    from handle_get_transaction_effect[OF assms(1,3) this _ run] have
      eff: "cache_inv cache'" "coherent cache_get ?P cache'" "sol_answers (sol_req_id req) r"
      "\<And>sig v. first_param J ''signature'' (signature_from_str L) params = Inr sig \<Longrightarrow> sol_resp_result r = Some v \<Longrightarrow>
         checked_tx L client (signature_bytes L sig) v \<or> cached_tx L cache (signature_bytes L sig) v" by auto
    have call: "\<exists>tx config. tx_to_value L tx = Inr v \<and> ask_judge (rpc_transaction judge) sig config = Ok tx \<and>
          ask (GetTransaction sig config) = Answered (RGetTransaction (Inr tx))"
      if "checked_tx L client (signature_bytes L sig) v" for sig v
      using that injD[OF inj]
      by (auto simp: checked_tx_def assms(2) sol_api_of_def get_transaction_Ok)
    have "(\<exists>tx config. tx_to_value L tx = Inr v \<and> ask_judge (rpc_transaction judge) sig config = Ok tx \<and>
          ask (GetTransaction sig config) = Answered (RGetTransaction (Inr tx))) \<or>
        cached_tx L cache (signature_bytes L sig) v"
      if "first_param J ''signature'' (signature_from_str L) params = Inr sig" "sol_resp_result r = Some v" for sig v
      using eff(4)[OF that] call by blast
    with eff(1,3) eff(2)[unfolded coherent_def] Some show ?thesis by simp
  next
    case False
    then have "cache' = cache \<and> sol_answers (sol_req_id req) r"
      using Some assms(4) handlers_answer[OF assms(1)]
      by (auto simp: handle_sol_request_def sol_method_try_from_def Let_def refuse_def split: if_splits)
    with False assms(3) show ?thesis by simp
  qed
qed

theorem sol_request_sound_witness:
  "sol_answers (JNum 1) (create_sol_response None (JNum 1) (Some (JStr ''tx''))) \<and>
    (\<exists>tx config. tx_to_value sample_sol_libs tx = Inr (JStr ''tx'') \<and>
       ask_judge (rpc_transaction sample_judge) [115] config = Ok tx)"
proof -
  let ?r = "create_sol_response None (JNum 1) (Some (JStr ''tx''))"
  let ?c = "cache_new 2 :: (bytes, json) simple_cache"
  let ?c' = "cache_insert [115] (JStr ''tx'') ?c"
  have run: "handle_sol_request json_serde sample_sol_libs sample_api (tx_request [JStr ''s'']) ?c = (Some (Ok ?r), ?c')"
    by (simp add: handle_sol_request_def handle_get_transaction_def sol_method_try_from_def sample_sol_simps
        json_serde_def cache_get_def cache_new_def get_transaction_def ask_judge_def first_param_def config_param_def)
  have none: "\<not> cached_tx sample_sol_libs ?c k v" for k v by (simp add: cached_tx_def cache_get_def cache_new_def)
  have "first_param json_serde ''signature'' (signature_from_str sample_sol_libs) [JStr ''s''] = Inr [115]"
    by (simp add: first_param_def sample_sol_libs_def json_serde_def)
  moreover have "as_array json_serde (sol_req_params (tx_request [JStr ''s''])) = Some [JStr ''s'']"
    "sol_req_method (tx_request [JStr ''s'']) = ''getTransaction''"
    by (simp_all add: tx_request_def json_serde_def)
  ultimately show ?thesis
    using sol_request_sound[OF sample_sol_libs_ok sample_api_def cache_inv_new run] none by auto
qed

text \<open>
  the cache key forgets the configuration. Once a transaction has been answered, a later request
  for the same signature gets that answer whatever its configuration says - another encoding, or one
  that cannot even be decoded - and the client is not asked.
\<close>

theorem cached_transaction_ignores_config:
  assumes "sol_libs_ok L" and "cache_inv cache"
    and "as_str J p0 = Some s" and "signature_from_str L s = Inr sig"
    and "cache_get cache (signature_bytes L sig) = None"
    and "api_get_transaction client sig None = Some (Ok tx)" and "tx_to_value L tx = Inr v"
  shows "\<exists>cache'. handle_get_transaction J L client [p0] i cache =
      (Some (Ok (create_sol_response None i (Some v))), cache') \<and>
    (\<forall>client' p1 j. handle_get_transaction J L client' [p0, p1] j cache' =
      (Some (Ok (create_sol_response None j (Some v))), cache'))"
proof -
  let ?c = "cache_insert (signature_bytes L sig) v cache"
  have "handle_get_transaction J L client [p0] i cache = (Some (Ok (create_sol_response None i (Some v))), ?c)"
    using assms(3-7) by (simp add: handle_get_transaction_def first_param_def config_param_def)
  moreover have "cache_get ?c (signature_bytes L sig) = Some v" using assms(2) by (rule sc.lookup_store_same)
  moreover have "de_tx L v = Inr tx" using assms(1,7) unfolding sol_libs_ok_def by (metis sum.inject(2))
  ultimately show ?thesis
    using assms(3,4,7) by (simp add: handle_get_transaction_def first_param_def respond_with_def)
qed

theorem cached_transaction_ignores_config_witness:
  "\<exists>cache'. handle_get_transaction json_serde sample_sol_libs sample_api [JStr ''s''] (JNum 1) (cache_new 2) =
      (Some (Ok (create_sol_response None (JNum 1) (Some (JStr ''tx'')))), cache') \<and>
    (\<forall>client' p1 j. handle_get_transaction json_serde sample_sol_libs client' [JStr ''s'', p1] j cache' =
      (Some (Ok (create_sol_response None j (Some (JStr ''tx'')))), cache'))"
  by (rule cached_transaction_ignores_config[where s = "''s''" and sig = "[115]" and tx = "''tx''",
        OF sample_sol_libs_ok cache_inv_new])
    (simp_all add: sample_sol_simps json_serde_def cache_get_def cache_new_def get_transaction_def ask_judge_def)

end
