(* ===== verification/Server.thy ===== *)
theory Server
  imports Btc_Rpc Eth_Rpc Sol_Rpc
begin

text \<open>
  The HTTP server of \<open>src/src/server.rs\<close>: the middleware that refuses the routes of disabled
  services, the status and ping routes, the dispatch of a request to the handlers of the other
  theories on the shared state, and the runs of the server.

  Routing and body decoding are the web framework's: a request is given by its route and decoded
  body. Requests are served one at a time; each handler's effect on the shared state is a single
  operation on the cache or the daemon's message counter.
\<close>

subsection \<open>State\<close>

record network_type =
  net_btc :: network
  net_doge :: network

text \<open>
  The chains' state with the clients of the other chains and the synced headers, and with the
  settings that the server adds to it.
\<close>

record ('hdr, 'v, 'flt, 'lg, 'bl, 'rc, 'sl) shared_state =
  chain_state :: "('hdr, 'v) chains_state"
  helios_client :: "('flt, 'lg, 'bl, 'rc) helios option"
  helios_op_client :: "('flt, 'lg, 'bl, 'rc) helios option"
  solana_client :: "'sl option"
  store_headers :: header_list

record ('hdr, 'v, 'flt, 'lg, 'bl, 'rc, 'sl) app_state = "('hdr, 'v, 'flt, 'lg, 'bl, 'rc, 'sl) shared_state" +
  app_sgx :: bool
  app_network :: network_type
  app_service :: service

record sync_status =
  p2p_btc_height :: u64
  rpc_btc_tip :: u64
  lightclient_eth_height :: u64
  p2p_doge_height :: u64
  lightclient_op_height :: u64
  btc_chainid :: u64
  eth_chainid :: u64
  doge_chainid :: u64
  op_chainid :: u64

subsection \<open>Status and ping\<close>

definition p2p_height :: "bool \<Rightarrow> 'hdr p2p option \<Rightarrow> u64 panicky" where
  "p2p_height enabled handle =
     (if enabled
      then and_then (unwrap_opt handle)
             (\<lambda>h. Ok (case p2p_get_tip h of Inr (n, _) \<Rightarrow> of_nat n | Inl _ \<Rightarrow> 0))
      else Ok 0)"

text \<open>The height is the lowest of the four limbs of the block number.\<close>

definition lightclient_height :: "bool \<Rightarrow> ('flt, 'lg, 'bl, 'rc) helios option \<Rightarrow> (u64 \<times> u64) panicky" where
  "lightclient_height enabled client =
     (if enabled
      then and_then (unwrap_opt client)
             (\<lambda>c. Ok (case client_get_block_number c of Inr n \<Rightarrow> ucast n | Inl _ \<Rightarrow> 0, client_chain_id c))
      else Ok (0, 0))"

definition status :: "('hdr, 'v, 'flt, 'lg, 'bl, 'rc, 'sl) app_state \<Rightarrow> sync_status panicky" where
  "status s =
     (let btc_id = (case net_btc (app_network s) of Bitcoin \<Rightarrow> 0xa0898816 | Testnet \<Rightarrow> 0x10340fc0 | _ \<Rightarrow> 0);
          doge_id = (case net_doge (app_network s) of
                       DogecoinMainnet \<Rightarrow> 0xad6c4d97 | DogecoinTestnet \<Rightarrow> 0x343b2383 | _ \<Rightarrow> 0)
      in and_then (p2p_height (btc (app_service s)) (btc_handle (chain_state s))) (\<lambda>btc_height.
         and_then (p2p_height (doge (app_service s)) (doge_handle (chain_state s))) (\<lambda>doge_height.
         and_then (lightclient_height (eth (app_service s)) (helios_client s)) (\<lambda>(eth_height, eth_id).
         and_then (lightclient_height (op (app_service s)) (helios_op_client s)) (\<lambda>(op_height, op_id).
           Ok \<lparr>p2p_btc_height = btc_height, rpc_btc_tip = 0, lightclient_eth_height = eth_height,
               p2p_doge_height = doge_height, lightclient_op_height = op_height, btc_chainid = btc_id,
               eth_chainid = eth_id, doge_chainid = doge_id, op_chainid = op_id\<rparr>)))))"

text \<open>What the ping route prints.\<close>

record ping_info =
  ping_str :: string
  ping_sgx :: bool
  ping_p2p_height :: nat
  ping_p2p_tip :: block_hash
  ping_rpc_tip :: block_hash
  ping_doge_height :: nat

definition ping ::
    "('p, 'hdr, 'v) spv_libs \<Rightarrow> string \<Rightarrow> ('hdr, 'v, 'flt, 'lg, 'bl, 'rc, 'sl) app_state \<Rightarrow> ping_info panicky" where
  "ping L str s =
     and_then (unwrap_opt (btc_handle (chain_state s))) (\<lambda>handle.
     and_then (unwrap_res (p2p_get_tip handle)) (\<lambda>(height, tip).
     and_then (tip_of (store_headers s)) (\<lambda>rpc_tip.
     and_then (unwrap_opt (doge_handle (chain_state s))) (\<lambda>doge_handle.
     and_then (unwrap_res (p2p_get_tip doge_handle)) (\<lambda>(doge_height, _).
       Ok \<lparr>ping_str = str, ping_sgx = app_sgx s, ping_p2p_height = height, ping_p2p_tip = old_hash_of L tip,
           ping_rpc_tip = rpc_tip, ping_doge_height = doge_height\<rparr>)))))"

subsection \<open>The middleware\<close>

definition is_service_enabled :: "service \<Rightarrow> string \<Rightarrow> bool" where
  "is_service_enabled service path =
     (if contains path ''/verify_tx_doge'' then doge service
      else if contains path ''/verify_tx'' \<and> \<not> contains path ''/verify_tx_doge'' then btc service
      else if path = ''/btc'' then btc service
      else if path = ''/doge'' then doge service
      else if path = ''/eth'' then eth service
      else if path = ''/eth2'' then eth service
      else if path = ''/optimism'' then op service
      else if path = ''/sol'' then sol service
      else path = ''/status'')"

subsection \<open>Requests\<close>

datatype 'v route_request =
    Status
  | VerifyTx string
  | VerifyTxDoge string
  | Ping string
  | Btc "'v list"
  | Doge "'v list"
  | Eth "'v eth_req list"
  | Eth2 "'v eth_req"
  | Optimism "'v eth_req"
  | Sol "'v sol_req"

fun path_of :: "'v route_request \<Rightarrow> string" where
  "path_of Status = ''/status''"
| "path_of (VerifyTx txid) = ''/verify_tx/'' @ txid"
| "path_of (VerifyTxDoge txid) = ''/verify_tx_doge/'' @ txid"
| "path_of (Ping str) = ''/ping/'' @ str"
| "path_of (Btc _) = ''/btc''"
| "path_of (Doge _) = ''/doge''"
| "path_of (Eth _) = ''/eth''"
| "path_of (Eth2 _) = ''/eth2''"
| "path_of (Optimism _) = ''/optimism''"
| "path_of (Sol _) = ''/sol''"

text \<open>
  What the handlers are built from besides the state: the crates of each part, the node's RPC, the
  text forms of the status, of ping and of an error.
\<close>

record ('p, 'hdr, 'v, 'flt, 'lg, 'bl, 'rc, 'pk, 'sg, 'tx, 'acct, 'si, 'ctx, 'cc, 'cacct, 'cpa) server_libs =
  lib_json :: "'v serde"
  lib_codec :: "'p codec"
  lib_spv :: "('p, 'hdr, 'v) spv_libs"
  lib_btc :: "'v btc_libs"
  lib_eth :: "('v, 'flt, 'lg, 'bl, 'rc) eth_libs"
  lib_sol :: "('v, 'pk, 'sg, 'tx, 'acct, 'si, 'ctx, 'cc, 'cacct, 'cpa) sol_libs"
  lib_rpc :: "merkle_proof_param_chain \<Rightarrow> 'v \<Rightarrow> (string, 'v) outcome"
  lib_txid :: "string \<Rightarrow> string + block_hash"
  lib_show_error :: "'v verify_error \<Rightarrow> string"
  lib_show_status :: "sync_status \<Rightarrow> string"
  lib_show_ping :: "ping_info \<Rightarrow> string"

text \<open>An action on the response cache as one on the whole state.\<close>

definition on_cache ::
    "((bytes, 'v) simple_cache \<Rightarrow> 'r \<times> (bytes, 'v) simple_cache)
      \<Rightarrow> ('hdr, 'v, 'flt, 'lg, 'bl, 'rc, 'sl) app_state \<Rightarrow> 'r \<times> ('hdr, 'v, 'flt, 'lg, 'bl, 'rc, 'sl) app_state" where
  "on_cache m s =
     (let (r, c) = m (response_cache (chain_state s))
      in (r, s\<lparr>chain_state := chain_state s\<lparr>response_cache := c\<rparr>\<rparr>))"

definition on_chains ::
    "(('hdr, 'v) chains_state \<Rightarrow> 'r \<times> ('hdr, 'v) chains_state)
      \<Rightarrow> ('hdr, 'v, 'flt, 'lg, 'bl, 'rc, 'sl) app_state \<Rightarrow> 'r \<times> ('hdr, 'v, 'flt, 'lg, 'bl, 'rc, 'sl) app_state" where
  "on_chains m s = (let (r, cs) = m (chain_state s) in (r, s\<lparr>chain_state := cs\<rparr>))"

text \<open>The result of a request: \<open>None\<close> when it is never answered.\<close>

fun handle ::
    "('p, 'hdr, 'v, 'flt, 'lg, 'bl, 'rc, 'pk, 'sg, 'tx, 'acct, 'si, 'ctx, 'cc, 'cacct, 'cpa) server_libs
      \<Rightarrow> 'v route_request
      \<Rightarrow> ('hdr, 'v, 'flt, 'lg, 'bl, 'rc, ('pk, 'sg, 'tx, 'acct, 'si, 'ctx, 'cc, 'cacct, 'cpa) sol_api) app_state
      \<Rightarrow> string panicky option
         \<times> ('hdr, 'v, 'flt, 'lg, 'bl, 'rc, ('pk, 'sg, 'tx, 'acct, 'si, 'ctx, 'cc, 'cacct, 'cpa) sol_api) app_state" where
  "handle X Status s =
     (Some (and_then (status s) (\<lambda>st. Ok (sgx (lib_btc X) (lib_show_status X st)))), s)"
| "handle X (VerifyTx txid) s =
     apfst Some (on_chains (verify_tx (lib_json X) (lib_codec X) (lib_spv X) (lib_btc X) (lib_rpc X)
       (lib_txid X) (lib_show_error X) txid) s)"
| "handle X (VerifyTxDoge txid) s =
     apfst Some (on_chains (verify_tx_doge (lib_json X) (lib_codec X) (lib_spv X) (lib_btc X) (lib_rpc X)
       (lib_txid X) (lib_show_error X) txid) s)"
| "handle X (Ping str) s = (Some (and_then (ping (lib_spv X) str s) (\<lambda>p. Ok (lib_show_ping X p))), s)"
| "handle X (Btc payload) s =
     apfst Some (on_chains (btc_route (lib_json X) (lib_codec X) (lib_spv X) (lib_btc X) payload) s)"
| "handle X (Doge payload) s =
     apfst Some (on_chains (doge_route (lib_json X) (lib_codec X) (lib_spv X) (lib_btc X) payload) s)"
| "handle X (Eth payload) s =
     apfst Some (on_cache (eth_route (lib_json X) (lib_eth X) (helios_client s) payload) s)"
| "handle X (Eth2 payload) s = apfst Some (on_cache (eth2 (lib_json X) (lib_eth X) (helios_client s) payload) s)"
| "handle X (Optimism payload) s =
     apfst Some (on_cache (optimism (lib_json X) (lib_eth X) (helios_op_client s) payload) s)"
| "handle X (Sol payload) s = on_cache (sol_route (lib_json X) (lib_sol X) (solana_client s) payload) s"

datatype response = Unavailable | NoResponse | Body "string panicky"

definition middle_ware ::
    "('p, 'hdr, 'v, 'flt, 'lg, 'bl, 'rc, 'pk, 'sg, 'tx, 'acct, 'si, 'ctx, 'cc, 'cacct, 'cpa) server_libs
      \<Rightarrow> 'v route_request
      \<Rightarrow> ('hdr, 'v, 'flt, 'lg, 'bl, 'rc, ('pk, 'sg, 'tx, 'acct, 'si, 'ctx, 'cc, 'cacct, 'cpa) sol_api) app_state
      \<Rightarrow> response
         \<times> ('hdr, 'v, 'flt, 'lg, 'bl, 'rc, ('pk, 'sg, 'tx, 'acct, 'si, 'ctx, 'cc, 'cacct, 'cpa) sol_api) app_state" where
  "middle_ware X req s =
     (if is_service_enabled (app_service s) (path_of req)
      then (let (r, s') = handle X req s in (case r of None \<Rightarrow> NoResponse | Some b \<Rightarrow> Body b, s'))
      else (Unavailable, s))"

subsection \<open>Starting to serve\<close>

text \<open>
  \<open>start\<close>: build the state of the routes and bind the listener; \<open>run_server\<close> takes the settings
  from the configuration.
\<close>

definition start ::
    "(string \<Rightarrow> string + unit) \<Rightarrow> ('hdr, 'v, 'flt, 'lg, 'bl, 'rc, 'sl) shared_state \<Rightarrow> string \<Rightarrow> bool
      \<Rightarrow> network_type \<Rightarrow> service \<Rightarrow> ('hdr, 'v, 'flt, 'lg, 'bl, 'rc, 'sl) app_state panicky" where
  "start bind shared addr sgx_enabled networks service =
     (let state = \<lparr>chain_state = chain_state shared, helios_client = helios_client shared,
            helios_op_client = helios_op_client shared, solana_client = solana_client shared,
            store_headers = store_headers shared, app_sgx = sgx_enabled, app_network = networks,
            app_service = service\<rparr> in
      and_then (unwrap_res (bind addr)) (\<lambda>_. Ok state))"

definition run_server ::
    "(string \<Rightarrow> string + unit) \<Rightarrow> ('hdr, 'v, 'flt, 'lg, 'bl, 'rc, 'sl) shared_state \<Rightarrow> config
      \<Rightarrow> ('hdr, 'v, 'flt, 'lg, 'bl, 'rc, 'sl) app_state panicky" where
  "run_server bind shared config =
     (let cli = configcli config in
      start bind shared (cli_http_addr cli) (cli_sgx_enable cli)
        \<lparr>net_btc = cli_network_type cli, net_doge = cli_doge_network_type cli\<rparr> (config_service config))"

subsection \<open>Runs of the server\<close>

inductive server_step ::
    "('p, 'hdr, 'v, 'flt, 'lg, 'bl, 'rc, 'pk, 'sg, 'tx, 'acct, 'si, 'ctx, 'cc, 'cacct, 'cpa) server_libs
      \<Rightarrow> ('hdr, 'v, 'flt, 'lg, 'bl, 'rc, ('pk, 'sg, 'tx, 'acct, 'si, 'ctx, 'cc, 'cacct, 'cpa) sol_api) app_state
      \<Rightarrow> ('hdr, 'v, 'flt, 'lg, 'bl, 'rc, ('pk, 'sg, 'tx, 'acct, 'si, 'ctx, 'cc, 'cacct, 'cpa) sol_api) app_state
      \<Rightarrow> bool"
  for X where
  request: "middle_ware X req s = (r, s') \<Longrightarrow> server_step X s s'"

inductive_cases server_stepE: "server_step X s s'"

text \<open>What no request changes: the clients, and of the daemons all but the message counter.\<close>

definition same_clients ::
    "('hdr, 'v, 'flt, 'lg, 'bl, 'rc, 'sl) app_state \<Rightarrow> ('hdr, 'v, 'flt, 'lg, 'bl, 'rc, 'sl) app_state \<Rightarrow> bool" where
  "same_clients s t \<longleftrightarrow>
     helios_client t = helios_client s \<and> helios_op_client t = helios_op_client s \<and>
     solana_client t = solana_client s \<and> app_service t = app_service s \<and> app_network t = app_network s \<and>
     (\<forall>c. get_handle c (chain_state t) = get_handle c (chain_state s)) \<and>
     (\<forall>c. map_option endpoint (get_daemon c (chain_state t)) = map_option endpoint (get_daemon c (chain_state s)))"

lemma same_clients_refl [simp]: "same_clients s s"
  by (simp add: same_clients_def)

lemma same_clients_trans: "same_clients s t \<Longrightarrow> same_clients t u \<Longrightarrow> same_clients s u"
  by (simp add: same_clients_def)

lemma get_daemon_cache [simp]: "get_daemon c (cs\<lparr>response_cache := x\<rparr>) = get_daemon c cs"
  by (simp add: get_daemon_def split: merkle_proof_param_chain.split)

lemma set_daemon_clients [simp]:
  "get_handle c' (set_daemon c d cs) = get_handle c' cs"
  "served_header (set_daemon c d cs) = served_header cs"
  "response_cache (set_daemon c d cs) = response_cache cs"
  by (auto simp: set_daemon_def get_handle_def served_header_def fun_eq_iff split: merkle_proof_param_chain.split)

lemma get_set_daemon:
  "get_daemon c (set_daemon c d cs) = Some d"
  "c' \<noteq> c \<Longrightarrow> get_daemon c' (set_daemon c d cs) = get_daemon c' cs"
  by (auto simp: set_daemon_def get_daemon_def split: merkle_proof_param_chain.splits)

text \<open>The invariant of one request: \<open>Q\<close> is the part about the chains' state.\<close>

definition keeps ::
    "(('hdr, 'v) chains_state \<Rightarrow> bool) \<Rightarrow> ('hdr, 'v, 'flt, 'lg, 'bl, 'rc, 'sl) app_state
      \<Rightarrow> ('hdr, 'v, 'flt, 'lg, 'bl, 'rc, 'sl) app_state \<Rightarrow> bool" where
  "keeps Q s t \<longleftrightarrow> same_clients s t \<and> (Q (chain_state s) \<longrightarrow> Q (chain_state t))"

lemma keeps_cache:
  assumes "Q (chain_state s) \<Longrightarrow> Q (chain_state s\<lparr>response_cache := snd (m (response_cache (chain_state s)))\<rparr>)"
  shows "keeps Q s (snd (on_cache m s))"
  using assms by (simp add: keeps_def on_cache_def same_clients_def split_beta)

lemma keeps_chains:
  assumes "Q (chain_state s) \<Longrightarrow> Q (snd (m (chain_state s)))"
    and "\<And>c. get_handle c (snd (m (chain_state s))) = get_handle c (chain_state s)"
    and "\<And>c. map_option endpoint (get_daemon c (snd (m (chain_state s)))) = map_option endpoint (get_daemon c (chain_state s))"
  shows "keeps Q s (snd (on_chains m s))"
  using assms by (simp add: keeps_def on_chains_def same_clients_def split_beta)

lemma header_cached_clients:
  "header_cached L cs cs' \<Longrightarrow> get_handle c cs' = get_handle c cs \<and> get_daemon c cs' = get_daemon c cs"
  by (auto simp: header_cached_def)

lemma fetch_proof_effect:
  assumes "fetch_proof_and_verify J C L rpc param cs = (r, cs')"
  shows "cs' = cs \<or> (\<exists>d d'. get_daemon (chain param) cs = Some d \<and> endpoint d' = endpoint d \<and>
    header_cached L (set_daemon (chain param) d' cs) cs')"
proof (cases "get_daemon (chain param) cs")
  case (Some d)
  obtain r1 d' where g: "gettxoutproof J C (rpc (chain param)) param d = (r1, d')" by fastforce
  have e: "endpoint d' = endpoint d"
    using endpoint_gettxoutproof[of J C "rpc (chain param)" param d] g by simp
  show ?thesis
  proof (cases r1)
    case (Ok mb)
    with assms Some g have "verify_txid C L mb param (set_daemon (chain param) d' cs) = (r, cs')"
      by (simp add: fetch_proof_and_verify_def seq_def)
    with Some e show ?thesis using verify_txid_cached by blast
  qed (use assms Some g e in \<open>auto simp: fetch_proof_and_verify_def seq_def intro!: exI[of _ d']\<close>)
qed (use assms in \<open>auto simp: fetch_proof_and_verify_def seq_def\<close>)

text \<open>The JSON forms of receipts and Solana transactions are no headers.\<close>

definition foreign_values ::
    "('p, 'hdr, 'v, 'flt, 'lg, 'bl, 'rc, 'pk, 'sg, 'tx, 'acct, 'si, 'ctx, 'cc, 'cacct, 'cpa) server_libs \<Rightarrow> bool" where
  "foreign_values X \<longleftrightarrow>
     (\<forall>rc v x. receipt_to_value (lib_eth X) rc = Inr v \<longrightarrow> old_from_value (lib_spv X) v \<noteq> Inr x) \<and>
     (\<forall>tx v x. tx_to_value (lib_sol X) tx = Inr v \<longrightarrow> old_from_value (lib_spv X) v \<noteq> Inr x)"

lemma verify_transaction_state:
  obtains "snd (verify_transaction J C L B rpc from_str show_error txid c cs) = cs"
  | r param where "chain param = c"
      "fetch_proof_and_verify J C L rpc param cs =
        (r, snd (verify_transaction J C L B rpc from_str show_error txid c cs))"
proof (cases "parse_txid from_str txid :: (string, block_hash) outcome")
  case (Ok t)
  obtain r cs' where f: "fetch_proof_and_verify J C L rpc (merkle_proof_param_new [t] None c) cs = (r, cs')" by fastforce
  with Ok have "snd (verify_transaction J C L B rpc from_str show_error txid c cs) = cs'"
    by (cases r) (simp_all add: verify_transaction_def)
  with f that(2)[of "merkle_proof_param_new [t] None c" r] show thesis by (simp add: merkle_proof_param_new_def)
qed (use that(1) in \<open>simp_all add: verify_transaction_def\<close>)

lemma set_daemon_coherent: "cache_coherent L (set_daemon c d cs) \<longleftrightarrow> cache_coherent L cs"
  by (simp add: cache_coherent_def)

lemma verify_keeps:
  assumes "inj (hash_to_vec L)" and "\<And>y v. old_to_value L y = Inr v \<Longrightarrow> old_from_value L v = Inr y"
  shows "keeps (cache_coherent L) s (snd (on_chains (verify_transaction J C L B rpc from_str show_error txid c) s))"
proof -
  let ?cs = "chain_state s"
  let ?cs' = "snd (verify_transaction J C L B rpc from_str show_error txid c ?cs)"
  have "(cache_coherent L ?cs \<longrightarrow> cache_coherent L ?cs') \<and> (\<forall>k. get_handle k ?cs' = get_handle k ?cs) \<and>
      (\<forall>k. map_option endpoint (get_daemon k ?cs') = map_option endpoint (get_daemon k ?cs))"
  proof (cases rule: verify_transaction_state[of J C L B rpc from_str show_error txid c ?cs])
    case (2 r param)
    from fetch_proof_effect[OF 2(2)] show ?thesis
    proof (elim disjE exE conjE)
      fix d0 d assume d: "get_daemon (chain param) ?cs = Some d0" "endpoint d = endpoint d0"
        "header_cached L (set_daemon (chain param) d ?cs) ?cs'"
      from header_cached_clients[OF d(3)]
      have c: "get_handle k ?cs' = get_handle k ?cs" "get_daemon k ?cs' = get_daemon k (set_daemon (chain param) d ?cs)" for k
        by simp_all
      have "map_option endpoint (get_daemon k ?cs') = map_option endpoint (get_daemon k ?cs)" for k
        using d(1,2) by (cases "k = chain param") (simp_all add: c(2) get_set_daemon)
      moreover have "cache_coherent L ?cs'" if "cache_coherent L ?cs"
        using header_cached_coherent[OF d(3) _ assms] that by (simp add: set_daemon_coherent)
      ultimately show ?thesis using c(1) by blast
    qed simp
  qed simp
  then show ?thesis by (intro keeps_chains) simp_all
qed

lemma header_route_clients:
  "get_handle k (snd (header_route c J C L B payload cs)) = get_handle k cs"
  "get_daemon k (snd (header_route c J C L B payload cs)) = get_daemon k cs"
  by (simp_all add: header_route_def split_beta split: option.split)

lemma handle_keeps:
  assumes ok: "libs_ok (lib_json X) (lib_spv X) (lib_btc X)" and foreign: "foreign_values X"
  shows "keeps (cache_coherent (lib_spv X)) s (snd (handle X req s))"
proof -
  let ?Q = "\<lambda>c. cache_coherent (lib_spv X) (chain_state s\<lparr>response_cache := c\<rparr>)"
  have Q: "?Q (response_cache (chain_state s)) \<longleftrightarrow> cache_coherent (lib_spv X) (chain_state s)" by simp
  have eth: "?Q c'" if "?Q c" "receipt_cached (lib_eth X) c c'" for c c'
    using that foreign
    by (auto simp: receipt_cached_def foreign_values_def intro!: foreign_entry_coherent)
  have sol: "?Q c'" if "?Q c" "tx_cached (lib_sol X) c c'" for c c'
    using that foreign
    by (auto simp: tx_cached_def foreign_values_def intro!: foreign_entry_coherent removed_entry_coherent)
  note verify = verify_keeps[OF libs_okD(1)[OF ok] libs_okD(3)[OF ok]]
  show ?thesis
  proof (cases req)
    case (Btc payload)
    then show ?thesis
      by (auto intro!: keeps_chains header_route_coherent[OF ok] simp: btc_route_def header_route_clients)
  next
    case (Doge payload)
    then show ?thesis
      by (auto intro!: keeps_chains header_route_coherent[OF ok] simp: doge_route_def header_route_clients)
  next
    case (Eth payload)
    have "?Q (snd (eth_route (lib_json X) (lib_eth X) (helios_client s) payload (response_cache (chain_state s))))"
      if "cache_coherent (lib_spv X) (chain_state s)"
      by (rule routes_receipt_cached(1)[where Q = ?Q]) (use that Q eth in blast)+
    with Eth show ?thesis by (auto intro!: keeps_cache)
  next
    case (Eth2 payload)
    have "?Q (snd (eth2 (lib_json X) (lib_eth X) (helios_client s) payload (response_cache (chain_state s))))"
      if "cache_coherent (lib_spv X) (chain_state s)"
      by (rule routes_receipt_cached(2)[where Q = ?Q]) (use that Q eth in blast)+
    with Eth2 show ?thesis by (auto intro!: keeps_cache)
  next
    case (Optimism payload)
    have "?Q (snd (optimism (lib_json X) (lib_eth X) (helios_op_client s) payload (response_cache (chain_state s))))"
      if "cache_coherent (lib_spv X) (chain_state s)"
      by (rule routes_receipt_cached(3)[where Q = ?Q]) (use that Q eth in blast)+
    with Optimism show ?thesis by (auto intro!: keeps_cache)
  next
    case (Sol payload)
    have "?Q (snd (sol_route (lib_json X) (lib_sol X) (solana_client s) payload (response_cache (chain_state s))))"
      if "cache_coherent (lib_spv X) (chain_state s)"
      using that Q sol route_tx_cached by blast
    with Sol show ?thesis by (auto intro!: keeps_cache)
  qed (use verify in \<open>simp_all add: keeps_def verify_tx_def verify_tx_doge_def\<close>)
qed

lemma server_step_keeps:
  assumes "libs_ok (lib_json X) (lib_spv X) (lib_btc X)" and "foreign_values X" and "server_step X s t"
  shows "keeps (cache_coherent (lib_spv X)) s t"
proof -
  from assms(3) obtain req r where "middle_ware X req s = (r, t)" by (rule server_stepE)
  then have "t = s \<or> t = snd (handle X req s)"
    by (auto simp: middle_ware_def split_beta split: if_splits)
  with handle_keeps[OF assms(1,2)] show ?thesis by (auto simp: keeps_def)
qed

lemma server_run_keeps:
  assumes "libs_ok (lib_json X) (lib_spv X) (lib_btc X)" and "foreign_values X" and "(server_step X)\<^sup>*\<^sup>* s t"
  shows "keeps (cache_coherent (lib_spv X)) s t"
  using assms(3)
proof (induction rule: rtranclp_induct)
  case (step t u)
  with server_step_keeps[OF assms(1,2) step.hyps(2)] show ?case
    unfolding keeps_def using same_clients_trans by blast
qed (simp add: keeps_def)

subsection \<open>What start-up provides\<close>

definition clients_ready :: "('hdr, 'v, 'flt, 'lg, 'bl, 'rc, 'sl) app_state \<Rightarrow> bool" where
  "clients_ready s \<longleftrightarrow>
     (btc (app_service s) \<longrightarrow> get_handle BitCoin (chain_state s) \<noteq> None \<and> get_daemon BitCoin (chain_state s) \<noteq> None) \<and>
     (doge (app_service s) \<longrightarrow> get_handle DogeCoin (chain_state s) \<noteq> None \<and> get_daemon DogeCoin (chain_state s) \<noteq> None) \<and>
     (eth (app_service s) \<longrightarrow> helios_client s \<noteq> None) \<and> (op (app_service s) \<longrightarrow> helios_op_client s \<noteq> None) \<and>
     (sol (app_service s) \<longrightarrow> solana_client s \<noteq> None)"

lemma clients_ready_run: "keeps Q s t \<Longrightarrow> clients_ready s \<Longrightarrow> clients_ready t"
  by (auto simp: keeps_def same_clients_def clients_ready_def) (metis option.map_disc_iff option.exhaust)+

lemma empty_cache_coherent:
  "response_cache cs = cache_new n \<Longrightarrow> cache_coherent L cs"
  by (simp add: cache_coherent_def cache_inv_new) (simp add: coherent_def cache_get_def cache_new_def)

subsection \<open>Paths\<close>

lemma contains_Cons: "contains (c # s) p \<longleftrightarrow> prefix p (c # s) \<or> contains s p"
  by (auto simp: contains_def)

lemma contains_Nil: "contains [] p \<longleftrightarrow> p = []"
  by (simp add: contains_def)

lemma contains_slash: "CHR ''/'' \<notin> set s \<Longrightarrow> \<not> contains s (CHR ''/'' # p)"
  by (induction s) (auto simp: contains_Cons contains_Nil)

lemma ping_contains:
  assumes "CHR ''/'' \<notin> set str"
  shows "contains (''/ping/'' @ str) (CHR ''/'' # CHR ''v'' # p) \<longleftrightarrow> prefix (CHR ''v'' # p) str"
  using contains_slash[OF assms] by (simp add: contains_Cons)

lemmas enabled_simps = is_service_enabled_def contains_Cons contains_Nil

lemma fixed_paths [simp]:
  "is_service_enabled service ''/status''"
  "is_service_enabled service ''/btc'' \<longleftrightarrow> btc service"
  "is_service_enabled service ''/doge'' \<longleftrightarrow> doge service"
  "is_service_enabled service ''/eth'' \<longleftrightarrow> eth service"
  "is_service_enabled service ''/eth2'' \<longleftrightarrow> eth service"
  "is_service_enabled service ''/optimism'' \<longleftrightarrow> op service"
  "is_service_enabled service ''/sol'' \<longleftrightarrow> sol service"
  by (simp_all add: enabled_simps)

lemma status_ready: "clients_ready s \<Longrightarrow> \<exists>st. status s = Ok st"
  by (auto simp: status_def Let_def p2p_height_def lightclient_height_def clients_ready_def get_handle_def)

lemma header_route_total:
  assumes "\<forall>x. \<exists>v. old_to_value L x = Inr v" and "get_handle c cs \<noteq> None"
  shows "\<exists>text cs'. header_route c J C L B payload cs = (Ok text, cs')"
proof -
  obtain handle where h: "get_handle c cs = Some handle" using assms(2) by auto
  from handle_requests_effect[OF assms(1), of "\<lambda>_. True" "response_cache cs" J B handle C payload]
  obtain rs c' where "handle_requests J C L B handle payload (response_cache cs) = (Ok rs, c')" by auto
  with h show ?thesis by (simp add: header_route_def handle_fetch_header_def)
qed

subsection \<open>A concrete server\<close>

definition sample_server ::
    "(nat, block_header, json, string, string, string, string,
      string, bytes, string, u8, string, unit, unit, unit, unit) server_libs" where
  "sample_server = \<lparr>
     lib_json = json_serde, lib_codec = byte_codec, lib_spv = object_libs, lib_btc = sample_btc_libs,
     lib_eth = sample_eth_libs, lib_sol = sample_sol_libs, lib_rpc = lying_node,
     lib_txid = (\<lambda>s. Inr 8), lib_show_error = (\<lambda>_. ''error''), lib_show_status = (\<lambda>_. ''status''),
     lib_show_ping = ping_str\<rparr>"

definition sample_service :: service where
  "sample_service = service_default\<lparr>btc := True, eth := True\<rparr>"

text \<open>The server started with this configuration: Bitcoin and Ethereum, without Dogecoin.\<close>

definition sample_app ::
    "(block_header, json, string, string, string, string,
      (string, bytes, string, u8, string, unit, unit, unit, unit) sol_api) app_state" where
  "sample_app = \<lparr>
     chain_state = \<lparr>btc_daemon = Some \<lparr>daemon_rpc_addr = ''n'', network = Regtest, message_id = 0, cookie = ''c''\<rparr>,
       doge_daemon = None, btc_handle = Some sample_p2p, doge_handle = None, response_cache = cache_new 2000\<rparr>,
     helios_client = Some (sample_helios ''rc''), helios_op_client = None, solana_client = None,
     store_headers = empty_list, app_sgx = False,
     app_network = \<lparr>net_btc = Regtest, net_doge = DogecoinRegtest\<rparr>, app_service = sample_service\<rparr>"

lemma sample_server_libs:
  "libs_ok (lib_json sample_server) (lib_spv sample_server) (lib_btc sample_server)"
  "eth_libs_ok (lib_eth sample_server)" "printable (lib_eth sample_server)"
  by (simp_all add: sample_server_def object_libs_ok eth_libs_ok_def printable_def sample_eth_libs_def)

lemma sample_foreign: "foreign_values sample_server"
  using libs_okD(5)[OF object_libs_ok]
  by (simp add: foreign_values_def sample_server_def sample_eth_libs_def sample_sol_libs_def json_serde_def)

subsection \<open>Properties\<close>

text \<open>
  the ping route is closed except by accident. The middleware refuses a ping unless its parameter
  begins with \<open>verify_tx\<close>: the test for the verification routes looks for their name anywhere in the
  path.
\<close>

theorem ping_reachable:
  assumes "CHR ''/'' \<notin> set str"
  shows "is_service_enabled service (path_of (Ping str)) \<longleftrightarrow>
    (if prefix ''verify_tx_doge'' str then doge service else prefix ''verify_tx'' str \<and> btc service)"
  using ping_contains[OF assms, of "''erify_tx_doge''"] ping_contains[OF assms, of "''erify_tx''"]
  by (simp add: is_service_enabled_def)

theorem ping_reachable_witness:
  "\<not> is_service_enabled \<lparr>btc = True, eth = True, op = True, doge = True, sol = True\<rparr> (path_of (Ping ''hello'')) \<and>
   is_service_enabled \<lparr>btc = True, eth = True, op = True, doge = True, sol = True\<rparr> (path_of (Ping ''verify_tx''))"
  using ping_reachable[of "''hello''" "\<lparr>btc = True, eth = True, op = True, doge = True, sol = True\<rparr>"]
    ping_reachable[of "''verify_tx''" "\<lparr>btc = True, eth = True, op = True, doge = True, sol = True\<rparr>"]
  by simp

text \<open>
  a reachable ping can panic. With Bitcoin enabled and Dogecoin not, a ping that gets past the
  middleware unwraps the missing Dogecoin client.
\<close>

theorem ping_panics_without_doge:
  assumes "btc (app_service s)" and "doge_handle (chain_state s) = None" and "CHR ''/'' \<notin> set str"
    and "prefix ''verify_tx'' str" and "\<not> prefix ''verify_tx_doge'' str"
    and "btc_handle (chain_state s) = Some h" and "p2p_get_tip h = Inr t" and "tip_of (store_headers s) = Ok b"
  shows "middle_ware X (Ping str) s = (Body (Panic UnwrapFailed), s)"
proof -
  have "is_service_enabled (app_service s) (path_of (Ping str))"
    using assms(1,4,5) ping_contains[OF assms(3), of "''erify_tx_doge''"] ping_contains[OF assms(3), of "''erify_tx''"]
    by (simp add: is_service_enabled_def)
  moreover have "ping (lib_spv X) str s = Panic UnwrapFailed"
    using assms(2,6-8) by (cases t) (simp add: ping_def)
  ultimately show ?thesis by (simp add: middle_ware_def)
qed

theorem ping_panics_without_doge_witness:
  "middle_ware sample_server (Ping ''verify_tx'') sample_app = (Body (Panic UnwrapFailed), sample_app)"
  by (rule ping_panics_without_doge[where h = sample_p2p and t = "(0, sample_header 0 1 0)" and b = all_zeros])
    (simp_all add: sample_app_def sample_service_def service_default_def sample_p2p_def tip_of_def empty_list_def)

end
