(* ===== verification/Indexer_Crash.thy ===== *)
theory Indexer_Crash
  imports Indexer_Sync
begin

text \<open>
  What a synchronisation leaves on disk when the process dies in the middle of it. The indexer
  (\<open>src/src/index.rs\<close>) writes the new rows in batches and the tip row last, each with a synced
  write, so the databases a restart can find are those after each write. Opening the store
  (\<open>src/src/store.rs\<close>) on any of them gives a consistent store with the old chain or the new one.
  This is idealised: a write is durable when it returns and writes are durable in their order. The
  flags for syncing and for the write-ahead log have no effect in the model, so the loss of an
  unsynced write in a power failure is not covered.
  A first synchronisation that is interrupted leaves rows without a tip row, and the next one
  panics on them.
\<close>

subsection \<open>The databases on disk\<close>

text \<open>The database before the first write, after each batch, and after the tip row.\<close>

fun durable_states ::
    "'db rocks \<Rightarrow> store_codec \<Rightarrow> block_hash \<Rightarrow> db_row list list \<Rightarrow> 'db \<Rightarrow> 'db list" where
  "durable_states R S tip_hash [] db =
     [db, snd (db_put_sync R S tip_key (ser_hash S tip_hash) db)]"
| "durable_states R S tip_hash (row # rest) db =
     db # durable_states R S tip_hash rest (snd (db_write R S row FlushEnable db))"

text \<open>The last of them is the one the run itself ends with.\<close>

lemma durable_states_last:
  assumes "write_batches R S batches db = (Ok (), db1)"
  shows "last (durable_states R S t batches db) = snd (db_put_sync R S tip_key (ser_hash S t) db1)"
  using assms
proof (induction batches arbitrary: db)
  case (Cons b bs)
  then obtain db' where "db_write R S b FlushEnable db = (Ok (), db')" "write_batches R S bs db' = (Ok (), db1)"
    by (auto simp: seq_Ok_iff)
  moreover have "durable_states R S t bs db' \<noteq> []" by (cases bs) simp_all
  ultimately show ?case using Cons.IH by simp
qed simp

lemma durable_states_end:
  assumes "order bh (sync_headers st) new_headers = Ok ordered"
    and "add_sync_headers S (sync_headers_to_add st ordered) = Ok rows"
    and "write_batches R S (chunks 50000 rows) (sync_db st) = (Ok (), db1)"
    and "db_put_sync R S tip_key (ser_hash S t) db1 = (Ok (), db2)"
  shows "last (durable_states R S t (chunks 50000 rows) (sync_db st)) = db2 \<and>
    sync_db (snd (index_new_headers bh R S t new_headers st)) = db2"
  using assms durable_states_last[OF assms(3), of t]
  by (simp add: index_new_headers_def add_sync_block_header_def with_db_def split: outcome.split)

lemma consistent_subset: "consistent ys \<Longrightarrow> set xs \<subseteq> set ys \<Longrightarrow> consistent xs"
  unfolding consistent_def by blast

text \<open>Every database on disk is a prefix of the writes, or has the tip row after all of them.\<close>

lemma durable_states_prefix:
  assumes inv: "db_inv R S view db" and c: "consistent (concat batches)"
    and d: "d \<in> set (durable_states R S t batches db)"
  shows "db_inv R S view d \<and>
    ((\<exists>n. plain S view d = plain S view db ++ row_map (concat (take n batches))) \<or>
     plain S view d = (plain S view db ++ row_map (concat batches))(tip_key \<mapsto> ser_hash S t))"
  using inv c d
proof (induction batches arbitrary: db)
  case Nil
  obtain db' where "db_put_sync R S tip_key (ser_hash S t) db = (Ok (), db')" "db_inv R S view db'"
    "plain S view db' = (plain S view db)(tip_key \<mapsto> ser_hash S t)"
    using rs.put_abs[OF Nil.prems(1)] by blast
  with Nil.prems show ?case by (auto simp: row_map_def)
next
  case (Cons b bs)
  have cs: "consistent b" "consistent (concat bs)"
    using Cons.prems(2) consistent_append[of b "concat bs"] by simp_all
  have swap: "plain S view db ++ row_map b ++ row_map (concat xs) = plain S view db ++ row_map (concat (b # xs))"
    if xs: "set (concat xs) \<subseteq> set (concat bs)" for xs
  proof -
    have "consistent (b @ concat xs)"
      by (rule consistent_subset[OF Cons.prems(2)]) (use xs in auto)
    then have "row_map (concat xs @ b) = row_map (b @ concat xs)"
      by (intro row_map_same_set) auto
    then show ?thesis by (metis row_map_append map_add_assoc concat.simps(2))
  qed
  show ?case
  proof (cases "d = db")
    case True
    with Cons.prems(1) show ?thesis by (auto intro!: exI[of _ 0] simp: row_map_def)
  next
    case False
    obtain db' where db': "db_write R S b FlushEnable db = (Ok (), db')" "db_inv R S view db'"
      "plain S view db' = plain S view db ++ row_map b"
      using rs.write_abs[OF Cons.prems(1) cs(1)] by blast
    with False Cons.prems(3) have "d \<in> set (durable_states R S t bs db')" by simp
    from Cons.IH[OF db'(2) cs(2) this] show ?thesis
    proof (elim conjE disjE exE)
      fix n assume d: "db_inv R S view d" "plain S view d = plain S view db' ++ row_map (concat (take n bs))"
      have "plain S view d = plain S view db ++ row_map (concat (take (Suc n) (b # bs)))"
        using d(2) db'(3) swap[of "take n bs"] by (auto dest: in_set_takeD)
      with d(1) show ?thesis by blast
    next
      assume "db_inv R S view d"
        "plain S view d = (plain S view db' ++ row_map (concat bs))(tip_key \<mapsto> ser_hash S t)"
      with db'(3) swap[of bs] show ?thesis by simp
    qed
  qed
qed

text \<open>A batch holds the rows of whole headers: 50000 is even and every header has two rows.\<close>

lemma concat_take_chunks: "m > 0 \<Longrightarrow> concat (take n (chunks m xs)) = take (n * m) xs"
proof (induction n arbitrary: xs)
  case (Suc n)
  then show ?case
    by (cases "xs = []") (simp_all add: chunks.simps[of m xs] take_add)
qed simp

lemma take_pairs:
  assumes "\<forall>e \<in> set es. length (f e) = 2"
  shows "take (2 * n) (concat (map f es)) = concat (map f (take n es))"
  using assms
proof (induction es arbitrary: n)
  case (Cons e es)
  then show ?case by (cases n) simp_all
qed simp

lemma batches_of_headers:
  "concat (take n (chunks 50000 (concat (map (sync_rows S) es)))) =
     concat (map (sync_rows S) (take (n * 25000) es))"
proof -
  have "concat (take n (chunks 50000 (concat (map (sync_rows S) es)))) =
      take (n * 50000) (concat (map (sync_rows S) es))" by (rule concat_take_chunks) simp
  also have "n * 50000 = 2 * (n * 25000)" by simp
  also have "take (2 * (n * 25000)) (concat (map (sync_rows S) es)) =
      concat (map (sync_rows S) (take (n * 25000) es))"
    by (rule take_pairs) (simp add: sync_rows_def)
  finally show ?thesis .
qed

subsection \<open>Restarting\<close>

text \<open>The tip row belongs to the list in memory: there is none exactly while the list is empty.\<close>

definition tip_row_ok ::
    "store_codec \<Rightarrow> ('db \<Rightarrow> bytes \<Rightarrow> bytes option) \<Rightarrow> 'db store \<Rightarrow> bool" where
  "tip_row_ok S view st \<longleftrightarrow>
     plain S view (sync_db st) tip_key =
       (if headers (sync_headers st) = [] then None
        else Some (ser_hash S (chain_tip (headers (sync_headers st)))))"

lemma open_database:
  assumes "db_inv R S view db" and "r_open R raw_db_options (path @ ''/sync'') = Inr db"
    and "ser_version S DB_VERSION = Inr v" and "plain S view db version_key = Some v"
  shows "store_open bh R S path =
    and_then (load_state bh R S db) (\<lambda>(synced, hl).
      Ok \<lparr>sync_db = db, synced_blockhashes = synced, sync_headers = hl, reload = False\<rparr>)"
  using assms(2-4) by (simp add: store_open_def db_open_def open_raw_db_def verify_compatibility_def rs.get_abs[OF assms(1)])

text \<open>Opening rows without a tip row: the headers are there, the list is empty.\<close>

lemma reopen_without_tip:
  assumes inv: "db_inv R S view db" and rows: "rows_ok S bh (plain S view db)"
    and opened: "r_open R raw_db_options (path @ ''/sync'') = Inr db" "ser_version S DB_VERSION = Inr v"
      "plain S view db version_key = Some v"
    and tip: "plain S view db tip_key = None"
  shows "\<exists>st. store_open bh R S path = Ok st \<and> headers (sync_headers st) = [] \<and> sync_db st = db \<and>
    store_inv R S view bh st \<and> tip_row_ok S view st"
  using assms(1,2) tip
  by (auto simp: open_database[OF inv opened] load_state_def load_blockhashes_done[OF inv rows] rs.get_abs[OF inv]
      store_inv_def tip_row_ok_def) (simp_all add: empty_list_def)

text \<open>Opening rows with the tip row of a chain they hold.\<close>

lemma reopen_with_tip:
  assumes inv: "db_inv R S view db" and rows: "rows_ok S bh (plain S view db)"
    and opened: "r_open R raw_db_options (path @ ''/sync'') = Inr db" "ser_version S DB_VERSION = Inr v"
      "plain S view db version_key = Some v"
    and tip: "plain S view db tip_key = Some (ser_hash S (chain_tip hs))"
    and hs: "wf_headers bh hs" "hs \<noteq> []" "header ` set hs \<subseteq> stored_headers S bh (plain S view db)"
    and cf: "collision_free bh (stored_headers S bh (plain S view db))"
  shows "\<exists>st. store_open bh R S path = Ok st \<and> headers (sync_headers st) = hs \<and> sync_db st = db \<and>
    store_inv R S view bh st \<and> tip_row_ok S view st"
proof -
  obtain hl where "load_state bh R S db = Ok (done_hashes S (plain S view db), hl)" "headers hl = hs" "wf_list bh hl"
    using load_state_chain[OF inv rows tip hs(1,3) cf] by blast
  with inv rows tip hs(2,3) show ?thesis
    by (simp add: open_database[OF inv opened] store_inv_def tip_row_ok_def)
qed

text \<open>The rows after some of the batches.\<close>

lemma partial_rows:
  fixes hs :: "header_entry list" and n :: nat and S :: store_codec
  assumes inv: "store_inv R S view bh st" and hs: "wf_headers bh hs"
    and cf: "collision_free bh (stored_headers S bh (plain S view (sync_db st)) \<union> header ` set hs)"
  defines "new \<equiv> sync_headers_to_add st (drop (fork_point hs (headers (sync_headers st))) hs)"
  defines "A \<equiv> plain S view (sync_db st)"
  defines "B \<equiv> A ++ row_map (concat (map (sync_rows S) (take n new)))"
  shows "rows_ok S bh B"
    and "stored_headers S bh B = stored_headers S bh A \<union> header ` set (take n new)"
    and "header ` set hs \<subseteq> stored_headers S bh A \<union> header ` set new"
    and "B tip_key = A tip_key" and "B version_key = A version_key"
    and "consistent (concat (map (sync_rows S) new))" and "set new \<subseteq> set hs"
proof -
  note inv' = store_invD[OF inv]
  obtain m where m: "new = drop m hs" and hashed: "hashed_entries bh new"
    and inj: "inj_on bh (stored_headers S bh A \<union> header ` set new)"
    and all: "header ` set hs \<subseteq> stored_headers S bh A \<union> header ` set new"
    and parents: "\<forall>n. \<forall>e \<in> set (take n new). prev_blockhash (header e) = all_zeros \<or>
      prev_blockhash (header e) \<in> done_hashes S A \<union> hash ` set (take n new)"
    unfolding new_def A_def by (rule new_entries[OF inv hs cf]) metis
  have hashed': "hashed_entries bh (take n new)"
    using hashed by (auto simp: hashed_entries_def dest: in_set_takeD)
  have inj': "inj_on bh (stored_headers S bh A \<union> header ` set (take n new))"
    by (rule inj_on_subset[OF inj]) (auto dest: in_set_takeD)
  note add = rows_ok_add[OF inv'(6) inv'(2)[folded A_def] hashed' inj' parents[rule_format, of _ n, THEN ballI],
      folded B_def]
  show "rows_ok S bh B" "stored_headers S bh B = stored_headers S bh A \<union> header ` set (take n new)"
    "B tip_key = A tip_key" "B version_key = A version_key"
    using add by simp_all
  show "header ` set hs \<subseteq> stored_headers S bh A \<union> header ` set new" by (rule all)
  show "consistent (concat (map (sync_rows S) new))"
    by (rule consistent_sync_rows[OF inv'(6) hashed]) (rule inj_on_subset[OF inj], simp)
  show "set new \<subseteq> set hs" unfolding m by (rule set_drop_subset)
qed

lemma durable_states_final:
  assumes "db_inv R S view db" and "consistent (concat batches)"
  shows "plain S view (last (durable_states R S t batches db)) =
    (plain S view db ++ row_map (concat batches))(tip_key \<mapsto> ser_hash S t)"
proof -
  obtain db1 where db1: "write_batches R S batches db = (Ok (), db1)" "db_inv R S view db1"
    "plain S view db1 = plain S view db ++ row_map (concat batches)"
    using write_batches_rows[OF assms] by blast
  obtain db2 where "db_put_sync R S tip_key (ser_hash S t) db1 = (Ok (), db2)"
    "plain S view db2 = (plain S view db1)(tip_key \<mapsto> ser_hash S t)"
    using rs.put_abs[OF db1(2)] by blast
  with durable_states_last[OF db1(1), of t] db1(3) show ?thesis by simp
qed

subsection \<open>Properties\<close>

text \<open>
  C4: a synchronisation is atomic for a restart. Whenever the process dies between two writes of a
  run that moves the index to the chain \<open>hs\<close>, opening the store on what is on disk succeeds, is
  consistent, and has either the chain from before the run or exactly \<open>hs\<close>; after the last write it
  has \<open>hs\<close>.
\<close>

theorem crash_consistency:
  assumes inv: "store_inv R S view bh st" and tip: "tip_row_ok S view st"
    and hs: "wf_headers bh hs" "hs \<noteq> []"
    and cf: "collision_free bh (stored_headers S bh (plain S view (sync_db st)) \<union> header ` set hs)"
    and rows: "add_sync_headers S
      (sync_headers_to_add st (drop (fork_point hs (headers (sync_headers st))) hs)) = Ok rows"
    and disk: "db \<in> set (durable_states R S (chain_tip hs) (chunks 50000 rows) (sync_db st))"
    and opened: "r_open R raw_db_options (path @ ''/sync'') = Inr db" "ser_version S DB_VERSION = Inr v"
      "plain S view (sync_db st) version_key = Some v"
  shows "\<exists>st'. store_open bh R S path = Ok st' \<and> store_inv R S view bh st' \<and> tip_row_ok S view st' \<and>
    headers (sync_headers st') \<in> {headers (sync_headers st), hs} \<and>
    (db = last (durable_states R S (chain_tip hs) (chunks 50000 rows) (sync_db st)) \<longrightarrow>
     headers (sync_headers st') = hs)"
proof -
  let ?A = "plain S view (sync_db st)" and ?old = "headers (sync_headers st)"
  let ?new = "sync_headers_to_add st (drop (fork_point hs ?old) hs)"
  let ?B = "\<lambda>n. ?A ++ row_map (concat (map (sync_rows S) (take n ?new)))"
  let ?last = "last (durable_states R S (chain_tip hs) (chunks 50000 rows) (sync_db st))"
  note inv' = store_invD[OF inv] and part = partial_rows[OF inv hs(1) cf]
  have rows': "rows = concat (map (sync_rows S) ?new)" using rows add_sync_headers_rows[OF inv'(6)] by simp
  have c: "consistent (concat (chunks 50000 rows))" using part(6) by (simp add: concat_chunks rows')
  have full: "?A ++ row_map (concat (chunks 50000 rows)) = ?B (length ?new)"
    by (simp add: concat_chunks rows')
  have final: "plain S view ?last = (?B (length ?new))(tip_key \<mapsto> ser_hash S (chain_tip hs))"
    using durable_states_final[OF inv'(1) c] full by simp
  have cfB: "collision_free bh (stored_headers S bh (?B n))" for n
    by (rule collision_free_mono[OF cf]) (use part(2)[of n] part(7) in \<open>auto dest: in_set_takeD\<close>)
  have db: "db_inv R S view db" and cases: "(\<exists>n. plain S view db = ?B n) \<or>
      plain S view db = (?B (length ?new))(tip_key \<mapsto> ser_hash S (chain_tip hs))"
    using durable_states_prefix[OF inv'(1) c disk] batches_of_headers[of _ S ?new] full
    unfolding rows' by auto
  show ?thesis
  proof (cases "plain S view db = (?B (length ?new))(tip_key \<mapsto> ser_hash S (chain_tip hs))")
    case True
    note other = rows_ok_other(1,3)[OF inv'(6) other_keys(1,2), where bh = bh and A = "?B (length ?new)"
        and v = "ser_hash S (chain_tip hs)", folded True]
    have "\<exists>st'. store_open bh R S path = Ok st' \<and> headers (sync_headers st') = hs \<and> sync_db st' = db \<and>
        store_inv R S view bh st' \<and> tip_row_ok S view st'"
    proof (rule reopen_with_tip[OF db _ opened(1,2)])
      show "rows_ok S bh (plain S view db)" using other(2) part(1) by blast
      show "plain S view db version_key = Some v" using True part(5)[of "length ?new"] opened(3) by (simp add: other_keys(5)[symmetric])
      show "header ` set hs \<subseteq> stored_headers S bh (plain S view db)"
        using other(1) part(2)[of "length ?new"] part(3) by simp
      show "collision_free bh (stored_headers S bh (plain S view db))" using cfB[of "length ?new"] other(1) by simp
    qed (use True hs in simp_all)
    then show ?thesis by blast
  next
    case False
    with cases obtain n where n: "plain S view db = ?B n" by blast
    have last: "db \<noteq> ?last" using False final by blast
    have "\<exists>st'. store_open bh R S path = Ok st' \<and> headers (sync_headers st') = ?old \<and> sync_db st' = db \<and>
        store_inv R S view bh st' \<and> tip_row_ok S view st'"
    proof (cases "?old = []")
      case True
      show ?thesis unfolding True
        by (rule reopen_without_tip[OF db _ opened(1,2)])
          (use n part(1,4,5)[of n] opened(3) tip True in \<open>simp_all add: tip_row_ok_def\<close>)
    next
      case False
      note here = part(1,2,4,5)[of n, folded n]
      show ?thesis
      proof (rule reopen_with_tip[OF db here(1) opened(1,2)])
        show "collision_free bh (stored_headers S bh (plain S view db))" using cfB[of n] n by simp
        show "plain S view db tip_key = Some (ser_hash S (chain_tip ?old))"
          using tip False here(3) by (simp add: tip_row_ok_def)
        show "header ` set ?old \<subseteq> stored_headers S bh (plain S view db)" using here(2) inv'(5) by blast
      qed (use False here(4) opened(3) inv'(4) in \<open>simp_all add: wf_list_def\<close>)
    qed
    with last show ?thesis by blast
  qed
qed

lemma durable_states_open:
  "durable_states (R\<lparr>r_open := f\<rparr>) S t batches db = durable_states R S t batches db"
  by (induction batches arbitrary: db) (simp_all add: db_put_sync_def db_write_def)

theorem crash_consistency_witness:
  "\<exists>db rows st'. add_sync_headers disk_codec (sync_headers_to_add forked_store
      (drop (fork_point node_chain (headers forked_list)) node_chain)) = Ok rows \<and>
    db = last (durable_states tree_rocks disk_codec (chain_tip node_chain) (chunks 50000 rows)
      (sync_db forked_store)) \<and>
    store_open sample_bh (tree_rocks\<lparr>r_open := \<lambda>_ _. Inr db\<rparr>) disk_codec ''db'' = Ok st' \<and>
    headers (sync_headers st') = node_chain"
proof -
  obtain rows where rows: "add_sync_headers disk_codec (sync_headers_to_add forked_store
      (drop (fork_point node_chain (headers forked_list)) node_chain)) = Ok rows"
    using add_sync_headers_rows[OF disk_codec_ok] by blast
  let ?states = "durable_states tree_rocks disk_codec (chain_tip node_chain) (chunks 50000 rows)
      (sync_db forked_store)"
  let ?R = "tree_rocks\<lparr>r_open := \<lambda>_ _. Inr (last ?states)\<rparr>"
  have ne: "?states \<noteq> []" by (cases "chunks 50000 rows") simp_all
  have inv: "store_inv ?R disk_codec RBT.lookup sample_bh forked_store"
    using forked_store_inv by (simp add: store_inv_def db_inv_def rocks_ok_def)
  have hl: "sync_headers forked_store = forked_list" "sync_db forked_store = chain_db (headers forked_list)"
    by (simp_all add: forked_store_def)
  have "tip_row_ok disk_codec RBT.lookup forked_store"
    using chain_db(4)[OF forked_chain] by (simp add: tip_row_ok_def hl del: chain_tip_simps) (simp add: forked_list_def)
  then have "\<exists>st'. store_open sample_bh ?R disk_codec ''db'' = Ok st' \<and>
      store_inv ?R disk_codec RBT.lookup sample_bh st' \<and> tip_row_ok disk_codec RBT.lookup st' \<and>
      headers (sync_headers st') \<in> {headers (sync_headers forked_store), node_chain} \<and>
      (last ?states = last (durable_states ?R disk_codec (chain_tip node_chain) (chunks 50000 rows)
        (sync_db forked_store)) \<longrightarrow> headers (sync_headers st') = node_chain)"
  proof (rule crash_consistency[OF inv _ wf_node_chain _ forked_store_collision_free])
    show "ser_version disk_codec DB_VERSION = Inr (le_bytes 4 DB_VERSION)" by (simp add: disk_codec_def)
    show "plain disk_codec RBT.lookup (sync_db forked_store) version_key = Some (le_bytes 4 DB_VERSION)"
      using chain_db(5)[OF forked_chain] by (simp add: hl)
  qed (use rows ne in \<open>simp_all add: hl durable_states_open node_chain_def\<close>)
  with rows show ?thesis by (auto simp: durable_states_open)
qed

text \<open>
  C35: an interrupted first synchronisation makes the next one panic. With an empty list over rows
  that hold the first header of the node's chain but not its last, \<open>apply\<close> is handed only the
  headers that were not stored before, and their first height lies beyond the empty list. The rows
  and the tip are written by then, so the restart after that one has the chain.
\<close>

theorem interrupted_first_sync_panics:
  assumes inv: "store_inv R S view bh st" and empty: "headers (sync_headers st) = []"
    and hs: "wf_headers bh hs" "hs \<noteq> []"
    and cf: "collision_free bh (stored_headers S bh (plain S view (sync_db st)) \<union> header ` set hs)"
    and partial: "header (hd hs) \<in> stored_headers S bh (plain S view (sync_db st))"
      "header (last hs) \<notin> stored_headers S bh (plain S view (sync_db st))"
  shows "\<exists>st'. index_new_headers bh R S (chain_tip hs) (map header hs) st = (Panic IndexOutOfBounds, st') \<and>
    rows_ok S bh (plain S view (sync_db st')) \<and> holds_chain S view bh hs (sync_db st')"
proof -
  note inv' = store_invD[OF inv]
  have k: "fork_point hs (headers (sync_headers st)) = 0"
    using fork_point(2)[of hs "headers (sync_headers st)"] empty by simp
  obtain m where m: "m \<le> length hs" "sync_headers_to_add st hs = drop m hs"
      "hashed_entries bh (drop m hs)"
      "inj_on bh (stored_headers S bh (plain S view (sync_db st)) \<union> header ` set (drop m hs))"
      "header ` set hs \<subseteq> stored_headers S bh (plain S view (sync_db st)) \<union> header ` set (drop m hs)"
    by (rule new_entries[OF inv hs(1) cf, unfolded k drop_0]) (rule that)
  have "m > 0"
  proof (rule ccontr)
    assume "\<not> m > 0"
    then have "hd hs \<in> set (sync_headers_to_add st hs)" using m(2) hs(2) by simp
    then have "hash (hd hs) \<notin> synced_blockhashes st" by (simp add: sync_headers_to_add_def)
    moreover have "hash (hd hs) = bh (header (hd hs))"
      using wf_headersD(2)[OF hs(1), of 0] hs(2) by (simp add: hd_conv_nth)
    ultimately show False using rows_okD(3)[OF inv'(2) partial(1)] inv'(3) by simp
  qed
  moreover have "m < length hs"
  proof (rule ccontr)
    assume "\<not> m < length hs"
    with m(5) hs(2) partial(2) show False by (auto dest!: subsetD[OF _ imageI[OF last_in_set[OF hs(2)]]])
  qed
  moreover have "linked_entries (drop m hs)"
    unfolding linked_entries_def successively_conv_nth using wf_headersD(1,3)[OF hs(1)] by auto
  ultimately have stuck: "apply_headers (sync_headers st) (drop m hs) = Panic IndexOutOfBounds"
    using empty wf_headersD(1)[OF hs(1), of m]
    by (simp add: Cons_nth_drop_Suc[symmetric] apply_headers_def linked_entries_def)
  obtain r :: "(unit sync_error, unit) outcome" and st2 where run:
    "seq (embed_act (index_new_headers bh R S (chain_tip hs) (map header hs)))
      (\<lambda>_. check_tip bh R S (chain_tip hs)) st = (r, st2)" "run_outcome R S view bh hs r st2"
    using index_run[OF inv hs(1) cf] k by auto
  have "order bh (sync_headers st) (map header hs) = Ok hs"
    using order_suffix[OF inv'(4) hs(1), of 0] by simp
  moreover obtain db1 where "add_sync_block_header R S (drop m hs) st =
      (Ok (), st\<lparr>sync_db := db1, synced_blockhashes := synced_blockhashes st \<union> hash ` set (drop m hs)\<rparr>)"
    and db1: "db_inv R S view db1"
    using add_sync_block_header_rows[OF inv'(1) m(3) inj_on_subset[OF m(4)]] by blast
  moreover obtain db2 where "db_put_sync R S tip_key (ser_hash S (chain_tip hs)) db1 = (Ok (), db2)"
    using rs.put_abs[OF db1] by blast
  ultimately have "fst (index_new_headers bh R S (chain_tip hs) (map header hs) st) = Panic IndexOutOfBounds"
    using m(2) stuck by (simp add: index_new_headers_def with_db_def)
  then show ?thesis
    using run by (cases "index_new_headers bh R S (chain_tip hs) (map header hs) st")
      (auto simp: seq_def run_outcome_def)
qed

text \<open>A store over the rows of the first header of \<open>node_chain\<close> alone.\<close>

lemma first_header_store:
  "\<exists>db. store_inv tree_rocks disk_codec RBT.lookup sample_bh (empty_store\<lparr>sync_db := db, synced_blockhashes := {1}\<rparr>) \<and>
    stored_headers disk_codec sample_bh (RBT.lookup db) = {header (hd node_chain)}"
proof -
  let ?es = "take 1 node_chain"
  have es: "hashed_entries sample_bh ?es" by (simp add: hashed_entries_def node_chain_def sample_defs)
  obtain db where db: "db_inv tree_rocks disk_codec RBT.lookup db"
    "RBT.lookup db = RBT.lookup RBT.empty ++ row_map (concat (map (sync_rows disk_codec) ?es))"
    using add_sync_block_header_rows[of tree_rocks disk_codec RBT.lookup empty_store sample_bh ?es] es
    by (auto simp: empty_store_def node_chain_def)
  have e: "stored_headers disk_codec sample_bh Map.empty = {}" "done_hashes disk_codec Map.empty = {}"
    by (simp_all add: stored_headers_def done_hashes_def)
  have parents: "\<forall>e \<in> set ?es. prev_blockhash (header e) = all_zeros \<or>
      prev_blockhash (header e) \<in> done_hashes disk_codec Map.empty \<union> hash ` set ?es"
    by (simp add: node_chain_def sample_defs)
  have "inj_on sample_bh (stored_headers disk_codec sample_bh Map.empty \<union> header ` set ?es)"
    by (simp add: e node_chain_def)
  note add = rows_ok_add[OF disk_codec_ok rows_ok_empty es this parents, unfolded e]
  have "stored_headers disk_codec sample_bh (RBT.lookup db) = {header (hd node_chain)}"
      "done_hashes disk_codec (RBT.lookup db) = {1}" "rows_ok disk_codec sample_bh (RBT.lookup db)"
    using add db(2) by (simp_all add: node_chain_def sample_defs)
  with db(1) show ?thesis
    by (intro exI[of _ db]) (simp add: store_inv_def empty_store_def, simp add: empty_list_def)
qed

theorem interrupted_first_sync_panics_witness:
  "\<exists>db st'. index_new_headers sample_bh tree_rocks disk_codec (chain_tip node_chain) (map header node_chain)
      (empty_store\<lparr>sync_db := db, synced_blockhashes := {1}\<rparr>) = (Panic IndexOutOfBounds, st') \<and>
    rows_ok disk_codec sample_bh (plain disk_codec RBT.lookup (sync_db st')) \<and>
    holds_chain disk_codec RBT.lookup sample_bh node_chain (sync_db st')"
proof -
  obtain db where db: "store_inv tree_rocks disk_codec RBT.lookup sample_bh
        (empty_store\<lparr>sync_db := db, synced_blockhashes := {1}\<rparr>)"
      "stored_headers disk_codec sample_bh (RBT.lookup db) = {header (hd node_chain)}"
    using first_header_store by blast
  have "collision_free sample_bh (stored_headers disk_codec sample_bh
      (plain disk_codec RBT.lookup (sync_db (empty_store\<lparr>sync_db := db, synced_blockhashes := {1}\<rparr>))) \<union>
      header ` set node_chain)"
    by (rule collision_free_mono[OF node_chain_collision_free]) (simp add: db(2) node_chain_def)
  from interrupted_first_sync_panics[OF db(1) _ wf_node_chain _ this] db(2) show ?thesis
    by (intro exI[of _ db]) (simp add: node_chain_def empty_store_def empty_list_def sample_defs)
qed

text \<open>A tip row whose hash no stored header has.\<close>

lemma load_state_missing:
  assumes inv: "db_inv R S view db" and rows: "rows_ok S bh (plain S view db)"
    and inj: "inj_on bh (stored_headers S bh (plain S view db))"
    and tip: "plain S view db tip_key = Some (ser_hash S t)"
    and missing: "t \<noteq> all_zeros" "t \<notin> bh ` stored_headers S bh (plain S view db)"
  shows "load_state bh R S db = Panic MissingBlockhash"
proof -
  have S: "store_codec_ok S" using inv by (simp add: db_inv_def)
  obtain m where m: "load_sync_blockheaders R S db = Ok m"
    "set m = (\<lambda>x. (bh x, x)) ` stored_headers S bh (plain S view db)"
    using load_sync_blockheaders_stored[OF inv rows inj] by blast
  have "map_of m t = None"
    using missing(2) by (auto simp: map_of_eq_None_iff m(2) image_image)
  then have "new_list bh m t = Panic MissingBlockhash"
    using missing(1) by (simp add: new_list_def walk_back.simps[of m t])
  then show ?thesis
    by (simp add: load_state_def load_blockhashes_done[OF inv rows] rs.get_abs[OF inv] tip
        store_codec_okD(4)[OF S] m(1))
qed

text \<open>
  C34: a node that answers a request for its tip with another header destroys the store. The header
  extends the list, is written, and the tip row names the hash that was asked for and that no header
  has: the reload after the mismatch panics, and so does every later opening of the store.
\<close>

theorem wrong_tip_header_bricks_store:
  fixes J :: "'v serde" and view :: "'db \<Rightarrow> bytes \<Rightarrow> bytes option"
  assumes inv: "store_inv R S view (block_hash_of C) st" and ne: "headers (sync_headers st) \<noteq> []"
    and got: "get_new_headers J C rpc (sync_headers st) t d = Some (Ok [h], d')"
    and h: "prev_blockhash h = chain_tip (headers (sync_headers st))"
      "block_hash_of C h \<notin> synced_blockhashes st"
    and cf: "collision_free (block_hash_of C)
      (insert h (stored_headers S (block_hash_of C) (plain S view (sync_db st))))"
    and t: "t \<noteq> all_zeros"
      "t \<notin> block_hash_of C ` insert h (stored_headers S (block_hash_of C) (plain S view (sync_db st)))"
    and version: "ser_version S DB_VERSION = Inr v" "plain S view (sync_db st) version_key = Some v"
  shows "\<exists>st'. index_sync_headers J C rpc R S t (st, d) = Some (Panic MissingBlockhash, st', d') \<and>
    (\<forall>R2 path. rocks_ok R2 view \<longrightarrow> r_open R2 raw_db_options (path @ ''/sync'') = Inr (sync_db st') \<longrightarrow>
      store_open (block_hash_of C) R2 S path = Panic MissingBlockhash)"
proof -
  let ?bh = "block_hash_of C" and ?A = "plain S view (sync_db st)" and ?hl = "sync_headers st"
  let ?e = "\<lparr>height = length (headers ?hl), hash = ?bh h, header = h\<rparr>"
  let ?hs = "headers ?hl @ [?e]"
  note inv' = store_invD[OF inv]
  have wf: "wf_headers ?bh ?hs"
    unfolding wf_headers_snoc using inv'(4) h(1) by (simp add: wf_list_def)
  have "drop (length (headers ?hl)) ?hs = [?e]" by simp
  moreover have "hash (headers ?hl ! (length (headers ?hl) - 1)) \<noteq> all_zeros"
    by (rule chain_hash_nonnull[OF _ collision_free_mono[OF cf]])
      (use inv'(4,5) ne in \<open>auto simp: wf_list_def\<close>)
  ultimately have order: "order ?bh ?hl [h] = Ok [?e]"
    using order_suffix[OF inv'(4) wf, of "length (headers ?hl)"] ne by (simp add: nth_append)
  have inj: "inj_on ?bh (stored_headers S ?bh ?A \<union> header ` set [?e])"
    using cf by (simp add: collision_free_def)
  have hashed: "hashed_entries ?bh [?e]" by (simp add: hashed_entries_def)
  obtain db1 where db1: "add_sync_block_header R S [?e] st =
      (Ok (), st\<lparr>sync_db := db1, synced_blockhashes := synced_blockhashes st \<union> hash ` set [?e]\<rparr>)"
    "db_inv R S view db1" "plain S view db1 = ?A ++ row_map (concat (map (sync_rows S) [?e]))"
    using add_sync_block_header_rows[OF inv'(1) hashed inj_on_subset[OF inj]] by blast
  obtain db2 where db2: "db_put_sync R S tip_key (ser_hash S t) db1 = (Ok (), db2)"
    "db_inv R S view db2" "plain S view db2 = (plain S view db1)(tip_key \<mapsto> ser_hash S t)"
    using rs.put_abs[OF db1(2)] by blast
  have "chain_tip (headers ?hl) = hash (last (headers ?hl))" using ne by simp
  have last: "header (last (headers ?hl)) \<in> stored_headers S ?bh ?A" using inv'(5) ne by auto
  have parents: "\<forall>e \<in> set [?e]. prev_blockhash (header e) = all_zeros \<or>
      prev_blockhash (header e) \<in> done_hashes S ?A \<union> hash ` set [?e]"
    using rows_okD(3)[OF inv'(2) last] h(1) ne inv'(4) wf_headersD(2)[of ?bh "headers ?hl" "length (headers ?hl) - 1"]
    by (simp add: wf_list_def last_conv_nth)
  note add = rows_ok_add[OF inv'(6,2) hashed inj parents, folded db1(3)]
  note other = rows_ok_other(1,3)[OF inv'(6) other_keys(1,2), where bh = ?bh and A = "plain S view db1"
      and v = "ser_hash S t", folded db2(3)]
  have stored: "stored_headers S ?bh (plain S view db2) = insert h (stored_headers S ?bh ?A)"
    using other(1) add(1) by simp
  have missing: "load_state ?bh R2 S db2 = Panic MissingBlockhash" if "db_inv R2 S view db2" for R2
  proof (rule load_state_missing[OF that other(2)[OF add(3)]])
    show "inj_on ?bh (stored_headers S ?bh (plain S view db2))" "t \<notin> ?bh ` stored_headers S ?bh (plain S view db2)"
      unfolding stored using cf t(2) by (simp_all add: collision_free_def)
  qed (use t(1) db2(3) in simp_all)
  obtain hl' where hl': "apply_headers ?hl [?e] = Ok hl'" "headers hl' = ?hs" "tip hl' = ?bh h"
    using apply_headers_attached[of "[?e]" ?hl] h(1) by (auto simp: linked_entries_def attaches_def)
  let ?st2 = "st\<lparr>synced_blockhashes := insert (?bh h) (synced_blockhashes st), sync_db := db2, sync_headers := hl'\<rparr>"
  have "index_new_headers ?bh R S t [h] st = (Ok (), ?st2)"
    using order db1(1) db2(1) hl'(1) h(2)
    by (simp add: index_new_headers_def sync_headers_to_add_def with_db_def)
  moreover have "tip_of hl' = Ok (?bh h)" using hl'(2,3) by (cases "headers ?hl") (simp_all add: tip_of_def)
  moreover have "reload_store ?bh R S ?st2 = (Panic MissingBlockhash, ?st2\<lparr>reload := True\<rparr>)"
    using missing[OF db2(2)] by (simp add: reload_store_def)
  moreover have "t \<noteq> ?bh h" using t(2) by blast
  ultimately have "index_sync_headers J C rpc R S t (st, d) = Some (Panic MissingBlockhash, ?st2\<lparr>reload := True\<rparr>, d')"
    using got by (simp add: index_sync_headers_def check_tip_def)
  moreover have "store_open ?bh R2 S path = Panic MissingBlockhash"
    if "rocks_ok R2 view" "r_open R2 raw_db_options (path @ ''/sync'') = Inr db2" for R2 path
  proof -
    have inv2: "db_inv R2 S view db2" using db2(2) that(1) by (simp add: db_inv_def)
    have "plain S view db2 version_key = Some v"
      using add(4)[of version_key] version(2) by (simp add: db2(3) other_keys(5)[symmetric])
    with open_database[OF inv2 that(2) version(1)] missing[OF inv2] show ?thesis by simp
  qed
  ultimately show ?thesis by auto
qed

text \<open>A node that answers every request with a header on top of \<open>forked_list\<close>.\<close>

fun wrong_header_node :: "json \<Rightarrow> (string, json) outcome" where
  "wrong_header_node (JArr reqs) =
     Ok (JArr (map (\<lambda>req. JObj [(''result'', JStr (node_header (sample_header 5 6 0))), (''error'', JNull),
       (''id'', case json_get req ''id'' of Some i \<Rightarrow> i | None \<Rightarrow> JNull)]) reqs))"
| "wrong_header_node _ = Ok JNull"

lemma wrong_header_received:
  "\<exists>d'. get_new_headers json_serde byte_codec wrong_header_node forked_list 9 sample_daemon =
    Some (Ok [sample_header 5 6 0], d')"
proof -
  have "fst (getblockheader json_serde byte_codec wrong_header_node 9 sample_daemon) = Ok (sample_header 5 6 0)"
    by (simp add: getblockheader_def request_def handle_request_batch_def counter_next_def chunks_small
        make_request_def parse_jsonrpc_reply_def sample_node_defs header_of_network_def header_from_value_def
        seq_def sample_defs)
  then obtain d' where d': "getblockheader json_serde byte_codec wrong_header_node 9 sample_daemon =
      (Ok (sample_header 5 6 0), d')" by (cases "getblockheader json_serde byte_codec wrong_header_node 9 sample_daemon") simp
  have "header_by_blockhash forked_list 9 = None" "header_by_blockhash forked_list 5 \<noteq> None"
    by (simp_all add: header_by_blockhash_def forked_list_def sample_defs)
  with d' show ?thesis
    by (simp add: get_new_headers_def fetch_back.simps[of _ _ 9] fetch_back.simps[of _ _ 5])
      (simp add: forked_list_def sample_defs fetch_back.simps[of _ _ 5])
qed

theorem wrong_tip_header_bricks_store_witness:
  "\<exists>st' d'. index_sync_headers json_serde byte_codec wrong_header_node tree_rocks disk_codec 9
      (forked_store, sample_daemon) = Some (Panic MissingBlockhash, st', d') \<and>
    store_open sample_bh (tree_rocks\<lparr>r_open := \<lambda>_ _. Inr (sync_db st')\<rparr>) disk_codec ''db'' = Panic MissingBlockhash"
proof -
  have bh: "block_hash_of byte_codec = sample_bh" by (simp add: byte_codec_def)
  have hl: "sync_headers forked_store = forked_list" by (simp add: forked_store_def)
  have stored: "stored_headers disk_codec sample_bh (plain disk_codec RBT.lookup (sync_db forked_store)) =
      header ` set (headers forked_list)"
    using chain_db(2)[OF forked_chain] by (simp add: forked_store_def)
  obtain d' where d': "get_new_headers json_serde byte_codec wrong_header_node (sync_headers forked_store) 9
      sample_daemon = Some (Ok [sample_header 5 6 0], d')" using wrong_header_received unfolding hl ..
  have "\<exists>st'. index_sync_headers json_serde byte_codec wrong_header_node tree_rocks disk_codec 9
      (forked_store, sample_daemon) = Some (Panic MissingBlockhash, st', d') \<and>
    (\<forall>R2 path. rocks_ok R2 RBT.lookup \<longrightarrow> r_open R2 raw_db_options (path @ ''/sync'') = Inr (sync_db st') \<longrightarrow>
      store_open (block_hash_of byte_codec) R2 disk_codec path = Panic MissingBlockhash)"
  proof (rule wrong_tip_header_bricks_store[OF _ _ d'])
    show "store_inv tree_rocks disk_codec RBT.lookup (block_hash_of byte_codec) forked_store"
      by (simp add: bh forked_store_inv)
    show "collision_free (block_hash_of byte_codec) (insert (sample_header 5 6 0) (stored_headers disk_codec
        (block_hash_of byte_codec) (plain disk_codec RBT.lookup (sync_db forked_store))))"
      unfolding bh stored by (simp add: forked_list_def collision_free_def sample_defs)
    show "9 \<notin> block_hash_of byte_codec ` insert (sample_header 5 6 0) (stored_headers disk_codec
        (block_hash_of byte_codec) (plain disk_codec RBT.lookup (sync_db forked_store)))"
      unfolding bh stored by (simp add: forked_list_def sample_defs)
    show "ser_version disk_codec DB_VERSION = Inr (le_bytes 4 DB_VERSION)" by (simp add: disk_codec_def)
    show "plain disk_codec RBT.lookup (sync_db forked_store) version_key = Some (le_bytes 4 DB_VERSION)"
      using chain_db(5)[OF forked_chain] by (simp add: forked_store_def)
  qed (simp_all add: bh forked_store_def forked_list_def sample_defs)
  then obtain st' where run: "index_sync_headers json_serde byte_codec wrong_header_node tree_rocks disk_codec 9
      (forked_store, sample_daemon) = Some (Panic MissingBlockhash, st', d')"
    and reopen: "\<And>R2 path. rocks_ok R2 RBT.lookup \<Longrightarrow> r_open R2 raw_db_options (path @ ''/sync'') = Inr (sync_db st') \<Longrightarrow>
      store_open sample_bh R2 disk_codec path = Panic MissingBlockhash" by (auto simp: bh)
  have "rocks_ok (tree_rocks\<lparr>r_open := \<lambda>_ _. Inr (sync_db st')\<rparr>) RBT.lookup"
    using tree_rocks_ok by (simp add: rocks_ok_def)
  from reopen[OF this] run show ?thesis by (intro exI[of _ st'] exI[of _ d']) simp
qed

end
