(* ===== verification/Indexer_Thread.thy ===== *)
theory Indexer_Thread
  imports Indexer_Sync
begin

text \<open>
  The indexer thread as a whole: \<open>Indexer::open\<close> of \<open>src/src/index.rs\<close> and the loop that
  \<open>start_indexer\<close> of \<open>src/src/main.rs\<close> spawns, as a step relation in which the node may be on
  another chain at every iteration. \<open>start_indexer\<close> is marked \<open>allow(dead_code)\<close> and \<open>main\<close> does not
  call it at this commit. \<open>thread_step\<close> has the iterations that do not panic, against a node that
  serves some well-formed chain; a panic ends the thread.
\<close>

record 'db indexer =
  idx_store :: "'db store"
  idx_flush :: flush_mode
  idx_thread :: nat

definition indexer_open :: "'db store \<Rightarrow> config_cli \<Rightarrow> 'db indexer" where
  "indexer_open st config = \<lparr>idx_store = st, idx_flush = FlushDisable, idx_thread = cli_thread config\<rparr>"

definition full_compaction :: "'db rocks \<Rightarrow> ('db indexer, unit, unit) action" where
  "full_compaction R indexer =
     (let (r, st) = store_full_compaction R (idx_store indexer) in (r, indexer\<lparr>idx_store := st\<rparr>))"

text \<open>A node that serves a chain of the headers \<open>U\<close> and names its tip as the best block.\<close>

definition honest_node ::
    "'v serde \<Rightarrow> 'p codec \<Rightarrow> block_header set \<Rightarrow> network \<Rightarrow> ('v \<Rightarrow> (string, 'v) outcome) \<Rightarrow> header_entry list \<Rightarrow> bool" where
  "honest_node J C U n rpc hs \<longleftrightarrow>
     wf_headers (block_hash_of C) hs \<and> hs \<noteq> [] \<and> header ` set hs \<subseteq> U \<and> serves_chain J C rpc n hs \<and>
     (\<forall>d. network d = n \<longrightarrow> fst (getbestblockhash J C rpc d) = Ok (chain_tip hs))"

text \<open>One iteration of the loop that does not panic, with whatever honest node answers it.\<close>

inductive thread_step ::
    "'v serde \<Rightarrow> 'p codec \<Rightarrow> 'db rocks \<Rightarrow> store_codec \<Rightarrow> block_header set
      \<Rightarrow> block_hash \<times> 'db indexer_state \<Rightarrow> block_hash \<times> 'db indexer_state \<Rightarrow> bool"
  for J :: "'v serde" and C :: "'p codec" and R :: "'db rocks" and S and U where
  iterate: "honest_node J C U (network d) rpc hs \<Longrightarrow>
    indexer_iteration J C rpc R S t (st, d) = Some (Ok t', st', d') \<Longrightarrow>
    thread_step J C R S U (t, st, d) (t', st', d')"

inductive_cases thread_stepE: "thread_step J C R S U (t, st, d) (t', st', d')"

text \<open>
  What the loop keeps: the store is consistent, its list is not empty, and the rows hold the chain
  in memory under its tip.
\<close>

definition thread_inv ::
    "'p codec \<Rightarrow> 'db rocks \<Rightarrow> store_codec \<Rightarrow> ('db \<Rightarrow> bytes \<Rightarrow> bytes option) \<Rightarrow> block_header set
      \<Rightarrow> 'db store \<Rightarrow> bool" where
  "thread_inv C R S view U st \<longleftrightarrow>
     store_inv R S view (block_hash_of C) st \<and> headers (sync_headers st) \<noteq> [] \<and>
     stored_headers S (block_hash_of C) (plain S view (sync_db st)) \<subseteq> U \<and>
     holds_chain S view (block_hash_of C) (headers (sync_headers st)) (sync_db st)"

lemma thread_step_inv:
  assumes step: "thread_step J C R S U (t, st, d) (t', st', d')" and inv: "thread_inv C R S view U st"
    and cf: "collision_free (block_hash_of C) U"
  shows "thread_inv C R S view U st' \<and> network d' = network d"
  using step
proof (rule thread_stepE)
  fix rpc hs
  let ?bh = "block_hash_of C"
  assume honest: "honest_node J C U (network d) rpc hs"
    and run: "indexer_iteration J C rpc R S t (st, d) = Some (Ok t', st', d')"
  have hs: "wf_headers ?bh hs" "hs \<noteq> []" "header ` set hs \<subseteq> U" "serves_chain J C rpc (network d) hs"
    using honest by (simp_all add: honest_node_def)
  obtain d0 where best: "getbestblockhash J C rpc d = (Ok (chain_tip hs), d0)" "network d0 = network d"
    using honest network_getbestblockhash[of J C rpc d]
    by (cases "getbestblockhash J C rpc d") (auto simp: honest_node_def dest: spec[of _ d])
  have inv': "store_inv R S view ?bh st" "headers (sync_headers st) \<noteq> []"
    "stored_headers S ?bh (plain S view (sync_db st)) \<subseteq> U"
    using inv by (simp_all add: thread_inv_def)
  show ?thesis
  proof (cases "chain_tip hs = t")
    case True
    with run best inv show ?thesis by (simp add: indexer_iteration_def)
  next
    case False
    have "collision_free ?bh (stored_headers S ?bh (plain S view (sync_db st)) \<union> header ` set hs)"
      by (rule collision_free_mono[OF cf]) (use inv'(3) hs(3) in blast)
    from sync_run[OF inv'(1,2) hs(1) this, of J rpc d0] hs(4) best(2)
    obtain r :: "('a sync_error, unit) outcome" and st1 d1 where
      sync: "index_sync_headers J C rpc R S (chain_tip hs) (st, d0) = Some (r, st1, d1)" "network d1 = network d"
        "run_outcome R S view ?bh hs r st1"
      and stored: "stored_headers S ?bh (plain S view (sync_db st1)) =
        stored_headers S ?bh (plain S view (sync_db st)) \<union> header ` set hs" by auto
    from sync(1) run best(1) False have "st' = st1" "d' = d1" "\<not> (\<exists>p. r = Panic p)"
      by (auto simp: indexer_iteration_def split: outcome.splits)
    moreover have "thread_inv C R S view U st1" if "\<not> (\<exists>p. r = Panic p)"
      using sync(3) that stored inv'(3) hs(2,3)
      by (cases r) (auto simp: run_outcome_def thread_inv_def)
    ultimately show ?thesis using sync(2) by blast
  qed
qed

subsection \<open>Properties\<close>

text \<open>
  C21: the indexer thread keeps its store. From a consistent store whose rows hold the chain in
  memory, whatever chains the node is on at the iterations of the loop, the store is consistent
  after each of them and its rows hold the chain in memory, so that a restart at any time between
  iterations would rebuild the same list.
\<close>

theorem thread_keeps_store:
  assumes run: "(thread_step J C R S U)\<^sup>*\<^sup>* (t0, st0, d0) (t, st, d)"
    and inv: "thread_inv C R S view U st0" and cf: "collision_free (block_hash_of C) U"
  shows "store_inv R S view (block_hash_of C) st \<and> headers (sync_headers st) \<noteq> [] \<and>
    holds_chain S view (block_hash_of C) (headers (sync_headers st)) (sync_db st) \<and>
    (\<exists>hl. load_state (block_hash_of C) R S (sync_db st) = Ok (synced_blockhashes st, hl) \<and>
      headers hl = headers (sync_headers st))"
proof -
  have "thread_inv C R S view U (fst (snd (t, st, d)))"
    using run
  proof (induction rule: rtranclp_induct)
    case (step y z)
    then show ?case using thread_step_inv[OF _ _ cf] by (cases y; cases z) fastforce
  qed (use inv in simp)
  then have i: "thread_inv C R S view U st" by simp
  then have s: "store_inv R S view (block_hash_of C) st" "headers (sync_headers st) \<noteq> []"
    "holds_chain S view (block_hash_of C) (headers (sync_headers st)) (sync_db st)"
    and U: "stored_headers S (block_hash_of C) (plain S view (sync_db st)) \<subseteq> U"
    by (simp_all add: thread_inv_def)
  note s' = store_invD[OF s(1)]
  have "plain S view (sync_db st) tip_key = Some (ser_hash S (chain_tip (headers (sync_headers st))))"
    "wf_headers (block_hash_of C) (headers (sync_headers st))"
    using s(3) s'(4) by (simp_all add: holds_chain_def wf_list_def)
  from load_state_chain[OF s'(1,2) this s'(5) collision_free_mono[OF cf U]] s s'(3) show ?thesis by auto
qed

theorem thread_keeps_store_witness:
  "\<exists>d. (thread_step json_serde byte_codec tree_rocks disk_codec
      (header ` (set node_chain \<union> set (headers forked_list))))\<^sup>*\<^sup>*
      (3, forked_store, sample_daemon) (3, forked_store, d) \<and>
    (\<exists>hl. load_state (block_hash_of byte_codec) tree_rocks disk_codec (sync_db forked_store) =
      Ok (synced_blockhashes forked_store, hl) \<and> headers hl = headers (sync_headers forked_store))"
proof -
  let ?U = "header ` (set node_chain \<union> set (headers forked_list))"
  have bh: "block_hash_of byte_codec = sample_bh" by (simp add: byte_codec_def)
  have hl: "sync_headers forked_store = forked_list" "sync_db forked_store = chain_db (headers forked_list)"
    by (simp_all add: forked_store_def)
  have honest: "honest_node json_serde byte_codec ?U (network sample_daemon) (sample_node (map header node_chain)) node_chain"
    using node_chain_served node_chain_best wf_node_chain
    by (auto simp: honest_node_def bh sample_daemon_def node_chain_def)
  obtain d where "getbestblockhash json_serde byte_codec (sample_node (map header node_chain)) sample_daemon =
      (Ok (chain_tip node_chain), d)"
    using node_chain_best[of sample_daemon] by (metis prod.collapse)
  moreover have "chain_tip node_chain = 3" by (simp add: node_chain_def sample_defs)
  ultimately have "indexer_iteration json_serde byte_codec (sample_node (map header node_chain)) tree_rocks disk_codec 3
      (forked_store, sample_daemon) = Some (Ok 3, forked_store, d)"
    by (simp add: indexer_iteration_def)
  with thread_step.iterate[OF honest] have step: "(thread_step json_serde byte_codec tree_rocks disk_codec ?U)\<^sup>*\<^sup>*
      (3, forked_store, sample_daemon) (3, forked_store, d)" by blast
  have inv: "thread_inv byte_codec tree_rocks disk_codec RBT.lookup ?U forked_store"
    using forked_store_inv chain_db(2,4)[OF forked_chain]
    by (simp add: thread_inv_def bh holds_chain_def hl image_Un del: chain_tip_simps) (simp add: forked_list_def)
  have "collision_free (block_hash_of byte_codec) ?U" unfolding bh by (rule sample_collision_free)
  from thread_keeps_store[OF step inv this] step show ?thesis by blast
qed

end
