(* ===== verification/Client_Start.thy ===== *)
theory Client_Start
  imports Chain_State Eth_Rpc Types_Config
begin

text \<open>
  The start of the clients of the other chains: the Bitcoin and Dogecoin P2P clients
  (\<open>src/src/chains/btc_p2p.rs\<close>, \<open>src/src/chains/doge_p2p.rs\<close>) with the watchdog that ends the process
  when a client stops answering, the Ethereum light client (\<open>src/src/chains/eth.rs\<close>) and the
  Optimism one (\<open>src/src/chains/optimism.rs\<close>).

  The crates \<open>nakamoto\<close>, \<open>helios\<close> and \<open>deeps_rsv\<close> are records of functions. What the code does with
  them is modelled: which network, directory, peers, seal, checkpoint and servers they get from the
  command line, in which order they are called, and what becomes of an error.
\<close>

subsection \<open>P2P clients\<close>

text \<open>The fields of nakamoto's configuration that the code reads or writes; the rest is its own.\<close>

record 'n p2p_config =
  nk_network :: 'n
  nk_root :: string
  nk_connect :: "string list"

text \<open>
  \<open>nk_handle\<close> is the handle of a client while a thread runs it with a configuration; \<open>nk_port\<close> the
  port of a network.
\<close>

record ('n, 'm, 'cl, 'hdr) nakamoto =
  nk_network_from_str :: "string \<Rightarrow> string + 'n"
  nk_config_new :: "'n \<Rightarrow> string \<Rightarrow> bytes option \<Rightarrow> ('n, 'm) p2p_config_scheme"
  nk_dogecoin_regtest :: 'n
  nk_port :: "'n \<Rightarrow> nat"
  nk_handle :: "'cl \<Rightarrow> ('n, 'm) p2p_config_scheme \<Rightarrow> 'hdr p2p"

text \<open>\<open>created\<close> is what \<open>Client::new\<close> returns.\<close>

definition run_p2p_btc_client ::
    "('n, 'm, 'cl, 'hdr) nakamoto \<Rightarrow> string + 'cl \<Rightarrow> string \<Rightarrow> string \<Rightarrow> bytes option
      \<Rightarrow> (string, 'hdr p2p) outcome" where
  "run_p2p_btc_client N created name database_path sealkey =
     and_then (unwrap_res (nk_network_from_str N name)) (\<lambda>net.
     let config = nk_config_new N net (database_path @ ''/nak-btc'') sealkey in
     and_then (of_sum created) (\<lambda>client.
       Ok (nk_handle N client config)))"

definition regtest_connect :: "('n, 'm, 'cl, 'hdr) nakamoto \<Rightarrow> string list \<Rightarrow> string list \<Rightarrow> string list" where
  "regtest_connect N regtest_peer connect =
     (if regtest_peer \<noteq> [] then regtest_peer
      else connect @ [''127.0.0.1:'' @ show_decimal (nk_port N (nk_dogecoin_regtest N))])"

definition run_p2p_doge_client ::
    "('n, 'm, 'cl, 'hdr) nakamoto \<Rightarrow> string + 'cl \<Rightarrow> config_cli \<Rightarrow> bytes option \<Rightarrow> (string, 'hdr p2p) outcome" where
  "run_p2p_doge_client N created config sealkey =
     (let network_type = network_name (cli_doge_network_type config) in
      and_then (unwrap_res (nk_network_from_str N network_type)) (\<lambda>net.
      let client_config = nk_config_new N net (cli_store config @ ''/nak-doge'') sealkey;
          client_config =
            (if cli_doge_network_type config = DogecoinRegtest
             then client_config\<lparr>nk_connect := regtest_connect N (cli_regtest_peer config) (nk_connect client_config)\<rparr>
             else client_config) in
      and_then (of_sum created) (\<lambda>client.
        Ok (nk_handle N client client_config))))"

text \<open>
  \<open>restart\<close>, the same in both files. \<open>get_tip t\<close> is the client's answer \<open>t\<close> seconds after the thread
  started. The value is the time at which the process exits and its exit code; \<open>None\<close> when it never
  does.
\<close>

partial_function (option) restart_loop :: "(nat \<Rightarrow> 'e + 'a) \<Rightarrow> nat \<Rightarrow> (nat \<times> int) option" where
  "restart_loop get_tip now =
     (case get_tip now of
        Inl _ \<Rightarrow> Some (now, 0)
      | Inr _ \<Rightarrow> restart_loop get_tip (now + 40))"

definition restart :: "(nat \<Rightarrow> 'e + 'a) \<Rightarrow> (nat \<times> int) option" where
  "restart get_tip = restart_loop get_tip (5 * 60)"

subsection \<open>Light clients\<close>

text \<open>Waiting for something that may never come (\<open>None\<close>).\<close>

definition await_then ::
    "('e, 'a) outcome option \<Rightarrow> ('a \<Rightarrow> ('e, 'b) outcome option) \<Rightarrow> ('e, 'b) outcome option" where
  "await_then m k =
     (case m of
        None \<Rightarrow> None
      | Some (Ok a) \<Rightarrow> k a
      | Some (Err e) \<Rightarrow> Some (Err e)
      | Some (Panic p) \<Rightarrow> Some (Panic p))"

lemma await_then_Ok_iff [outcome_simps]:
  "await_then m k = Some (Ok b) \<longleftrightarrow> (\<exists>a. m = Some (Ok a) \<and> k a = Some (Ok b))"
  by (auto simp: await_then_def split: option.splits outcome.splits)

record ('n, 'cp) eth_builder =
  eb_network :: 'n
  eb_consensus_rpc :: string
  eb_execution_rpc :: string
  eb_data_dir :: string
  eb_checkpoint :: 'cp

text \<open>
  The crates behind the Ethereum client. \<open>fetch_eth_checkpoint\<close> is of \<open>deeps_rsv\<close>,
  \<open>b256_from_slice\<close> of \<open>alloy\<close> (it panics on a wrong length); \<open>wait_synced\<close> is \<open>None\<close> when the client
  never gets synced.
\<close>

record ('n, 'cf, 'cp, 'cl) helios_ethereum =
  he_network_from_str :: "string \<Rightarrow> string + 'n"
  fetch_eth_checkpoint :: "string \<Rightarrow> string + bytes"
  b256_from_slice :: "bytes \<Rightarrow> 'cp panicky"
  checkpoint_fallback_build :: "string + 'cf"
  fetch_latest_checkpoint :: "'cf \<Rightarrow> 'n \<Rightarrow> string + 'cp"
  he_build :: "('n, 'cp) eth_builder \<Rightarrow> string + 'cl"
  he_start :: "'cl \<Rightarrow> string + 'cl"
  he_wait_synced :: "'cl \<Rightarrow> 'cl option"

record eth_config =
  consensus_rpc :: string
  execution_rpc :: string
  eth_network :: string
  subclient_url :: string
  sgx_enable :: bool

definition eth_checkpoint ::
    "('n, 'cf, 'cp, 'cl) helios_ethereum \<Rightarrow> bool \<Rightarrow> string \<Rightarrow> 'n \<Rightarrow> (string, 'cp) outcome" where
  "eth_checkpoint E sgx url net =
     (if sgx
      then and_then (unwrap_res (fetch_eth_checkpoint E url)) (\<lambda>checkpoint.
           embed (b256_from_slice E checkpoint))
      else and_then (unwrap_res (checkpoint_fallback_build E)) (\<lambda>cf.
           unwrap_res (fetch_latest_checkpoint E cf net)))"

definition start_helios_eth ::
    "('n, 'cf, 'cp, 'cl) helios_ethereum \<Rightarrow> eth_config \<Rightarrow> (string, 'cl) outcome option" where
  "start_helios_eth E config =
     await_then (Some
       (and_then (unwrap_res (he_network_from_str E (eth_network config))) (\<lambda>net.
        and_then (eth_checkpoint E (sgx_enable config) (subclient_url config) net) (\<lambda>checkpoint.
        and_then (map_err (\<lambda>e. ''client new '' @ e) (of_sum (he_build E
          \<lparr>eb_network = net, eb_consensus_rpc = consensus_rpc config,
           eb_execution_rpc = execution_rpc config, eb_data_dir = ''./db/data'',
           eb_checkpoint = checkpoint\<rparr>))) (\<lambda>client.
        map_err (\<lambda>e. ''client start '' @ e) (of_sum (he_start E client))))))) (\<lambda>client.
     map_option Ok (he_wait_synced E client))"

text \<open>
  The task is spawned and its channel read: a task that fails unwraps, drops the sender, and the
  receiver's \<open>unwrap\<close> panics.
\<close>

fun received :: "('e, 'a) outcome option \<Rightarrow> 'a panicky option" where
  "received None = None"
| "received (Some (Ok client)) = Some (Ok client)"
| "received (Some (Err _)) = Some (Panic UnwrapFailed)"
| "received (Some (Panic _)) = Some (Panic UnwrapFailed)"

lemma received_Ok_iff [outcome_simps]: "received m = Some (Ok a) \<longleftrightarrow> m = Some (Ok a)"
  by (cases m rule: received.cases) auto

definition run_eth_light_client ::
    "('n, 'cf, 'cp, 'cl) helios_ethereum \<Rightarrow> config_cli \<Rightarrow> 'cl panicky option" where
  "run_eth_light_client E config =
     received (start_helios_eth E
       \<lparr>consensus_rpc = cli_consensus_rpc config, execution_rpc = cli_execution_rpc config,
        eth_network = cli_eth_network config, subclient_url = cli_subclient_url config,
        sgx_enable = cli_sgx_enable config\<rparr>)"

record 'n op_builder =
  ob_network :: 'n
  ob_consensus_rpc :: string
  ob_execution_rpc :: string

record ('n, 'cl) helios_opstack =
  ho_network_from_str :: "string \<Rightarrow> string + 'n"
  ho_build :: "'n op_builder \<Rightarrow> string + 'cl"

record op_config =
  op_consensus_rpc :: string
  op_execution_rpc :: string
  op_network :: string

definition start_helios_op :: "('n, 'cl) helios_opstack \<Rightarrow> op_config \<Rightarrow> (string, 'cl) outcome" where
  "start_helios_op H config =
     and_then (unwrap_res (ho_network_from_str H (op_network config))) (\<lambda>net.
     map_err (\<lambda>e. ''client new '' @ e) (of_sum (ho_build H
       \<lparr>ob_network = net, ob_consensus_rpc = op_consensus_rpc config,
        ob_execution_rpc = op_execution_rpc config\<rparr>)))"

definition run_op_light_client :: "('n, 'cl) helios_opstack \<Rightarrow> config_cli \<Rightarrow> 'cl panicky option" where
  "run_op_light_client H config =
     received (Some (start_helios_op H
       \<lparr>op_consensus_rpc = cli_op_consensus_rpc config, op_execution_rpc = cli_op_execution_rpc config,
        op_network = cli_op_network config\<rparr>))"

subsection \<open>What a started client was given\<close>

lemma run_p2p_btc_client_Ok:
  "run_p2p_btc_client N created name database_path sealkey = Ok h \<longleftrightarrow>
    (\<exists>n client. nk_network_from_str N name = Inr n \<and> created = Inr client \<and>
      h = nk_handle N client (nk_config_new N n (database_path @ ''/nak-btc'') sealkey))"
  by (auto simp: run_p2p_btc_client_def outcome_simps)

lemma run_p2p_doge_client_Ok:
  "run_p2p_doge_client N created config sealkey = Ok h \<longleftrightarrow>
    (\<exists>n client. nk_network_from_str N (network_name (cli_doge_network_type config)) = Inr n \<and> created = Inr client \<and>
      h = nk_handle N client
        (let c = nk_config_new N n (cli_store config @ ''/nak-doge'') sealkey in
         if cli_doge_network_type config = DogecoinRegtest
         then c\<lparr>nk_connect := regtest_connect N (cli_regtest_peer config) (nk_connect c)\<rparr> else c))"
  by (auto simp: run_p2p_doge_client_def outcome_simps Let_def)

lemma run_eth_light_client_Ok:
  "run_eth_light_client E config = Some (Ok c) \<longleftrightarrow>
    (\<exists>n checkpoint built started. he_network_from_str E (cli_eth_network config) = Inr n \<and>
      eth_checkpoint E (cli_sgx_enable config) (cli_subclient_url config) n = Ok checkpoint \<and>
      he_build E \<lparr>eb_network = n, eb_consensus_rpc = cli_consensus_rpc config,
        eb_execution_rpc = cli_execution_rpc config, eb_data_dir = ''./db/data'',
        eb_checkpoint = checkpoint\<rparr> = Inr built \<and>
      he_start E built = Inr started \<and> he_wait_synced E started = Some c)"
  by (auto simp: run_eth_light_client_def start_helios_eth_def outcome_simps)

lemma run_op_light_client_Ok:
  "run_op_light_client H config = Some (Ok c) \<longleftrightarrow>
    (\<exists>n. ho_network_from_str H (cli_op_network config) = Inr n \<and>
      ho_build H \<lparr>ob_network = n, ob_consensus_rpc = cli_op_consensus_rpc config,
        ob_execution_rpc = cli_op_execution_rpc config\<rparr> = Inr c)"
  by (auto simp: run_op_light_client_def start_helios_op_def outcome_simps)

subsection \<open>The watchdog\<close>

lemma restart_loop_ends:
  fixes get_tip :: "nat \<Rightarrow> 'e + 'a"
  assumes "restart_loop get_tip now = Some r"
  shows "\<exists>k. isl (get_tip (now + 40 * k))"
proof (rule restart_loop.raw_induct[where P = "\<lambda>g n _. \<exists>k. isl (g (n + 40 * k))", OF _ assms])
  fix loop :: "(nat \<Rightarrow> 'e + 'a) \<Rightarrow> nat \<Rightarrow> (nat \<times> int) option" and get_tip :: "nat \<Rightarrow> 'e + 'a" and now r
  assume IH: "\<And>g n r. loop g n = Some r \<Longrightarrow> \<exists>k. isl (g (n + 40 * k))"
    and step: "(case get_tip now of Inl _ \<Rightarrow> Some (now, 0) | Inr _ \<Rightarrow> loop get_tip (now + 40)) = Some r"
  show "\<exists>k. isl (get_tip (now + 40 * k))"
  proof (cases "get_tip now")
    case (Inl e)
    then show ?thesis by (intro exI[of _ 0]) simp
  next
    case (Inr a)
    with step IH obtain k where "isl (get_tip (now + 40 + 40 * k))" by fastforce
    then show ?thesis by (intro exI[of _ "Suc k"]) (simp add: algebra_simps)
  qed
qed

lemma restart_loop_first:
  assumes "isl (get_tip (now + 40 * k))" and "\<forall>j < k. \<not> isl (get_tip (now + 40 * j))"
  shows "restart_loop get_tip now = Some (now + 40 * k, 0)"
  using assms
proof (induction k arbitrary: now)
  case 0
  then show ?case by (cases "get_tip now") (simp_all add: restart_loop.simps[of get_tip now])
next
  case (Suc k)
  have "restart_loop get_tip (now + 40) = Some (now + 40 + 40 * k, 0)"
  proof (rule Suc.IH)
    show "\<forall>j < k. \<not> isl (get_tip (now + 40 + 40 * j))"
      using Suc.prems(2) by (metis Suc_less_eq add.assoc mult_Suc_right)
  qed (use Suc.prems(1) in \<open>simp add: algebra_simps\<close>)
  moreover have "\<not> isl (get_tip now)" using Suc.prems(2)[rule_format, of 0] by simp
  ultimately show ?case by (cases "get_tip now") (simp_all add: restart_loop.simps[of get_tip now])
qed

text \<open>
  C12: the watchdog ends the process exactly when its client fails. It polls after five minutes and
  then every 40 seconds; the process exits at the first poll that fails, with code 0, and the
  watchdog runs for ever when none does.
\<close>

theorem restart_at_first_failure:
  "restart get_tip =
     (if \<exists>k. isl (get_tip (300 + 40 * k)) then Some (300 + 40 * (LEAST k. isl (get_tip (300 + 40 * k))), 0)
      else None)"
proof (cases "\<exists>k. isl (get_tip (300 + 40 * k))")
  case True
  let ?k = "LEAST k. isl (get_tip (300 + 40 * k))"
  have "isl (get_tip (300 + 40 * ?k))" by (rule LeastI_ex[OF True])
  moreover have "\<forall>j < ?k. \<not> isl (get_tip (300 + 40 * j))" using not_less_Least by blast
  ultimately show ?thesis using True by (simp add: restart_def restart_loop_first)
next
  case False
  with restart_loop_ends[of get_tip 300] show ?thesis
    by (cases "restart_loop get_tip 300") (auto simp: restart_def)
qed

end
