(* ===== verification/Node_Start.thy ===== *)
theory Node_Start
  imports Server Client_Start Indexer_Sync
begin

text \<open>
  The start of the process, \<open>src/src/main.rs\<close>: SGX registration and the sealing key, the clients of
  the enabled services with the configuration of the command line, the daemons, the Solana client,
  the store, and the server with the state of its routes. Logging is not modelled.
\<close>

subsection \<open>Start-up\<close>

text \<open>\<open>Result::unwrap\<close> and \<open>Result::expect\<close>.\<close>

fun unwrap_outcome :: "('e, 'a) outcome \<Rightarrow> 'a panicky" where
  "unwrap_outcome (Ok a) = Ok a"
| "unwrap_outcome (Err _) = Panic UnwrapFailed"
| "unwrap_outcome (Panic p) = Panic p"

text \<open>An optional client: built when its service is enabled.\<close>

definition build_if :: "bool \<Rightarrow> ('e, 'a) outcome \<Rightarrow> 'a option panicky" where
  "build_if enabled built =
     (if enabled then and_then (unwrap_outcome built) (\<lambda>a. Ok (Some a)) else Ok None)"

subsection \<open>What start-up gets from outside\<close>

text \<open>
  \<open>ONLINESK\<close>, the key behind a lock: \<open>Inl\<close> when the lock is poisoned, \<open>None\<close> when no key was set.
  A registration sets it, or never returns.
\<close>

type_synonym online_sk = "string + bytes option"

record deeps_rsv =
  register_sgx_2_not_fetch :: "string \<Rightarrow> nat \<Rightarrow> nat \<Rightarrow> string \<Rightarrow> string \<Rightarrow> nat \<Rightarrow> online_sk option"
  register_sgx_test :: "bool \<Rightarrow> online_sk option"

text \<open>
  The crates of the clients and of the store, what creating a P2P client returns for either chain,
  the node's RPC, the iteration order of a set of URLs, the health of a Solana server, whether
  \<open>ENABLE_SINGLE_SOL_RPC\<close> is set, the Solana calls of a client, and binding the listener.
\<close>

record ('hdr, 'v, 'flt, 'lg, 'bl, 'rc, 'sl, 'n, 'm, 'pc, 'en, 'cf, 'cp, 'on, 'db) start_env =
  env_sgx :: deeps_rsv
  env_eth :: "('en, 'cf, 'cp, ('flt, 'lg, 'bl, 'rc) helios) helios_ethereum"
  env_op :: "('on, ('flt, 'lg, 'bl, 'rc) helios) helios_opstack"
  env_p2p :: "('n, 'm, 'pc, 'hdr) nakamoto"
  new_btc_client :: "string + 'pc"
  new_doge_client :: "string + 'pc"
  node_rpc :: "merkle_proof_param_chain \<Rightarrow> 'v \<Rightarrow> (string, 'v) outcome"
  url_order :: "url list \<Rightarrow> url list"
  url_healthy :: "url \<Rightarrow> bool"
  single_sol_rpc :: bool
  sol_calls :: "sol_client \<Rightarrow> 'sl"
  env_rocks :: "'db rocks"
  env_store :: store_codec
  env_bind :: "string \<Rightarrow> string + unit"

subsection \<open>The steps\<close>

definition sgx_registration :: "deeps_rsv \<Rightarrow> config_cli \<Rightarrow> online_sk option" where
  "sgx_registration D config =
     (if cli_sgx_enable config
      then register_sgx_2_not_fetch D (cli_subclient_url config) 30 0 (cli_device_owner config)
             (cli_watcher_device_id config) 4
      else register_sgx_test D False)"

definition initialize_seal_key :: "online_sk \<Rightarrow> bytes panicky" where
  "initialize_seal_key onlinesk = and_then (unwrap_res onlinesk) unwrap_opt"

text \<open>A light client of an enabled service.\<close>

definition light_client_if :: "bool \<Rightarrow> 'a panicky option \<Rightarrow> 'a option panicky option" where
  "light_client_if enabled client =
     (if enabled then await_then client (\<lambda>c. Some (Ok (Some c))) else Some (Ok None))"

definition initialize_helios_client ::
    "('hdr, 'v, 'flt, 'lg, 'bl, 'rc, 'sl, 'n, 'm, 'pc, 'en, 'cf, 'cp, 'on, 'db) start_env \<Rightarrow> config
      \<Rightarrow> (('flt, 'lg, 'bl, 'rc) helios option \<times> ('flt, 'lg, 'bl, 'rc) helios option) panicky option" where
  "initialize_helios_client W config =
     (let cli = configcli config in
      await_then (light_client_if (eth (config_service config)) (run_eth_light_client (env_eth W) cli)) (\<lambda>eth_client.
      await_then (light_client_if (op (config_service config)) (run_op_light_client (env_op W) cli)) (\<lambda>op_client.
        Some (Ok (eth_client, op_client)))))"

definition initialize_p2p_clients ::
    "('hdr, 'v, 'flt, 'lg, 'bl, 'rc, 'sl, 'n, 'm, 'pc, 'en, 'cf, 'cp, 'on, 'db) start_env \<Rightarrow> config
      \<Rightarrow> bytes \<Rightarrow> ('hdr p2p option \<times> 'hdr p2p option) panicky" where
  "initialize_p2p_clients W config key =
     (let cli = configcli config; sealkey = Some key in
      and_then (build_if (btc (config_service config))
        (run_p2p_btc_client (env_p2p W) (new_btc_client W) (network_name (cli_network_type cli)) (cli_store cli)
           sealkey)) (\<lambda>btc_handle.
      and_then (build_if (doge (config_service config))
        (run_p2p_doge_client (env_p2p W) (new_doge_client W) cli sealkey)) (\<lambda>doge_handle.
        Ok (btc_handle, doge_handle))))"

definition initialize_daemons ::
    "'v serde \<Rightarrow> 'p codec \<Rightarrow> 
      ('hdr, 'v, 'flt, 'lg, 'bl, 'rc, 'sl, 'n, 'm, 'pc, 'en, 'cf, 'cp, 'on, 'db) start_env \<Rightarrow> config
      \<Rightarrow> (daemon option \<times> daemon option) panicky" where
  "initialize_daemons J C W config =
     (let cli = configcli config in
      and_then (build_if (btc (config_service config))
        (case cli_cookie cli of
           None \<Rightarrow> Panic UnwrapFailed
         | Some ck \<Rightarrow> daemon_new J C (node_rpc W BitCoin) (cli_daemon_rpc_addr cli) ck (cli_network_type cli)
             (cli_electrs_support cli))) (\<lambda>btc_daemon.
      and_then (build_if (doge (config_service config))
        (case cli_doge_cookie cli of
           None \<Rightarrow> Panic UnwrapFailed
         | Some ck \<Rightarrow> daemon_new J C (node_rpc W DogeCoin) (cli_doge_daemon_rpc_addr cli) ck
             (cli_doge_network_type cli) (cli_electrs_support cli))) (\<lambda>doge_daemon.
        Ok (btc_daemon, doge_daemon))))"

text \<open>
  \<open>ChainsState::new\<close>: the components become the state that the routes share. Of the store
  only the header list is read there.
\<close>

definition chains_state_new ::
    "'db store \<Rightarrow> daemon option \<Rightarrow> daemon option \<Rightarrow> 'hdr p2p option \<Rightarrow> 'hdr p2p option
      \<Rightarrow> ('flt, 'lg, 'bl, 'rc) helios option \<Rightarrow> ('flt, 'lg, 'bl, 'rc) helios option \<Rightarrow> 'sl option
      \<Rightarrow> (bytes, 'v) simple_cache \<Rightarrow> ('hdr, 'v, 'flt, 'lg, 'bl, 'rc, 'sl) shared_state" where
  "chains_state_new st btc_d doge_d btc_h doge_h eth_client op_client sol_c cache =
     \<lparr>chain_state = \<lparr>btc_daemon = btc_d, doge_daemon = doge_d, btc_handle = btc_h, doge_handle = doge_h,
        response_cache = cache\<rparr>,
      helios_client = eth_client, helios_op_client = op_client, solana_client = sol_c,
      store_headers = sync_headers st\<rparr>"

definition initialize_chains_state ::
    "'db store \<Rightarrow> daemon option \<Rightarrow> daemon option \<Rightarrow> 'hdr p2p option \<Rightarrow> 'hdr p2p option
      \<Rightarrow> ('flt, 'lg, 'bl, 'rc) helios option \<Rightarrow> ('flt, 'lg, 'bl, 'rc) helios option \<Rightarrow> 'sl option
      \<Rightarrow> (bytes, 'v) simple_cache \<Rightarrow> ('hdr, 'v, 'flt, 'lg, 'bl, 'rc, 'sl) shared_state" where
  "initialize_chains_state st btc_d doge_d btc_h doge_h eth_client op_client sol_c cache =
     chains_state_new st btc_d doge_d btc_h doge_h eth_client op_client sol_c cache"

text \<open>The server runs when one of two switches is set; otherwise the process ends (\<open>None\<close>).\<close>

definition start_server ::
    "(string \<Rightarrow> string + unit) \<Rightarrow> ('hdr, 'v, 'flt, 'lg, 'bl, 'rc, 'sl) shared_state \<Rightarrow> config
      \<Rightarrow> ('hdr, 'v, 'flt, 'lg, 'bl, 'rc, 'sl) app_state option panicky" where
  "start_server bind shared config =
     (if cli_electrs_support (configcli config) \<or> cli_btc_only_p2p (configcli config)
      then and_then (run_server bind shared config) (\<lambda>s. Ok (Some s)) else Ok None)"

text \<open>
  \<open>main\<close>, in its order: \<open>None\<close> when it waits for ever, otherwise a panic, the end of the process, or
  the state the server starts with.
\<close>

definition start_node ::
    "'v serde \<Rightarrow> 'p codec \<Rightarrow> ('hdr, 'v, 'flt, 'lg, 'bl, 'rc, 'sl, 'n, 'm, 'pc, 'en, 'cf, 'cp, 'on, 'db) start_env \<Rightarrow> config
      \<Rightarrow> ('hdr, 'v, 'flt, 'lg, 'bl, 'rc, 'sl) app_state option panicky option" where
  "start_node J C W config =
     (let cli = configcli config in
      await_then (map_option Ok (sgx_registration (env_sgx W) cli)) (\<lambda>onlinesk.
      await_then (initialize_helios_client W config) (\<lambda>(helios_eth, helios_op). Some (
      and_then (initialize_seal_key onlinesk) (\<lambda>key.
      and_then (initialize_p2p_clients W config key) (\<lambda>(btc_h, doge_h).
      and_then (initialize_daemons J C W config) (\<lambda>(btc_d, doge_d).
      and_then (unwrap_outcome (initialize_sol_client (url_order W) (url_healthy W) (single_sol_rpc W)
          (config_service config) (cli_sol_extra_rpcs cli) (cli_sol_judge_rpc cli))) (\<lambda>sol_c.
      and_then (store_open (block_hash_of C) (env_rocks W) (env_store W) (cli_store cli)) (\<lambda>st.
        start_server (env_bind W)
          (initialize_chains_state st btc_d doge_d btc_h doge_h helios_eth helios_op
            (map_option (sol_calls W) sol_c) (cache_new 2000)) config)))))))))"

subsection \<open>What start-up provides\<close>

lemma build_if_Ok: "build_if enabled built = Ok x \<Longrightarrow> (x \<noteq> None) = enabled"
  by (auto simp: build_if_def outcome_simps split: if_splits)

lemma unwrap_outcome_Ok [outcome_simps]: "unwrap_outcome m = Ok a \<longleftrightarrow> m = Ok a"
  by (cases m) auto

text \<open>Everything that holds once the server serves.\<close>

lemma start_node_serving:
  assumes "start_node J C W config = Some (Ok (Some s))"
  obtains sk ec oc key bh dh bd dd sc st where
    "sgx_registration (env_sgx W) (configcli config) = Some sk" and "initialize_seal_key sk = Ok key"
    and "initialize_helios_client W config = Some (Ok (ec, oc))"
    and "initialize_p2p_clients W config key = Ok (bh, dh)"
    and "initialize_daemons J C W config = Ok (bd, dd)"
    and "initialize_sol_client (url_order W) (url_healthy W) (single_sol_rpc W) (config_service config)
      (cli_sol_extra_rpcs (configcli config)) (cli_sol_judge_rpc (configcli config)) = Ok sc"
    and "store_open (block_hash_of C) (env_rocks W) (env_store W) (cli_store (configcli config)) = Ok st"
    and "env_bind W (cli_http_addr (configcli config)) = Inr ()"
    and "s = \<lparr>chain_state = \<lparr>btc_daemon = bd, doge_daemon = dd, btc_handle = bh, doge_handle = dh,
        response_cache = cache_new 2000\<rparr>, helios_client = ec, helios_op_client = oc,
      solana_client = map_option (sol_calls W) sc, store_headers = sync_headers st,
      app_sgx = cli_sgx_enable (configcli config),
      app_network = \<lparr>net_btc = cli_network_type (configcli config),
        net_doge = cli_doge_network_type (configcli config)\<rparr>, app_service = config_service config\<rparr>"
  using assms
  by (auto simp: start_node_def Let_def start_server_def run_server_def start_def initialize_chains_state_def chains_state_new_def
      outcome_simps split: if_splits prod.splits)

lemma light_client_if_Ok:
  "light_client_if enabled client = Some (Ok x) \<longleftrightarrow>
    (if enabled then \<exists>c. client = Some (Ok c) \<and> x = Some c else x = None)"
  by (auto simp: light_client_if_def outcome_simps)

lemma start_node_ready:
  assumes "start_node J C W config = Some (Ok (Some s))"
  shows "clients_ready s" and "app_service s = config_service config" and "response_cache (chain_state s) = cache_new 2000"
proof -
  let ?service = "config_service config"
  from assms obtain sk ec oc key bh dh bd dd sc st where
    helios: "initialize_helios_client W config = Some (Ok (ec, oc))"
    and p2p: "initialize_p2p_clients W config key = Ok (bh, dh)"
    and daemons: "initialize_daemons J C W config = Ok (bd, dd)"
    and sol: "initialize_sol_client (url_order W) (url_healthy W) (single_sol_rpc W) ?service
      (cli_sol_extra_rpcs (configcli config)) (cli_sol_judge_rpc (configcli config)) = Ok sc"
    and s: "chain_state s = \<lparr>btc_daemon = bd, doge_daemon = dd, btc_handle = bh, doge_handle = dh,
        response_cache = cache_new 2000\<rparr>" "app_service s = ?service" "helios_client s = ec"
      "helios_op_client s = oc" "solana_client s = map_option (sol_calls W) sc"
    by (rule start_node_serving) (rule that; simp)
  have "sol ?service \<longrightarrow> sc \<noteq> None"
    using sol by (auto simp: initialize_sol_client_def Let_def split: if_splits)
  moreover have "(bh \<noteq> None) = btc ?service" "(dh \<noteq> None) = doge ?service"
    using p2p by (auto simp: initialize_p2p_clients_def Let_def outcome_simps dest!: build_if_Ok)
  moreover have "(bd \<noteq> None) = btc ?service" "(dd \<noteq> None) = doge ?service"
    using daemons by (auto simp: initialize_daemons_def Let_def outcome_simps dest!: build_if_Ok)
  moreover have "(ec \<noteq> None) = eth ?service" "(oc \<noteq> None) = op ?service"
    using helios by (auto simp: initialize_helios_client_def Let_def outcome_simps light_client_if_Ok split: if_splits)
  ultimately show "clients_ready s" using s
    by (auto simp: clients_ready_def get_handle_def get_daemon_def)
  show "app_service s = ?service" "response_cache (chain_state s) = cache_new 2000" using s by simp_all
qed

lemma start_node_daemons:
  assumes "start_node J C W config = Some (Ok (Some s))"
  shows "\<And>d. get_daemon BitCoin (chain_state s) = Some d \<Longrightarrow>
      endpoint d = (cli_daemon_rpc_addr (configcli config), cli_network_type (configcli config),
        the (cli_cookie (configcli config)))"
    and "\<And>d. get_daemon DogeCoin (chain_state s) = Some d \<Longrightarrow>
      endpoint d = (cli_doge_daemon_rpc_addr (configcli config), cli_doge_network_type (configcli config),
        the (cli_doge_cookie (configcli config)))"
proof -
  obtain bd dd where daemons: "initialize_daemons J C W config = Ok (bd, dd)"
    and s: "get_daemon BitCoin (chain_state s) = bd" "get_daemon DogeCoin (chain_state s) = dd"
    by (rule start_node_serving[OF assms]) (rule that; simp add: get_daemon_def)
  from daemons have
    "\<And>d. bd = Some d \<Longrightarrow> endpoint d = (cli_daemon_rpc_addr (configcli config), cli_network_type (configcli config),
      the (cli_cookie (configcli config)))"
    "\<And>d. dd = Some d \<Longrightarrow> endpoint d = (cli_doge_daemon_rpc_addr (configcli config), cli_doge_network_type (configcli config),
      the (cli_doge_cookie (configcli config)))"
    by (auto simp: initialize_daemons_def Let_def build_if_def outcome_simps split: if_splits option.splits
        dest!: daemon_new_endpoint)
  then show "\<And>d. get_daemon BitCoin (chain_state s) = Some d \<Longrightarrow>
      endpoint d = (cli_daemon_rpc_addr (configcli config), cli_network_type (configcli config),
        the (cli_cookie (configcli config)))"
    and "\<And>d. get_daemon DogeCoin (chain_state s) = Some d \<Longrightarrow>
      endpoint d = (cli_doge_daemon_rpc_addr (configcli config), cli_doge_network_type (configcli config),
        the (cli_doge_cookie (configcli config)))" by (simp_all add: s)
qed

text \<open>Opening succeeds on consistent rows with a chain and its tip; version and rows decide it.\<close>

lemma store_open_chain:
  assumes inv: "db_inv R S view db" and rows: "rows_ok S bh (plain S view db)"
    and opened: "r_open R raw_db_options (path @ ''/sync'') = Inr db" "ser_version S DB_VERSION = Inr v"
    and hold: "holds_chain S view bh hs db" and hs: "wf_headers bh hs"
    and cf: "collision_free bh (stored_headers S bh (plain S view db))"
  shows "store_open bh R S path = Panic Incompatible \<and> plain S view db version_key \<notin> {None, Some v} \<or>
    (\<exists>st. store_open bh R S path = Ok st \<and> headers (sync_headers st) = hs \<and> wf_list bh (sync_headers st))"
proof -
  have S: "store_codec_ok S" using inv by (simp add: db_inv_def)
  have load: "\<exists>st. store_open bh R S path = Ok st \<and> headers (sync_headers st) = hs \<and> wf_list bh (sync_headers st)"
    if compat: "verify_compatibility R S db = (Ok (), db')" and inv': "db_inv R S view db'"
      and rows': "rows_ok S bh (plain S view db')" "stored_headers S bh (plain S view db') = stored_headers S bh (plain S view db)"
      and tip: "plain S view db' tip_key = Some (ser_hash S (chain_tip hs))" for db'
  proof -
    have "header ` set hs \<subseteq> stored_headers S bh (plain S view db')" "collision_free bh (stored_headers S bh (plain S view db'))"
      using hold cf rows'(2) by (simp_all add: holds_chain_def)
    from load_state_chain[OF inv' rows'(1) tip hs this] show ?thesis
      using opened(1) compat by (auto simp: store_open_def db_open_def open_raw_db_def)
  qed
  note rows'' = rows_ok_other(1,3)[OF S other_keys(3,4)]
  consider "plain S view db version_key = None" | "plain S view db version_key = Some v"
    | x where "plain S view db version_key = Some x" "x \<noteq> v" by fastforce
  then show ?thesis
  proof cases
    case 1
    obtain db' where db': "db_put R S version_key v db = (Ok (), db')" "db_inv R S view db'"
      "plain S view db' = (plain S view db)(version_key \<mapsto> v)"
      using db_put_plain(1)[OF inv] by blast
    have "verify_compatibility R S db = (Ok (), db')"
      using 1 db'(1) opened(2) by (simp add: verify_compatibility_def rs.get_abs[OF inv])
    from load[OF this db'(2)] show ?thesis
      using rows'' rows hold by (simp add: db'(3) holds_chain_def)
  next
    case 2
    then have "verify_compatibility R S db = (Ok (), db)"
      using opened(2) by (simp add: verify_compatibility_def rs.get_abs[OF inv])
    from load[OF this inv rows] show ?thesis using hold by (simp add: holds_chain_def)
  next
    case 3
    then have "verify_compatibility R S db = (Panic Incompatible, db)"
      using opened(2) by (simp add: verify_compatibility_def rs.get_abs[OF inv])
    then show ?thesis using 3 opened(1) by (simp add: store_open_def db_open_def open_raw_db_def)
  qed
qed

subsection \<open>A concrete start\<close>

definition sample_config :: config where
  "sample_config = config_from_args ((cli_default ''n'' ''d'' ''l'' ''w'' ''i'' ''j'' ''a'')\<lparr>
     cli_network_type := Regtest, cli_cookie := Some ''c'', cli_doge_network_type := DogecoinRegtest,
     cli_electrs_support := True, cli_start_filter := ''btc,eth''\<rparr>)"

lemma sample_config_fields:
  "config_service sample_config = sample_service"
  "configcli sample_config = (cli_default ''n'' ''d'' ''l'' ''w'' ''i'' ''j'' ''a'')\<lparr>
     cli_network_type := Regtest, cli_cookie := Some ''c'', cli_doge_network_type := DogecoinRegtest,
     cli_electrs_support := True, cli_start_filter := ''btc,eth''\<rparr>"
  by (simp_all add: sample_config_def config_from_args_def sample_service_def start_filter_def start_services_def
      start_service_def service_default_def)

text \<open>Crates that accept everything; the store opens an empty database.\<close>

definition sample_start_env ::
    "(block_header, json, string, string, string, string,
      (string, bytes, string, u8, string, unit, unit, unit, unit) sol_api, string, unit, unit, string, unit,
      bytes, string, (bytes, bytes) rbt) start_env" where
  "sample_start_env = \<lparr>
     env_sgx = \<lparr>register_sgx_2_not_fetch = (\<lambda>_ _ _ _ _ _. None), register_sgx_test = (\<lambda>_. Some (Inr (Some [1])))\<rparr>,
     env_eth = \<lparr>he_network_from_str = Inr, fetch_eth_checkpoint = (\<lambda>_. Inl ''off''),
       b256_from_slice = (\<lambda>bs. if length bs = 32 then Ok bs else Panic AssertFailed),
       checkpoint_fallback_build = Inr (), fetch_latest_checkpoint = (\<lambda>_ _. Inr [0]),
       he_build = (\<lambda>_. Inr (sample_helios ''rc'')), he_start = Inr, he_wait_synced = Some\<rparr>,
     env_op = \<lparr>ho_network_from_str = Inr, ho_build = (\<lambda>_. Inr (sample_helios ''op''))\<rparr>,
     env_p2p = \<lparr>nk_network_from_str = Inr,
       nk_config_new = (\<lambda>n root _. \<lparr>nk_network = n, nk_root = root, nk_connect = []\<rparr>),
       nk_dogecoin_regtest = ''dogecoin_regtest'', nk_port = (\<lambda>_. 18444), nk_handle = (\<lambda>_ _. sample_p2p)\<rparr>,
     new_btc_client = Inr (), new_doge_client = Inl ''no peers'', node_rpc = lying_node, url_order = (\<lambda>us. us),
     url_healthy = (\<lambda>_. True), single_sol_rpc = False, sol_calls = (\<lambda>_. sample_api),
     env_rocks = tree_rocks, env_store = disk_codec, env_bind = (\<lambda>_. Inr ())\<rparr>"

lemma open_empty_store:
  "\<exists>db. store_open bh tree_rocks disk_codec path =
    Ok \<lparr>sync_db = db, synced_blockhashes = {}, sync_headers = empty_list, reload = False\<rparr>"
proof -
  let ?v = "le_bytes 4 DB_VERSION"
  obtain db where db: "db_put tree_rocks disk_codec version_key ?v RBT.empty = (Ok (), db)"
    "RBT.lookup db = Map.empty(version_key \<mapsto> ?v)"
    using db_put_plain(1)[OF tree_inv, of version_key ?v RBT.empty] by auto
  have "verify_compatibility tree_rocks disk_codec RBT.empty = (Ok (), db)"
    using db(1) by (simp add: verify_compatibility_def rs.get_abs[OF tree_inv]) (simp add: disk_codec_def)
  then have "db_open tree_rocks disk_codec (path @ ''/sync'') = Ok db"
    by (simp add: db_open_def open_raw_db_def) (simp add: tree_rocks_def)
  moreover have "rows_ok disk_codec bh (plain disk_codec RBT.lookup db)" "done_hashes disk_codec (RBT.lookup db) = {}"
    using rows_ok_other(3)[OF disk_codec_ok other_keys(3,4) rows_ok_empty]
      rows_ok_other(2)[OF disk_codec_ok other_keys(3,4)]
    by (simp_all add: db(2)) (simp add: done_hashes_def)
  ultimately show ?thesis
    by (simp add: store_open_def load_state_def load_blockhashes_done[OF tree_inv] rs.get_abs[OF tree_inv] db(2)
        other_keys(5)[symmetric])
qed

lemmas sample_start_simps = start_node_def await_then_def sgx_registration_def initialize_helios_client_def
  light_client_if_def run_eth_light_client_def start_helios_eth_def eth_checkpoint_def initialize_seal_key_def
  initialize_p2p_clients_def run_p2p_btc_client_def initialize_daemons_def initialize_chains_state_def chains_state_new_def
  start_server_def run_server_def start_def build_if_def daemon_new_def initialize_sol_client_def
  sample_config_fields cli_default_def sample_start_env_def sample_service_def service_default_def sample_app_def

lemma sample_start: "start_node json_serde byte_codec sample_start_env sample_config = Some (Ok (Some sample_app))"
proof -
  obtain db where db: "store_open (block_hash_of byte_codec) tree_rocks disk_codec ''./db'' =
    Ok \<lparr>sync_db = db, synced_blockhashes = {}, sync_headers = empty_list, reload = False\<rparr>"
    using open_empty_store by blast
  show ?thesis
    by (simp add: sample_start_simps db)
qed

subsection \<open>Properties\<close>

text \<open>
  C11: the P2P clients run as the command line says. Once the server serves, the handle of an enabled
  chain is the one of a client on the network named in its option, in a directory of its own under
  the store, sealed with the registered key; only a Dogecoin client on the regression test network
  is told its peers: those of the option or else the local node.
\<close>

theorem p2p_clients_configured:
  assumes start: "start_node J C W config = Some (Ok (Some s))"
  defines "cli \<equiv> configcli config" and "N \<equiv> env_p2p W" and "cs \<equiv> chain_state s"
  shows "\<exists>key. sgx_registration (env_sgx W) cli = Some (Inr (Some key)) \<and>
    (if btc (config_service config)
     then \<exists>n client. nk_network_from_str N (network_name (cli_network_type cli)) = Inr n \<and>
       new_btc_client W = Inr client \<and>
       btc_handle cs = Some (nk_handle N client (nk_config_new N n (cli_store cli @ ''/nak-btc'') (Some key)))
     else btc_handle cs = None) \<and>
    (if doge (config_service config)
     then \<exists>n client. nk_network_from_str N (network_name (cli_doge_network_type cli)) = Inr n \<and>
       new_doge_client W = Inr client \<and>
       doge_handle cs = Some (nk_handle N client
         (let c = nk_config_new N n (cli_store cli @ ''/nak-doge'') (Some key) in
          if cli_doge_network_type cli = DogecoinRegtest
          then c\<lparr>nk_connect := if cli_regtest_peer cli \<noteq> [] then cli_regtest_peer cli
            else nk_connect c @ [''127.0.0.1:'' @ show_decimal (nk_port N (nk_dogecoin_regtest N))]\<rparr> else c))
     else doge_handle cs = None)"
proof -
  obtain sk key bh dh where sk: "sgx_registration (env_sgx W) cli = Some sk" "initialize_seal_key sk = Ok key"
    and p2p: "initialize_p2p_clients W config key = Ok (bh, dh)"
    and cs: "btc_handle cs = bh" "doge_handle cs = dh"
    by (rule start_node_serving[OF start]) (rule that; simp add: cs_def cli_def)
  have "sk = Inr (Some key)" using sk(2) by (simp add: initialize_seal_key_def outcome_simps)
  moreover from p2p have "if btc (config_service config)
      then \<exists>h. run_p2p_btc_client N (new_btc_client W) (network_name (cli_network_type cli)) (cli_store cli) (Some key) = Ok h \<and>
        bh = Some h
      else bh = None"
    "if doge (config_service config)
      then \<exists>h. run_p2p_doge_client N (new_doge_client W) cli (Some key) = Ok h \<and> dh = Some h
      else dh = None"
    unfolding cli_def N_def by (auto simp: initialize_p2p_clients_def Let_def build_if_def outcome_simps split: if_splits)
  ultimately show ?thesis
    unfolding run_p2p_btc_client_Ok run_p2p_doge_client_Ok regtest_connect_def
    by (intro exI[of _ key]) (auto simp: sk(1) cs split: if_splits)
qed

theorem p2p_clients_configured_witness:
  "\<exists>key n client. sgx_registration (env_sgx sample_start_env) (configcli sample_config) = Some (Inr (Some key)) \<and>
    nk_network_from_str (env_p2p sample_start_env) ''regtest'' = Inr n \<and>
    new_btc_client sample_start_env = Inr client \<and>
    btc_handle (chain_state sample_app) = Some (nk_handle (env_p2p sample_start_env) client
      (nk_config_new (env_p2p sample_start_env) n ''./db/nak-btc'' (Some key)))"
  using p2p_clients_configured[OF sample_start]
  by (auto simp: sample_config_fields sample_service_def service_default_def cli_default_def)

text \<open>
  C10: the server starts with light clients that are ready. Once it serves, the Ethereum client of an
  enabled service was built for the network and the servers of the command line on a checkpoint that
  comes from the attestation server when SGX is enabled and from the public services otherwise, and
  it was started and has finished to synchronise. The Optimism client was only built.
\<close>

theorem light_clients_synced:
  assumes start: "start_node J C W config = Some (Ok (Some s))"
  defines "cli \<equiv> configcli config" and "E \<equiv> env_eth W"
  shows "(if eth (config_service config)
     then \<exists>n checkpoint built started c. he_network_from_str E (cli_eth_network cli) = Inr n \<and>
       (if cli_sgx_enable cli
        then \<exists>bs. fetch_eth_checkpoint E (cli_subclient_url cli) = Inr bs \<and> b256_from_slice E bs = Ok checkpoint
        else \<exists>cf. checkpoint_fallback_build E = Inr cf \<and> fetch_latest_checkpoint E cf n = Inr checkpoint) \<and>
       he_build E \<lparr>eb_network = n, eb_consensus_rpc = cli_consensus_rpc cli, eb_execution_rpc = cli_execution_rpc cli,
         eb_data_dir = ''./db/data'', eb_checkpoint = checkpoint\<rparr> = Inr built \<and>
       he_start E built = Inr started \<and> he_wait_synced E started = Some c \<and> helios_client s = Some c
     else helios_client s = None) \<and>
    (if op (config_service config)
     then \<exists>n c. ho_network_from_str (env_op W) (cli_op_network cli) = Inr n \<and>
       ho_build (env_op W) \<lparr>ob_network = n, ob_consensus_rpc = cli_op_consensus_rpc cli,
         ob_execution_rpc = cli_op_execution_rpc cli\<rparr> = Inr c \<and> helios_op_client s = Some c
     else helios_op_client s = None)"
proof -
  obtain ec oc where helios: "initialize_helios_client W config = Some (Ok (ec, oc))"
    and s: "helios_client s = ec" "helios_op_client s = oc"
    by (rule start_node_serving[OF start]) (rule that; simp)
  have cp: "eth_checkpoint E sgx url n = Ok checkpoint \<longleftrightarrow>
      (if sgx then \<exists>bs. fetch_eth_checkpoint E url = Inr bs \<and> b256_from_slice E bs = Ok checkpoint
       else \<exists>cf. checkpoint_fallback_build E = Inr cf \<and> fetch_latest_checkpoint E cf n = Inr checkpoint)"
    for sgx url n checkpoint by (auto simp: eth_checkpoint_def outcome_simps)
  from helios have "light_client_if (eth (config_service config)) (run_eth_light_client E cli) = Some (Ok ec)"
    "light_client_if (op (config_service config)) (run_op_light_client (env_op W) cli) = Some (Ok oc)"
    unfolding E_def cli_def by (auto simp: initialize_helios_client_def Let_def outcome_simps)
  then show ?thesis
    unfolding light_client_if_Ok run_eth_light_client_Ok run_op_light_client_Ok cp by (simp add: s split: if_splits) blast+
qed

theorem light_clients_synced_witness:
  "\<exists>started c. he_start (env_eth sample_start_env) (sample_helios ''rc'') = Inr started \<and>
    he_wait_synced (env_eth sample_start_env) started = Some c \<and> helios_client sample_app = Some c"
  using light_clients_synced[OF sample_start]
  by (simp add: sample_config_fields sample_service_def service_default_def cli_default_def sample_start_env_def)

text \<open>
  C8: the node comes back with the chain it had synchronised. Run the indexer against a node that
  serves the chain \<open>hs\<close>, whatever the result of the run, and start the process again over the
  database it left: the store opens, its header list is \<open>hs\<close>, and this is the list of the server that
  starts.
\<close>

theorem restart_after_sync:
  fixes J :: "'v serde" and view :: "'db \<Rightarrow> bytes \<Rightarrow> bytes option"
  assumes "store_inv R (env_store W) view (block_hash_of C) st" and "headers (sync_headers st) \<noteq> []"
    and hs: "wf_headers (block_hash_of C) hs"
    and cf: "collision_free (block_hash_of C)
      (stored_headers (env_store W) (block_hash_of C) (plain (env_store W) view (sync_db st)) \<union> header ` set hs)"
    and "serves_chain J C rpc (network d) hs"
    and run: "index_sync_headers J C rpc R (env_store W) (chain_tip hs) (st, d) = Some (r, st', d')"
    and disk: "r_open (env_rocks W) raw_db_options (cli_store (configcli config) @ ''/sync'') = Inr (sync_db st')"
      "rocks_ok (env_rocks W) view" "ser_version (env_store W) DB_VERSION = Inr v"
      "plain (env_store W) view (sync_db st) version_key = Some v"
  shows "\<exists>st2. store_open (block_hash_of C) (env_rocks W) (env_store W) (cli_store (configcli config)) = Ok st2 \<and>
    headers (sync_headers st2) = hs \<and> wf_list (block_hash_of C) (sync_headers st2) \<and>
    (\<forall>s. start_node J C W config = Some (Ok (Some s)) \<longrightarrow> store_headers s = sync_headers st2)"
proof -
  let ?S = "env_store W" and ?bh = "block_hash_of C"
  let ?db = "sync_db st'"
  from sync_run[OF assms(1-5)] run have out: "run_outcome R ?S view ?bh hs r st'"
    "stored_headers ?S ?bh (plain ?S view ?db) = stored_headers ?S ?bh (plain ?S view (sync_db st)) \<union> header ` set hs"
    "plain ?S view ?db version_key = plain ?S view (sync_db st) version_key" by fastforce+
  have rows: "rows_ok ?S ?bh (plain ?S view ?db)" "holds_chain ?S view ?bh hs ?db"
    and "db_inv R ?S view ?db"
    using out(1) by (simp_all add: run_outcome_def)
  with disk(2) have "db_inv (env_rocks W) ?S view ?db" by (simp add: db_inv_def)
  from store_open_chain[OF this rows(1) disk(1,3) rows(2) hs] cf out(2,3) disk(4)
  obtain st2 where st2: "store_open ?bh (env_rocks W) ?S (cli_store (configcli config)) = Ok st2"
    "headers (sync_headers st2) = hs" "wf_list ?bh (sync_headers st2)" by auto
  have "store_headers s = sync_headers st2" if start: "start_node J C W config = Some (Ok (Some s))" for s
    by (rule start_node_serving[OF start]) (use st2(1) in simp)
  with st2 show ?thesis by blast
qed

theorem restart_after_sync_witness:
  "\<exists>db st2 s. store_open sample_bh (tree_rocks\<lparr>r_open := \<lambda>_ _. Inr db\<rparr>) disk_codec ''./db'' = Ok st2 \<and>
    headers (sync_headers st2) = node_chain \<and>
    start_node json_serde byte_codec (sample_start_env\<lparr>env_rocks := tree_rocks\<lparr>r_open := \<lambda>_ _. Inr db\<rparr>\<rparr>) sample_config =
      Some (Ok (Some s)) \<and> store_headers s = sync_headers st2"
proof -
  have bh: "block_hash_of byte_codec = sample_bh" by (simp add: byte_codec_def)
  note fork = forked_store_inv[folded bh] forked_store_collision_free[folded bh] wf_node_chain[folded bh]
  have ne: "headers (sync_headers forked_store) \<noteq> []" by (simp add: forked_store_def forked_list_def)
  have served: "serves_chain json_serde byte_codec (sample_node (map header node_chain)) (network sample_daemon) node_chain"
    using node_chain_served by (simp add: sample_daemon_def)
  obtain r :: "(json sync_error, unit) outcome" and st' d' where
    run: "index_sync_headers json_serde byte_codec (sample_node (map header node_chain)) tree_rocks disk_codec
      (chain_tip node_chain) (forked_store, sample_daemon) = Some (r, st', d')"
    using sync_run[OF fork(1) ne fork(3,2) served] by blast
  let ?R = "tree_rocks\<lparr>r_open := \<lambda>_ _. Inr (sync_db st')\<rparr>"
  let ?W = "sample_start_env\<lparr>env_rocks := ?R\<rparr>"
  have W: "env_store ?W = disk_codec" "env_rocks ?W = ?R" "cli_store (configcli sample_config) = ''./db''"
    by (simp_all add: sample_start_env_def sample_config_fields cli_default_def)
  have R: "rocks_ok ?R RBT.lookup" using tree_rocks_ok by (simp add: rocks_ok_def)
  have v: "ser_version disk_codec DB_VERSION = Inr (le_bytes 4 DB_VERSION)" by (simp add: disk_codec_def)
  have "plain disk_codec RBT.lookup (sync_db forked_store) version_key = Some (le_bytes 4 DB_VERSION)"
    using chain_db(5)[OF forked_chain] by (simp add: forked_store_def)
  from restart_after_sync[where W = ?W and config = sample_config, unfolded W, OF fork(1) ne fork(3,2) served run _ R v this]
  obtain st2 where st2: "store_open sample_bh ?R disk_codec ''./db'' = Ok st2" "headers (sync_headers st2) = node_chain"
    and same: "\<And>s. start_node json_serde byte_codec ?W sample_config = Some (Ok (Some s)) \<Longrightarrow>
      store_headers s = sync_headers st2"
    by (auto simp: bh)
  have "start_node json_serde byte_codec ?W sample_config =
      Some (Ok (Some (sample_app\<lparr>store_headers := sync_headers st2\<rparr>)))"
    using st2(1) by (simp add: sample_start_simps bh)
  with st2 same show ?thesis by blast
qed

end
