(* ===== verification/Offline_Checks.thy ===== *)
theory Offline_Checks
  imports Daemon_Rpc "HOL-Library.Sublist"
begin

text \<open>
  The functions that no path of the node calls: the comparison of headers with public APIs
  (\<open>api_check\<close> of \<open>src/src/index.rs\<close>, \<open>request_get\<close> of \<open>src/src/utils.rs\<close>) and the calls of the RPC
  client that are compiled for its tests (\<open>getblockcount\<close>, \<open>getblockbyheight\<close> and
  \<open>doge_block_from_value\<close> of \<open>src/src/daemon.rs\<close>).
\<close>

subsection \<open>Checking headers against an API\<close>

text \<open>\<open>str::replace\<close> with a pattern that is not empty.\<close>

function str_replace :: "string \<Rightarrow> string \<Rightarrow> string \<Rightarrow> string" where
  "str_replace p r [] = []"
| "str_replace p r (c # cs) =
     (if p \<noteq> [] \<and> prefix p (c # cs) then r @ str_replace p r (drop (length p) (c # cs))
      else c # str_replace p r cs)"
  by pat_completeness auto

termination
proof (relation "measure (\<lambda>(p, r, s). length s)")
  fix p r :: string and c cs
  assume "p \<noteq> [] \<and> prefix p (c # cs)"
  then show "((p, r, drop (length p) (c # cs)), (p, r, c # cs)) \<in> measure (\<lambda>(p, r, s). length s)"
    by (cases p) auto
qed auto

text \<open>\<open>send\<close> is the GET request of the HTTP client; its URL must parse.\<close>

definition request_get :: "http \<Rightarrow> (string \<Rightarrow> string + string) \<Rightarrow> 'v serde \<Rightarrow> string \<Rightarrow> (string, 'v) outcome" where
  "request_get net send J addr =
     (if \<not> url_parses net addr then Panic UnwrapFailed
      else and_then (map_err (\<lambda>e. ''failed to get response '' @ e) (of_sum (send addr))) (\<lambda>response.
           and_then (map_err (\<lambda>e. ''failed to get payload '' @ e) (of_sum (response_text net response))) (\<lambda>body.
             map_err (\<lambda>e. ''json error '' @ e) (of_sum (of_text J body)))))"

record api =
  api_name :: string
  api_method :: string
  api_url :: string
  api_replace :: string
  api_data :: string
  api_returntype :: string
  api_returnvaluekey :: string

datatype 'v api_error = BadApi string | GetFailed string | CheckFailed string 'v

text \<open>
  The libraries of the check: \<open>de_api\<close> is \<open>bincode::deserialize\<close>, \<open>header_hex\<close> the hexadecimal form
  of a serialised header, \<open>null_value\<close> the default JSON value, \<open>api_net\<close> and \<open>api_send\<close> the HTTP client.
\<close>

record 'v api_libs =
  de_api :: "bytes \<Rightarrow> string + api"
  header_hex :: "block_header \<Rightarrow> string"
  show_block_hash :: "block_hash \<Rightarrow> string"
  null_value :: 'v
  api_net :: http
  api_send :: "string \<Rightarrow> string + string"

definition api_value :: "'v serde \<Rightarrow> 'v api_libs \<Rightarrow> string \<Rightarrow> api \<Rightarrow> ('v api_error, 'v) outcome" where
  "api_value J A hash_text a =
     (let url = str_replace ''{replace}'' hash_text (api_url a) in
      if api_data a \<noteq> ''none'' then Ok (null_value A) else map_err GetFailed (request_get (api_net A) (api_send A) J url))"

fun check_apis ::
    "'v serde \<Rightarrow> 'v api_libs \<Rightarrow> string \<Rightarrow> string \<Rightarrow> bytes list \<Rightarrow> ('v api_error, unit) outcome" where
  "check_apis J A hash_text header_text [] = Ok ()"
| "check_apis J A hash_text header_text (api_vec # rest) =
     and_then (map_err BadApi (of_sum (de_api A api_vec))) (\<lambda>a.
     and_then (api_value J A hash_text a) (\<lambda>v.
     let api_header = (if api_returntype a = ''string'' then to_text J v else []) in
     if header_text \<noteq> api_header then Err (CheckFailed header_text v)
     else check_apis J A hash_text header_text rest))"

fun api_check ::
    "'v serde \<Rightarrow> 'v api_libs \<Rightarrow> header_entry list \<Rightarrow> bytes list \<Rightarrow> ('v api_error, unit) outcome" where
  "api_check J A [] apis = Ok ()"
| "api_check J A (h # rest) apis =
     and_then (check_apis J A (show_block_hash A (hash h)) (header_hex A (header h)) apis)
       (\<lambda>_. api_check J A rest apis)"

lemma str_replace_none: "\<not> sublist p s \<Longrightarrow> str_replace p r s = s"
  by (induction p r s rule: str_replace.induct)
    (auto simp: sublist_Cons_right dest: prefix_imp_sublist)

lemma str_replace_once:
  assumes "p \<noteq> []" and "\<forall>c \<in> set a. c \<noteq> hd p"
  shows "str_replace p r (a @ p @ b) = a @ r @ str_replace p r b"
  using assms(2)
proof (induction a)
  case Nil
  from assms(1) obtain c cs where p: "p = c # cs" by (cases p) auto
  have "str_replace p r (c # cs @ b) = r @ str_replace p r (drop (length p) (c # cs @ b))"
    using p by (simp del: drop.simps)
  then show ?case using p by simp
next
  case (Cons c a)
  then show ?case using assms(1) by (cases p) auto
qed

text \<open>
  \<open>Value::to_string\<close> writes JSON, so the text of a string value begins with a quotation mark, which
  no hexadecimal text does: a check against an API that answers with a string never succeeds.
\<close>

lemma api_check_refuses_strings:
  assumes json: "\<And>v s. as_str J v = Some s \<Longrightarrow> \<exists>rest. to_text J v = CHR 0x22 # rest"
    and hexa: "CHR 0x22 \<notin> set (header_hex A (header h))"
    and a: "de_api A api_vec = Inr a" "api_data a = ''none''"
    and v: "request_get (api_net A) (api_send A) J (str_replace ''{replace}'' (show_block_hash A (hash h)) (api_url a)) = Ok v"
      "as_str J v = Some s" and ne: "header_hex A (header h) \<noteq> []"
  shows "api_check J A (h # rest) (api_vec # apis) = Err (CheckFailed (header_hex A (header h)) v)"
proof -
  obtain t where "to_text J v = CHR 0x22 # t" using json[OF v(2)] ..
  with hexa have "header_hex A (header h) \<noteq> to_text J v" by auto
  with a v ne show ?thesis by (simp add: api_value_def Let_def)
qed

subsection \<open>Calls compiled for tests\<close>

datatype 'v test_error = Rpc "'v rpc_error" | InvalidBlockCount 'v | NonStringBlock | NonHexBlock

definition rpc_call :: "(daemon, 'v rpc_error, 'a) action \<Rightarrow> (daemon, 'v test_error, 'a) action" where
  "rpc_call m d = (let (r, d') = m d in (map_err Rpc r, d'))"

definition getblockcount ::
    "'v serde \<Rightarrow> ('v \<Rightarrow> (string, 'v) outcome) \<Rightarrow> (daemon, 'v test_error, u64) action" where
  "getblockcount J rpc =
     seq (rpc_call (request J rpc ''getblockcount'' (of_array J []))) (\<lambda>v.
       lift (ok_or (InvalidBlockCount v) (as_u64 J v)))"

record 'tx block =
  blk_header :: block_header
  blk_txdata :: "'tx list"

text \<open>\<open>decode_txs\<close> is \<open>Vec::<Transaction>::consensus_decode\<close>.\<close>

definition doge_block_from_value ::
    "'v serde \<Rightarrow> 'p codec \<Rightarrow> (bytes \<Rightarrow> string + 'tx list \<times> bytes) \<Rightarrow> 'v \<Rightarrow> ('v test_error, 'tx block) outcome" where
  "doge_block_from_value J C decode_txs v =
     and_then (ok_or NonStringBlock (as_str J v)) (\<lambda>block_hex.
     and_then (ok_or NonHexBlock (hex_decode C block_hex)) (\<lambda>block_bytes.
     and_then (map_err Rpc (dec (decode_header C block_bytes))) (\<lambda>(h, bs).
     and_then (if version h AND VERSION_FLAG_AUXPOW \<noteq> 0 then map_err Rpc (skip_auxpow C bs) else Ok bs) (\<lambda>bs.
     and_then (map_err Rpc (dec (decode_txs bs))) (\<lambda>(txdata, _).
       Ok \<lparr>blk_header = h, blk_txdata = txdata\<rparr>)))))"

definition getblockbyheight ::
    "'v serde \<Rightarrow> 'p codec \<Rightarrow> (bytes \<Rightarrow> string + 'tx list \<times> bytes) \<Rightarrow> ('v \<Rightarrow> (string, 'v) outcome) \<Rightarrow> u64
      \<Rightarrow> (daemon, 'v test_error, 'tx block) action" where
  "getblockbyheight J C decode_txs rpc block_height =
     seq (rpc_call (request J rpc ''getblockhash'' (of_array J [of_u64 J block_height]))) (\<lambda>hash_value.
     seq (lift (map_err Rpc (parse_hash J C hash_value))) (\<lambda>block_hash.
     seq (rpc_call (request J rpc ''getblock''
            (of_array J [of_str J (hash_to_string C block_hash), of_bool J False])))
       (\<lambda>block_value. lift (doge_block_from_value J C decode_txs block_value))))"

text \<open>
  The two readers of a Dogecoin block skip the same bytes: on the same value they find the same
  header, and the block's transactions start where the Merkle tree does.
\<close>

lemma doge_readers_agree:
  assumes "doge_block_from_value J C decode_txs v = Ok blk" and "doge_merkleblock_from_value J C v = Ok mb"
  shows "blk_header blk = mb_header mb \<and>
    (\<exists>bs r r'. decode_txs bs = Inr (blk_txdata blk, r) \<and> decode_pmt C bs = Inr (mb_txn mb, r'))"
  using assms
  by (auto simp: doge_block_from_value_def doge_merkleblock_from_value_def dec_def outcome_simps
      split: option.splits prod.splits if_splits) blast+

end
