(* ===== verification/Spec2Isabelle.thy ===== *)
theory Spec2Isabelle
  imports Simple_Cache Daemon_Rpc Indexer_Sync Btc_Rpc Sol_Votes Sol_Round Sol_Calls Sol_Dispatcher Sol_Rpc Eth_Rpc Server
    Indexer_Crash Indexer_Thread Client_Start Node_Start Offline_Checks
begin

text \<open>
  A model of the SPV node of this repository (\<open>src/src\<close>, Rust) and its correctness.

  The node verifies Bitcoin and Dogecoin transactions and relays header, Ethereum, Optimism and
  Solana queries. An HTTP server (\<open>server.rs\<close>) puts a middleware in front of its routes; the
  handlers share the clients built at start-up (\<open>main.rs\<close>) and one response cache (\<open>utils.rs\<close>).
  A proof request fetches a Merkle block from a full node (\<open>daemon.rs\<close>) and compares its root with
  the header that a P2P client serves (\<open>chainstate.rs\<close>). A store (\<open>store.rs\<close>) keeps the header
  chain (\<open>header.rs\<close>) on disk, and an indexer (\<open>index.rs\<close>) keeps it up to date through forks and
  restarts. Solana queries (\<open>chains/sol.rs\<close>) go to a judge server and, through a dispatcher and one
  worker per server, to several others, whose answers are put to a vote.

  \<^bold>\<open>Theories.\<close> Each opens with its own description; names follow the source.
    \<^item> \<open>Prelude\<close>: results (\<open>Ok\<close>, \<open>Err\<close>, \<open>Panic\<close>), state passing with them, shared loops and lemmas.
    \<^item> \<open>Externals\<close>: JSON, the \<open>bitcoin\<close> codec and HTTP as records of functions, with instances.
    \<^item> \<open>Header_Chain\<close>: \<open>header.rs\<close>. The list with its height index and tip; \<open>new\<close>, \<open>order\<close>, \<open>apply\<close>
      and the lookups; the invariant \<open>wf_list\<close>.
    \<^item> \<open>Types_Config\<close>: \<open>types.rs\<close> and \<open>config.rs\<close>. Networks, proof parameters, services, options.
    \<^item> \<open>Simple_Cache\<close>: the cache of \<open>utils.rs\<close> as the sorted list of a B-tree; the locale
      \<open>response_cache\<close> is what its clients rely on.
    \<^item> \<open>Daemon_Rpc\<close>: \<open>daemon.rs\<close>. JSON-RPC batches and their replies, the two header downloads, the
      proof requests with Dogecoin's auxiliary proof of work.
    \<^item> \<open>Block_Store\<close>: \<open>store.rs\<close> over RocksDB and sealing, given by their laws; the locale
      \<open>row_store\<close> has the laws of the rows.
    \<^item> \<open>Indexer_Sync\<close>, \<open>Indexer_Crash\<close>, \<open>Indexer_Thread\<close>: \<open>index.rs\<close> and \<open>start_indexer\<close>. One
      synchronisation and one iteration of the loop; what is on disk after each of its synced writes
      (\<open>durable_states\<close>) and what a restart makes of it; the runs of the thread (\<open>thread_step\<close>).
      At this commit \<open>start_indexer\<close> is marked \<open>allow(dead_code)\<close> and \<open>main\<close> does not call it: the node
      opens the store and serves it, and these theories are about the indexer as it is written.
      Every write counts as durable once it returns; that an unsynced write could be lost or
      reordered by a power failure is outside the model of RocksDB.
    \<^item> \<open>Chain_State\<close>, \<open>Btc_Rpc\<close>: \<open>chainstate.rs\<close> and \<open>btcrpc/\<close>. Proof verification, the header
      batches and the verification routes; the invariant \<open>cache_coherent\<close> of the shared cache.
    \<^item> \<open>Sol_Votes\<close>, \<open>Sol_Client\<close>, \<open>Sol_Round\<close>, \<open>Sol_Calls\<close>, \<open>Sol_Dispatcher\<close>: \<open>chains/sol.rs\<close>. The vote
      rules (locale \<open>vote_rule\<close>); start-up, workers and the loops that collect answers; the same loops
      interleaved with the workers and the clock (\<open>round_step\<close>, locale \<open>recording\<close>); the five calls;
      the dispatcher with its queue of tasks (\<open>dispatcher_step\<close>), whose replies are shown to be
      what the properties of the calls assume (\<open>answers_from\<close>).
    \<^item> \<open>Sol_Rpc\<close>, \<open>Eth_Rpc\<close>: \<open>solrpc/mod.rs\<close> and \<open>ethrpc/mod.rs\<close>, the routes of those chains.
    \<^item> \<open>Server\<close>: \<open>server.rs\<close>. Routes, middleware, status, ping, and the runs of the server
      (\<open>server_step\<close>).
    \<^item> \<open>Client_Start\<close>: \<open>chains/btc_p2p.rs\<close>, \<open>chains/doge_p2p.rs\<close>, \<open>chains/eth.rs\<close>,
      \<open>chains/optimism.rs\<close>. What the P2P and light clients are given, and the watchdog (\<open>restart\<close>).
    \<^item> \<open>Node_Start\<close>: \<open>main.rs\<close>. The start of the process (\<open>start_node\<close>), from the registration to the
      state of the server.
    \<^item> \<open>Offline_Checks\<close>: \<open>api_check\<close>, \<open>request_get\<close> and the RPC calls compiled for tests.

  \<^bold>\<open>State.\<close> A handler is a function from the state to a result and a new state: the header list,
  the store (database, synced hashes, header list, reload flag), the daemon (with its message
  counter), the cache, the chains' state, the application's state. Panics are results, so a claim
  that something is answered excludes them. A loop that need not end returns an option: the
  incremental download and with it the indexer, the watchdog and the start of a light client, where
  \<open>None\<close> is running for ever, and the collection of Solana answers, where it is no response.

  \<^bold>\<open>What is shown.\<close>
    \<^item> Verification: an accepted proof has the root of a header served by a P2P client, in every
      state of a run and whatever the other routes cache (this theory, \<open>Chain_State\<close>, \<open>Btc_Rpc\<close>);
      but the transactions asked for are not compared with those proved.
    \<^item> Header chain: well-formedness is kept, \<open>order\<close> and \<open>apply\<close> fit, the chain survives a restart,
      both downloads are exact, and the indexer converges to the node's chain through forks, up to
      one panic (\<open>run_outcome\<close> permits it; a concrete store exhibits it, and for an empty list it is
      determined when it occurs). A run is atomic for a restart, and the node comes back
      with the chain it had; a first run that is cut off makes the next one panic, and a node that
      answers with a wrong header makes every later start panic.
    \<^item> Start-up: once the server serves, its clients are those the command line asks for, the Ethereum
      client is synced, and every daemon is on a network of its chain in every state of a run; the
      watchdog ends the process exactly at the first failed poll.
    \<^item> Solana: rounds return the plurality of one answer per server in every interleaving, calls
      return what the judge and the servers agree on, where that check can be evaded, and that one
      silent server keeps its task, and with it every later one, unanswered.
    \<^item> Server: enabled requests find their clients and are answered; batches answer each request
      under its identifier; the cache is at every moment a part of what was written.

  \<^bold>\<open>Hypotheses and bounds.\<close> Code outside the repository is a parameter; what a theorem needs of it
  is a hypothesis (\<open>libs_ok\<close>, \<open>rocks_ok\<close>, \<open>store_codec_ok\<close>, \<open>iteration\<close>, \<open>collision_free\<close> on the
  headers that occur), and a witness shows it to hold for concrete functions. Header versions,
  hashes, message numbers, slots and heights on the wire are words; list positions are \<open>nat\<close>.
  No fuel is used: \<open>new\<close> consumes its map, the incremental download is a
  \<open>partial_function\<close> with its termination proved against a node that serves a chain, a worker has
  three attempts.

  \<^bold>\<open>Not modelled.\<close> What the crates do: the P2P and light clients, SGX registration and sealing, the
  web framework, RocksDB, Solana's RPC clients; logging and debug output; the branch of \<open>verify_txid\<close>
  under \<open>if false\<close>; the tests. Requests are served one at a time: the handlers only interleave at
  single operations on the cache and the counter. A poll of the watchdog takes no time.
\<close>

section \<open>Properties that span components\<close>

lemma foreign_proof_in_sample_app:
  "\<exists>cs'. fetch_proof_and_verify json_serde byte_codec object_libs lying_node
     (merkle_proof_param_new [8] None BitCoin) (chain_state sample_app) = (Ok [9], cs')"
proof -
  let ?d = "\<lparr>daemon_rpc_addr = ''n'', network = Regtest, message_id = 0, cookie = ''c''\<rparr>"
  have "\<exists>d'. gettxoutproof json_serde byte_codec (lying_node BitCoin) (merkle_proof_param_new [8] None BitCoin) ?d =
      (Ok (sample_block 9), d')"
    by (simp add: gettxoutproof_def request_def handle_request_batch_def counter_next_def chunks_small
        make_request_def parse_jsonrpc_reply_def sample_node_defs merkleblock_of_chain_def seq_def
        merkleblock_from_value_def merkle_proof_param_new_def lying_node_def sample_block_def)
  then obtain d' where "gettxoutproof json_serde byte_codec (lying_node BitCoin)
      (merkle_proof_param_new [8] None BitCoin) ?d = (Ok (sample_block 9), d')" ..
  moreover have "\<exists>cs'. verify_txid byte_codec object_libs (sample_block 9) (merkle_proof_param_new [8] None BitCoin)
      (chain_state sample_app\<lparr>btc_daemon := Some d'\<rparr>) = (Ok [9], cs')"
    by (simp add: sample_app_def object_libs_def sample_verify_simps merkle_proof_param_new_def)
  ultimately show ?thesis
    by (simp add: fetch_proof_and_verify_def get_daemon_def set_daemon_def seq_def sample_app_def
        merkle_proof_param_new_def)
qed

text \<open>
  C1: verification stays anchored over whole runs of the server. Start the node as \<open>main\<close> does and
  serve any sequence of requests on any of the routes, all of which share one response cache. In
  every state so reached, a proof that \<open>fetch_proof_and_verify\<close> accepts is a partial tree whose root
  is the one in a header that a P2P client of the started node served for the block's hash; no
  header reply, receipt or Solana transaction that another route put into the cache can change that.
\<close>

theorem verification_anchored_in_every_run:
  assumes start: "start_node J C W config = Some (Ok (Some s0))"
    and run: "(server_step X)\<^sup>*\<^sup>* s0 s"
    and libs: "libs_ok (lib_json X) (lib_spv X) (lib_btc X)" and foreign: "foreign_values X"
    and accepted: "fetch_proof_and_verify (lib_json X) (lib_codec X) (lib_spv X) (lib_rpc X) param (chain_state s) =
      (Ok b, cs')"
  shows "\<exists>mb h x y matches. b = ser_merkle_block (lib_spv X) mb \<and>
    to_old_hash (lib_spv X) (block_hash_of (lib_codec X) (mb_header mb)) = Some h \<and>
    served_header (chain_state s0) h x \<and> deserialize_header (lib_codec X) (old_serialize (lib_spv X) x) = Some y \<and>
    extract_matches (lib_spv X) (mb_txn mb) = Inr (merkle_root y, matches)"
proof -
  let ?L = "lib_spv X"
  have kept: "keeps (cache_coherent ?L) s0 s" by (rule server_run_keeps[OF libs foreign run])
  have "cache_coherent ?L (chain_state s0)"
    by (rule empty_cache_coherent[OF start_node_ready(3)[OF start]])
  with kept have co: "cache_coherent ?L (chain_state s)" by (simp add: keeps_def)
  have same: "served_header (chain_state s) = served_header (chain_state s0)"
    using kept by (auto simp: keeps_def same_clients_def served_header_def fun_eq_iff)
  obtain d mb d' where
    "gettxoutproof (lib_json X) (lib_codec X) (lib_rpc X (chain param)) param d = (Ok mb, d')"
    and v: "verify_txid (lib_codec X) ?L mb param (set_daemon (chain param) d' (chain_state s)) = (Ok b, cs')"
    using accepted by (auto simp: fetch_proof_and_verify_def seq_def map_err_Ok_iff
        split: option.splits prod.splits outcome.splits)
  have "cache_coherent ?L (set_daemon (chain param) d' (chain_state s))" by (simp add: co set_daemon_coherent)
  from verify_txid_anchored[OF v this libs_okD(1)[OF libs]] libs_okD(3)[OF libs]
  obtain h x y matches where "b = ser_merkle_block ?L mb"
    "to_old_hash ?L (block_hash_of (lib_codec X) (mb_header mb)) = Some h"
    "served_header (set_daemon (chain param) d' (chain_state s)) h x"
    "deserialize_header (lib_codec X) (old_serialize ?L x) = Some y"
    "extract_matches ?L (mb_txn mb) = Inr (merkle_root y, matches)" by blast
  moreover have "served_header (set_daemon (chain param) d' (chain_state s)) = served_header (chain_state s0)"
    by (simp add: same[symmetric] served_header_def fun_eq_iff)
  ultimately show ?thesis by metis
qed

theorem verification_anchored_in_every_run_witness:
  "\<exists>mb h x y matches. [9] = ser_merkle_block object_libs mb \<and>
    to_old_hash object_libs (block_hash_of byte_codec (mb_header mb)) = Some h \<and>
    served_header (chain_state sample_app) h x \<and>
    deserialize_header byte_codec (old_serialize object_libs x) = Some y \<and>
    extract_matches object_libs (mb_txn mb) = Inr (merkle_root y, matches)"
proof -
  have "\<exists>cs'. fetch_proof_and_verify json_serde byte_codec object_libs lying_node
      (merkle_proof_param_new [8] None BitCoin) (chain_state sample_app) = (Ok [9], cs')"
    using foreign_proof_in_sample_app .
  then obtain cs' where "fetch_proof_and_verify (lib_json sample_server) (lib_codec sample_server)
      (lib_spv sample_server) (lib_rpc sample_server) (merkle_proof_param_new [8] None BitCoin)
      (chain_state sample_app) = (Ok [9], cs')" by (auto simp: sample_server_def)
  from verification_anchored_in_every_run[OF sample_start rtranclp.rtrancl_refl sample_server_libs(1) sample_foreign this]
  show ?thesis by (simp add: sample_server_def)
qed

text \<open>
  C13: the middleware guards every unwrapped client. In every state the started server can reach, a
  request to the status route or to a header, Ethereum or Optimism route that the middleware lets
  through is answered with a body: the client that its handler unwraps was built at start-up
  because its service is enabled, and the handlers do not panic on any payload or cache.
\<close>

theorem enabled_requests_are_answered:
  assumes start: "start_node J C W config = Some (Ok (Some s0))"
    and run: "(server_step X)\<^sup>*\<^sup>* s0 s"
    and libs: "libs_ok (lib_json X) (lib_spv X) (lib_btc X)" "foreign_values X"
      "eth_libs_ok (lib_eth X)" "printable (lib_eth X)"
    and enabled: "is_service_enabled (app_service s) (path_of req)"
    and req: "req \<in> {Status} \<union> range Btc \<union> range Doge \<union> range Eth \<union> range Eth2 \<union> range Optimism"
  shows "\<exists>text s'. middle_ware X req s = (Body (Ok text), s')"
proof -
  have ready: "clients_ready s"
    using clients_ready_run[OF server_run_keeps[OF libs(1,2) run] start_node_ready(1)[OF start]] .
  note header = header_route_total[OF libs_okD(2)[OF libs(1)]] and eth = routes_total[OF libs(3,4)]
  from req consider "req = Status" | p where "req = Btc p" | p where "req = Doge p" | p where "req = Eth p"
    | p where "req = Eth2 p" | p where "req = Optimism p" by blast
  then have "\<exists>text s'. handle X req s = (Some (Ok text), s')"
  proof cases
    case 1
    with status_ready[OF ready] show ?thesis by auto
  next
    case (2 p)
    with enabled ready have "get_handle BitCoin (chain_state s) \<noteq> None" by (simp add: clients_ready_def)
    from header[OF this, of "lib_json X" "lib_codec X" "lib_btc X" p] 2 show ?thesis
      by (auto simp: btc_route_def on_chains_def)
  next
    case (3 p)
    with enabled ready have "get_handle DogeCoin (chain_state s) \<noteq> None" by (simp add: clients_ready_def)
    from header[OF this, of "lib_json X" "lib_codec X" "lib_btc X" p] 3 show ?thesis
      by (auto simp: doge_route_def on_chains_def)
  next
    case (4 p)
    with enabled ready obtain c where "helios_client s = Some c" by (auto simp: clients_ready_def)
    with 4 eth(1)[of "lib_json X" c p "response_cache (chain_state s)"] show ?thesis by (auto simp: on_cache_def)
  next
    case (5 p)
    with enabled ready obtain c where "helios_client s = Some c" by (auto simp: clients_ready_def)
    with 5 eth(2)[of "lib_json X" c p "response_cache (chain_state s)"] show ?thesis by (auto simp: on_cache_def)
  next
    case (6 p)
    with enabled ready obtain c where "helios_op_client s = Some c" by (auto simp: clients_ready_def)
    with 6 eth(3)[of "lib_json X" c p "response_cache (chain_state s)"] show ?thesis by (auto simp: on_cache_def)
  qed
  with enabled show ?thesis by (auto simp: middle_ware_def)
qed

theorem enabled_requests_are_answered_witness:
  "\<exists>text s'. middle_ware sample_server (Btc [header_request True]) sample_app = (Body (Ok text), s')"
  by (rule enabled_requests_are_answered[OF sample_start rtranclp.rtrancl_refl sample_server_libs(1) sample_foreign
        sample_server_libs(2,3)])
    (simp_all add: sample_app_def sample_service_def)

text \<open>
  C9: the daemons stay on the networks of their chains. With network options that the command line
  accepts, in every state the started server can reach the Bitcoin daemon is on a Bitcoin network
  and the Dogecoin daemon on a Dogecoin network, both at the configured address. So header replies
  of the Dogecoin daemon are cut to the 80 bytes before the proof of merged mining, those of the
  Bitcoin daemon are read whole, except on Fractal, whose headers are cut too; and a proof asked of
  the daemon of its chain is read as a Dogecoin proof from the Dogecoin daemon and as a Bitcoin proof
  from the Bitcoin daemon.
\<close>

theorem daemons_well_typed:
  assumes start: "start_node J C W config = Some (Ok (Some s0))"
    and run: "(server_step X)\<^sup>*\<^sup>* s0 s"
    and libs: "libs_ok (lib_json X) (lib_spv X) (lib_btc X)" "foreign_values X"
    and nets: "network_arg network_values a = Ok (cli_network_type (configcli config))"
      "network_arg doge_network_values b = Ok (cli_doge_network_type (configcli config))"
  shows "(\<forall>d. get_daemon BitCoin (chain_state s) = Some d \<longrightarrow>
      network d \<in> {Bitcoin, Testnet, Testnet4, Fractal, Regtest, Signet} \<and>
      daemon_rpc_addr d = cli_daemon_rpc_addr (configcli config) \<and>
      header_of_network (lib_json X) (lib_codec X) (network d) =
        (if network d = Fractal then header_from_value_fractal_or_doge (lib_json X) (lib_codec X)
         else header_from_value (lib_json X) (lib_codec X)) \<and>
      (\<forall>rpc param. chain param = BitCoin \<longrightarrow> gettxoutproof (lib_json X) (lib_codec X) rpc param d =
         seq (request (lib_json X) rpc ''gettxoutproof'' (merkle_proof_param_to_value (lib_json X) (lib_codec X) param))
           (\<lambda>v. lift (merkleblock_from_value (lib_json X) (lib_codec X) v)) d)) \<and>
    (\<forall>d. get_daemon DogeCoin (chain_state s) = Some d \<longrightarrow>
      network d \<in> {DogecoinMainnet, DogecoinTestnet, DogecoinRegtest} \<and>
      daemon_rpc_addr d = cli_doge_daemon_rpc_addr (configcli config) \<and>
      header_of_network (lib_json X) (lib_codec X) (network d) =
        header_from_value_fractal_or_doge (lib_json X) (lib_codec X) \<and>
      (\<forall>rpc param. chain param = DogeCoin \<longrightarrow> gettxoutproof (lib_json X) (lib_codec X) rpc param d =
         seq (request (lib_json X) rpc ''gettxoutproof'' (merkle_proof_param_to_value (lib_json X) (lib_codec X) param))
           (\<lambda>v. lift (doge_merkleblock_from_value (lib_json X) (lib_codec X) v)) d))"
proof -
  have "same_clients s0 s" using server_run_keeps[OF libs run] by (simp add: keeps_def)
  then have same: "map_option endpoint (get_daemon c (chain_state s)) = map_option endpoint (get_daemon c (chain_state s0))" for c
    by (simp add: same_clients_def)
  have kept: "\<exists>d0. get_daemon c (chain_state s0) = Some d0 \<and> endpoint d = endpoint d0"
    if "get_daemon c (chain_state s) = Some d" for c d
    using that same[of c] by (cases "get_daemon c (chain_state s0)") simp_all
  have typed: "cli_network_type (configcli config) \<in> {Bitcoin, Testnet, Testnet4, Fractal, Regtest, Signet}"
    "cli_doge_network_type (configcli config) \<in> {DogecoinMainnet, DogecoinTestnet, DogecoinRegtest}"
    using nets by (auto simp: network_arg_def network_values_def doge_network_values_def network_from_str_def
        split: if_splits)
  have bd: "network d = cli_network_type (configcli config) \<and>
      daemon_rpc_addr d = cli_daemon_rpc_addr (configcli config)"
    if "get_daemon BitCoin (chain_state s) = Some d" for d
    using kept[OF that] start_node_daemons(1)[OF start] by (auto simp: endpoint_def)
  have dd: "network d = cli_doge_network_type (configcli config) \<and>
      daemon_rpc_addr d = cli_doge_daemon_rpc_addr (configcli config)"
    if "get_daemon DogeCoin (chain_state s) = Some d" for d
    using kept[OF that] start_node_daemons(2)[OF start] by (auto simp: endpoint_def)
  from typed(1) have read_btc: "header_of_network (lib_json X) (lib_codec X) (cli_network_type (configcli config)) =
      (if cli_network_type (configcli config) = Fractal then header_from_value_fractal_or_doge (lib_json X) (lib_codec X)
       else header_from_value (lib_json X) (lib_codec X))"
    by (auto simp: header_of_network_def fun_eq_iff)
  from typed(2) have read_doge: "header_of_network (lib_json X) (lib_codec X) (cli_doge_network_type (configcli config)) =
      header_from_value_fractal_or_doge (lib_json X) (lib_codec X)"
    by (auto simp: header_of_network_def fun_eq_iff)
  have proofs: "gettxoutproof (lib_json X) (lib_codec X) rpc param d =
      seq (request (lib_json X) rpc ''gettxoutproof'' (merkle_proof_param_to_value (lib_json X) (lib_codec X) param))
        (\<lambda>v. lift ((case chain param of BitCoin \<Rightarrow> merkleblock_from_value (lib_json X) (lib_codec X)
           | DogeCoin \<Rightarrow> doge_merkleblock_from_value (lib_json X) (lib_codec X)) v)) d" for rpc param d
    by (cases "chain param") (simp_all add: gettxoutproof_def merkleblock_of_chain_def)
  show ?thesis
  proof (intro conjI allI impI)
    fix d assume d: "get_daemon BitCoin (chain_state s) = Some d"
    show "network d \<in> {Bitcoin, Testnet, Testnet4, Fractal, Regtest, Signet}"
      "daemon_rpc_addr d = cli_daemon_rpc_addr (configcli config)"
      using bd[OF d] typed(1) by simp_all
    show "header_of_network (lib_json X) (lib_codec X) (network d) =
        (if network d = Fractal then header_from_value_fractal_or_doge (lib_json X) (lib_codec X)
         else header_from_value (lib_json X) (lib_codec X))" using bd[OF d] read_btc by simp
  next
    fix d assume d: "get_daemon DogeCoin (chain_state s) = Some d"
    show "network d \<in> {DogecoinMainnet, DogecoinTestnet, DogecoinRegtest}"
      "daemon_rpc_addr d = cli_doge_daemon_rpc_addr (configcli config)"
      using dd[OF d] typed(2) by simp_all
    show "header_of_network (lib_json X) (lib_codec X) (network d) =
        header_from_value_fractal_or_doge (lib_json X) (lib_codec X)" using dd[OF d] read_doge by simp
  qed (simp_all add: proofs)
qed

theorem daemons_well_typed_witness:
  "\<exists>d. get_daemon BitCoin (chain_state sample_app) = Some d \<and>
    network d \<in> {Bitcoin, Testnet, Testnet4, Fractal, Regtest, Signet} \<and> daemon_rpc_addr d = ''n'' \<and>
    header_of_network (lib_json sample_server) (lib_codec sample_server) (network d) =
      header_from_value (lib_json sample_server) (lib_codec sample_server)"
proof -
  have "network_arg network_values ''regtest'' = Ok (cli_network_type (configcli sample_config))"
    "network_arg doge_network_values ''dogecoin_regtest'' = Ok (cli_doge_network_type (configcli sample_config))"
    by (simp_all add: network_arg_def network_values_def doge_network_values_def network_from_str_def
        sample_config_fields)
  note typed = daemons_well_typed[OF sample_start rtranclp.rtrancl_refl sample_server_libs(1) sample_foreign this, THEN conjunct1]
  have "\<exists>d. get_daemon BitCoin (chain_state sample_app) = Some d \<and> network d = Regtest"
    by (simp add: sample_app_def get_daemon_def)
  then obtain d where "get_daemon BitCoin (chain_state sample_app) = Some d" "network d = Regtest" by blast
  with typed[rule_format, of d] show ?thesis by (simp add: sample_config_fields cli_default_def)
qed

end
